(* ===== verification/Prelude.thy ===== *)
theory Prelude
  imports Main "HOL-Library.Word" "HOL-Library.Multiset"
    "HOL-Library.List_Lexorder" "HOL-Library.Product_Lexorder" "HOL-Library.Char_ord"
begin

text \<open>
  What the components share: the machine integers and the conversions of the source
  (\<open>as i64\<close>, \<open>to_i16\<close>, ...), panics and results as values, operations on a state that
  may fail, and the slice functions of the Rust standard library (\<open>chunks\<close>,
  \<open>enumerate\<close>, a fallible \<open>map ... collect\<close>). The collections declared here gather
  the rules the component proofs rewrite with.
\<close>

named_theorems sem_simps \<open>unfolding rules of the state-and-error operations\<close>
named_theorems cast_simps \<open>definitions of the integer conversions\<close>

section \<open>Machine integers\<close>

type_synonym byte = "8 word"
type_synonym u16 = "16 word"
type_synonym u32 = "32 word"
type_synonym u64 = "64 word"

text \<open>
  Signed columns of the database (SMALLINT, INTEGER, BIGINT) are integers; the conversions
  into them are written out. \<open>x as i64\<close> reads the same bits as two's complement.
\<close>

definition as_i64 :: "u64 \<Rightarrow> int" where
  [cast_simps]: "as_i64 w = sint w"

definition as_i16 :: "u16 \<Rightarrow> int" where
  [cast_simps]: "as_i16 w = sint w"

text \<open>\<open>ToPrimitive::to_i16 / to_i32 / to_i64\<close>: \<open>None\<close> out of range.\<close>

definition in_signed :: "nat \<Rightarrow> int \<Rightarrow> bool" where
  [cast_simps]: "in_signed b x \<longleftrightarrow> - (2 ^ (b - 1)) \<le> x \<and> x < 2 ^ (b - 1)"

definition to_signed :: "nat \<Rightarrow> int \<Rightarrow> int option" where
  [cast_simps]: "to_signed b x = (if in_signed b x then Some x else None)"

lemma to_signed_Some_iff [simp]: "to_signed b x = Some y \<longleftrightarrow> y = x \<and> in_signed b x"
  by (auto simp: to_signed_def)

lemma to_signed_None_iff [simp]: "to_signed b x = None \<longleftrightarrow> \<not> in_signed b x"
  by (auto simp: to_signed_def)

lemma in_signed_uint: "in_signed b (uint w) \<longleftrightarrow> uint w < 2 ^ (b - 1)"
  using order_trans [of "- (2 ^ (b - 1))" 0 "uint w"] by (auto simp: in_signed_def)

lemma in_signed_int: "in_signed b (int n) \<longleftrightarrow> int n < 2 ^ (b - 1)"
  using order_trans [of "- (2 ^ (b - 1))" 0 "int n"] by (auto simp: in_signed_def)

lemma as_i64_small: "uint w < 2 ^ 63 \<Longrightarrow> as_i64 w = uint w"
proof -
  assume "uint w < 2 ^ 63"
  moreover have "- (2 ^ 63) \<le> uint w"
    by (rule order_trans [of _ 0]) simp_all
  ultimately show ?thesis
    by (simp add: as_i64_def sint_uint signed_take_bit_int_eq_self)
qed

definition saturating_sub :: "u64 \<Rightarrow> u64 \<Rightarrow> u64" where
  "saturating_sub a b = (if a < b then 0 else a - b)"

lemma unat_saturating_sub: "unat (saturating_sub a b) = unat a - unat b"
  by (auto simp: saturating_sub_def unat_sub word_le_nat_alt word_less_nat_alt not_less)

section \<open>Panics and results\<close>

datatype panic = Panic string

definition expect :: "string \<Rightarrow> 'a option \<Rightarrow> panic + 'a" where
  "expect msg x = (case x of None \<Rightarrow> Inl (Panic msg) | Some a \<Rightarrow> Inr a)"

lemma expect_simps [simp]:
  "expect msg None = Inl (Panic msg)"
  "expect msg (Some a) = Inr a"
  by (simp_all add: expect_def)

lemma expect_Inr_iff [simp]: "expect msg x = Inr a \<longleftrightarrow> x = Some a"
  by (cases x) auto

definition sbind :: "'e + 'a \<Rightarrow> ('a \<Rightarrow> 'e + 'b) \<Rightarrow> 'e + 'b" where
  "sbind m f = (case m of Inl e \<Rightarrow> Inl e | Inr a \<Rightarrow> f a)"

lemma sbind_simps [simp]:
  "sbind (Inl e) f = Inl e"
  "sbind (Inr a) f = f a"
  by (simp_all add: sbind_def)

lemma sbind_Inr_iff: "sbind m f = Inr b \<longleftrightarrow> (\<exists>a. m = Inr a \<and> f a = Inr b)"
  by (cases m) auto

text \<open>\<open>iter().map(f).collect()\<close> where \<open>f\<close> may panic: the first panic wins.\<close>

fun traverse :: "('a \<Rightarrow> 'e + 'b) \<Rightarrow> 'a list \<Rightarrow> 'e + 'b list" where
  "traverse f [] = Inr []"
| "traverse f (x # xs) = sbind (f x) (\<lambda>y. sbind (traverse f xs) (\<lambda>ys. Inr (y # ys)))"

lemma traverse_Inr_iff:
  "traverse f xs = Inr ys \<longleftrightarrow> list_all2 (\<lambda>x y. f x = Inr y) xs ys"
  by (induction xs arbitrary: ys) (auto simp: sbind_Inr_iff list_all2_Cons1)

lemma traverse_length: "traverse f xs = Inr ys \<Longrightarrow> length ys = length xs"
  by (auto simp: traverse_Inr_iff dest: list_all2_lengthD)

lemma traverse_nth:
  "traverse f xs = Inr ys \<Longrightarrow> i < length xs \<Longrightarrow> f (xs ! i) = Inr (ys ! i)"
  by (auto simp: traverse_Inr_iff dest: list_all2_nthD)

lemma traverse_total: "(\<And>x. x \<in> set xs \<Longrightarrow> f x = Inr (g x)) \<Longrightarrow> traverse f xs = Inr (map g xs)"
  by (induction xs) auto

lemma traverse_fails_iff:
  "(\<exists>e. traverse f xs = Inl e) \<longleftrightarrow> (\<exists>x\<in>set xs. \<exists>e. f x = Inl e)"
  by (induction xs) (auto simp: sbind_def split: sum.splits)

section \<open>Operations on a state that may fail\<close>

text \<open>
  An operation of the program on its world (the database) is a function from the state to
  its result and the new state: the state is returned after an error too.
\<close>

type_synonym ('s, 'e, 'a) sem = "'s \<Rightarrow> ('e + 'a) \<times> 's"

definition ret :: "'a \<Rightarrow> ('s, 'e, 'a) sem" where
  [sem_simps]: "ret a s = (Inr a, s)"

definition throw :: "'e \<Rightarrow> ('s, 'e, 'a) sem" where
  [sem_simps]: "throw e s = (Inl e, s)"

definition bnd :: "('s, 'e, 'a) sem \<Rightarrow> ('a \<Rightarrow> ('s, 'e, 'b) sem) \<Rightarrow> ('s, 'e, 'b) sem" where
  [sem_simps]: "bnd m f s = (case m s of (Inl e, s') \<Rightarrow> (Inl e, s') | (Inr a, s') \<Rightarrow> f a s')"

text \<open>\<open>r.unwrap()\<close>, \<open>expect\<close> and \<open>unwrap_or_else(|e| panic!(..))\<close> of a failed operation.\<close>

definition or_panic :: "string \<Rightarrow> ('s, 'e, 'a) sem \<Rightarrow> ('s, panic, 'a) sem" where
  [sem_simps]: "or_panic msg m s =
     (case m s of (Inl e, s') \<Rightarrow> (Inl (Panic msg), s') | (Inr a, s') \<Rightarrow> (Inr a, s'))"

text \<open>\<open>r.unwrap_or(d)\<close>: the error is dropped.\<close>

definition or_default :: "'a \<Rightarrow> ('s, 'e, 'a) sem \<Rightarrow> ('s, 'f, 'a) sem" where
  [sem_simps]: "or_default d m s =
     (case m s of (Inl e, s') \<Rightarrow> (Inr d, s') | (Inr a, s') \<Rightarrow> (Inr a, s'))"

definition lift_res :: "'e + 'a \<Rightarrow> ('s, 'e, 'a) sem" where
  [sem_simps]: "lift_res r s = (r, s)"

lemma bnd_Inr: "m s = (Inr a, s') \<Longrightarrow> bnd m f s = f a s'"
  by (simp add: bnd_def)

lemma bnd_Inl: "m s = (Inl e, s') \<Longrightarrow> bnd m f s = (Inl e, s')"
  by (simp add: bnd_def)

lemma bnd_Inr_iff:
  "bnd m f s = (Inr b, t) \<longleftrightarrow> (\<exists>a u. m s = (Inr a, u) \<and> f a u = (Inr b, t))"
  by (auto simp: bnd_def split: prod.splits sum.splits)

lemma or_panic_Inr_iff [simp]: "or_panic msg m s = (Inr a, t) \<longleftrightarrow> m s = (Inr a, t)"
  by (auto simp: or_panic_def split: prod.splits sum.splits)

text \<open>
  \<open>for x in xs { total += op(x)?; }\<close>: the operations in order, their counts added up; the
  first failure ends the loop.
\<close>

fun sum_loop :: "('a \<Rightarrow> ('s, 'e, nat) sem) \<Rightarrow> 'a list \<Rightarrow> nat \<Rightarrow> ('s, 'e, nat) sem" where
  "sum_loop op [] acc = ret acc"
| "sum_loop op (x # xs) acc = bnd (op x) (\<lambda>n. sum_loop op xs (acc + n))"

section \<open>Slices\<close>

text \<open>
  \<open>slice.chunks(n)\<close>: consecutive runs of \<open>n\<close> elements, the last one possibly shorter;
  \<open>n = 0\<close> panics.
\<close>

function chunks_of :: "nat \<Rightarrow> 'a list \<Rightarrow> 'a list list" where
  "chunks_of n xs = (if n = 0 \<or> xs = [] then [] else take n xs # chunks_of n (drop n xs))"
  by pat_completeness auto
termination
  by (relation "measure (\<lambda>(n, xs). length xs)") auto

declare chunks_of.simps [simp del]

lemma chunks_of_Nil [simp]: "chunks_of n [] = []"
  by (simp add: chunks_of.simps)

lemma chunks_of_step:
  "0 < n \<Longrightarrow> xs \<noteq> [] \<Longrightarrow> chunks_of n xs = take n xs # chunks_of n (drop n xs)"
  by (subst chunks_of.simps) simp

definition chunks :: "nat \<Rightarrow> 'a list \<Rightarrow> panic + 'a list list" where
  "chunks n xs =
     (if n = 0 then Inl (Panic ''chunk size must be non-zero'') else Inr (chunks_of n xs))"

lemma concat_chunks_of: "0 < n \<Longrightarrow> concat (chunks_of n xs) = xs"
proof (induction n xs rule: chunks_of.induct)
  case (1 n xs)
  then show ?case by (cases "xs = []") (simp_all add: chunks_of_step)
qed

lemma chunks_of_bounds: "c \<in> set (chunks_of n xs) \<Longrightarrow> c \<noteq> [] \<and> length c \<le> n"
proof (induction n xs rule: chunks_of.induct)
  case (1 n xs)
  show ?case
  proof (cases "n = 0 \<or> xs = []")
    case True
    with "1.prems" show ?thesis by (subst (asm) chunks_of.simps) simp
  next
    case False
    with "1.prems" have "c = take n xs \<or> c \<in> set (chunks_of n (drop n xs))"
      by (simp add: chunks_of_step)
    then show ?thesis
    proof
      assume "c = take n xs"
      with False show ?thesis by simp
    next
      assume "c \<in> set (chunks_of n (drop n xs))"
      with False show ?thesis by (intro "1.IH")
    qed
  qed
qed

lemma chunks_of_small: "xs \<noteq> [] \<Longrightarrow> length xs \<le> n \<Longrightarrow> chunks_of n xs = [xs]"
  using chunks_of_step [of n xs] by (cases "n = 0") auto

end
