(* ===== verification/Float_Model.thy ===== *)
theory Float_Model
  imports Complex_Main Prelude "HOL-Library.Log_Nat"
begin

text \<open>
  The \<open>f64\<close> arithmetic the program uses: a batch size is \<open>(c * batch_scale) as usize\<close>
  (or \<open>as u16\<close>). A finite value is the rational it stands for; a product is the exact
  product rounded to 53 significant bits, ties to even; a conversion to an integer
  truncates and saturates, and NaN becomes 0. The exponent range is not bounded: with
  constants up to 5000 and factors in [0.1, 10] no product is subnormal or overflows.
\<close>

datatype f64 = NaN | PInf | NInf | Fin rat

section \<open>Rounding\<close>

text \<open>The exponent of a positive rational: the \<open>e\<close> with \<open>2 ^ e \<le> x < 2 ^ (e + 1)\<close>.\<close>

definition fexp :: "rat \<Rightarrow> int" where
  "fexp x = (case quotient_of x of (n, d) \<Rightarrow>
     (let e = bitlen n - bitlen d in if 2 powi e \<le> x then e else e - 1))"

text \<open>Round to the nearest integer, ties to even.\<close>

definition rne :: "rat \<Rightarrow> int" where
  "rne x = (let f = \<lfloor>x\<rfloor>; r = x - of_int f in
     if r < 1 / 2 then f else if r > 1 / 2 then f + 1 else if even f then f else f + 1)"

definition fl :: "nat \<Rightarrow> rat \<Rightarrow> rat" where
  "fl p x = (if x \<le> 0 then 0
     else let u = 2 powi (fexp x - int p + 1) in of_int (rne (x / u)) * u)"

lemma rne_error: "\<bar>of_int (rne x) - x\<bar> \<le> 1 / 2"
proof -
  have "of_int \<lfloor>x\<rfloor> \<le> x" "x < of_int \<lfloor>x\<rfloor> + 1" by linarith+
  then show ?thesis by (auto simp: rne_def Let_def)
qed

lemma fexp_le: "0 < x \<Longrightarrow> 2 powi (fexp x) \<le> x"
proof -
  assume pos: "0 < x"
  obtain n d where q: "quotient_of x = (n, d)" by (cases "quotient_of x")
  have d: "0 < d" using quotient_of_denom_pos [OF q] .
  have x: "x = of_int n / of_int d" using quotient_of_div [OF q] .
  have n: "0 < n" using pos d x by (simp add: zero_less_divide_iff)
  have "2 ^ nat (bitlen n - 1) \<le> n" "d < 2 ^ nat (bitlen d)"
    using bitlen_bounds [OF n] bitlen_bounds [OF d] by auto
  then have r: "2 ^ nat (bitlen n - 1) \<le> (of_int n :: rat)" "of_int d < (2 :: rat) ^ nat (bitlen d)"
    by (metis of_int_le_iff of_int_power of_int_numeral, metis of_int_less_iff of_int_power of_int_numeral)
  have bn: "0 < bitlen n" "0 < bitlen d" 
    using n d bitlen_nonneg [of n] bitlen_nonneg [of d] bitlen_eq_zero_iff [of n] bitlen_eq_zero_iff [of d]
    by linarith+
  have "2 powi (bitlen n - bitlen d - 1) = (2 :: rat) ^ nat (bitlen n - 1) / 2 ^ nat (bitlen d)"
  proof -
    have "(2 :: rat) ^ nat (bitlen n - 1) = 2 powi (bitlen n - 1)" "(2 :: rat) ^ nat (bitlen d) = 2 powi bitlen d"
      using bn by (simp_all add: power_int_def)
    moreover have "bitlen n - bitlen d - 1 = bitlen n - 1 - bitlen d" by simp
    moreover have "2 powi (bitlen n - 1 - bitlen d) = (2 :: rat) powi (bitlen n - 1) / 2 powi bitlen d"
      by (rule power_int_diff) simp
    ultimately show ?thesis by (simp only:)
  qed
  also have "\<dots> \<le> of_int n / of_int d"
    using r d n by (intro frac_le) auto
  finally show ?thesis
    by (simp add: fexp_def q Let_def flip: x)
qed

lemma fl_error: "0 < x \<Longrightarrow> \<bar>fl p x - x\<bar> \<le> x / 2 ^ p"
proof -
  assume pos: "0 < x"
  define u :: rat where "u = 2 powi (fexp x - int p + 1)"
  have u: "0 < u" by (simp add: u_def)
  have "u / 2 = 2 powi (fexp x) / 2 ^ p"
    by (simp add: u_def power_int_add power_int_diff)
  also have "\<dots> \<le> x / 2 ^ p"
    using fexp_le [OF pos] by (simp add: divide_right_mono)
  finally have half: "u / 2 \<le> x / 2 ^ p" .
  have "fl p x - x = (of_int (rne (x / u)) - x / u) * u"
    using pos u by (simp add: fl_def Let_def left_diff_distrib flip: u_def)
  then have "\<bar>fl p x - x\<bar> = \<bar>of_int (rne (x / u)) - x / u\<bar> * u"
    using u by (simp add: abs_mult)
  also have "\<dots> \<le> 1 / 2 * u"
    using rne_error [of "x / u"] u by (intro mult_right_mono) auto
  finally have "\<bar>fl p x - x\<bar> \<le> u / 2" by simp
  then show ?thesis using half by (rule order_trans)
qed

text \<open>Integers of at most \<open>p\<close> bits are exact.\<close>

lemma rne_of_int [simp]: "rne (of_int k) = k"
  by (simp add: rne_def)

lemma fl_of_nat: "n < 2 ^ p \<Longrightarrow> fl p (of_nat n) = of_nat n"
proof (cases "n = 0")
  case False
  assume "n < 2 ^ p"
  then have "(of_nat n :: rat) < of_nat (2 ^ p)" by (simp only: of_nat_less_iff)
  moreover have "2 powi (fexp (of_nat n)) \<le> (of_nat n :: rat)"
    using False by (intro fexp_le) simp
  ultimately have "2 powi (fexp (of_nat n)) < (of_nat (2 ^ p) :: rat)" by (rule le_less_trans [rotated])
  then have "2 powi (fexp (of_nat n)) < (2 :: rat) powi (int p)" by simp
  then have "fexp (of_nat n) < int p"
    by (metis linorder_not_less one_le_numeral power_int_increasing)
  then obtain k where k: "fexp (of_nat n) - int p + 1 = - int k"
    using that [of "nat (int p - fexp (of_nat n) - 1)"] by simp
  have "rne (of_nat n / (2 :: rat) powi (- int k)) = rne (of_int (int n * 2 ^ k))"
    by (simp add: power_int_minus field_simps)
  then have "rne (of_nat n / (2 :: rat) powi (- int k)) = int n * 2 ^ k"
    by (simp only: rne_of_int)
  then show ?thesis using False
    by (simp add: fl_def k Let_def power_int_minus)
qed (simp add: fl_def)

section \<open>Operations\<close>

text \<open>\<open>c * x\<close> for a positive literal \<open>c\<close> (\<open>500f64 * batch_scale\<close>).\<close>

fun f64_scale :: "nat \<Rightarrow> f64 \<Rightarrow> f64" where
  "f64_scale c NaN = NaN"
| "f64_scale c PInf = PInf"
| "f64_scale c NInf = NInf"
| "f64_scale c (Fin x) = Fin (if x < 0 then - fl 53 (of_nat c * - x) else fl 53 (of_nat c * x))"

text \<open>\<open>x as usize\<close> and \<open>x as u16\<close>: truncation, saturating at the ends of the type.\<close>

fun f64_as_unsigned :: "nat \<Rightarrow> f64 \<Rightarrow> nat" where
  "f64_as_unsigned b NaN = 0"
| "f64_as_unsigned b PInf = 2 ^ b - 1"
| "f64_as_unsigned b NInf = 0"
| "f64_as_unsigned b (Fin x) = min (nat \<lfloor>x\<rfloor>) (2 ^ b - 1)"

text \<open>Comparisons with a literal: every comparison with NaN is false.\<close>

fun f64_lt :: "f64 \<Rightarrow> rat \<Rightarrow> bool" where
  "f64_lt (Fin x) y = (x < y)"
| "f64_lt NInf y = True"
| "f64_lt _ y = False"

fun f64_gt :: "f64 \<Rightarrow> rat \<Rightarrow> bool" where
  "f64_gt (Fin x) y = (x > y)"
| "f64_gt PInf y = True"
| "f64_gt _ y = False"

text \<open>The double nearest to the literal \<open>0.1\<close>.\<close>

definition lit_0_1 :: rat where
  "lit_0_1 = 3602879701896397 / 36028797018963968"

section \<open>Batch sizes\<close>

text \<open>\<open>min((c * batch_scale) as usize, cap)\<close> and the variant through \<open>u16\<close>.\<close>

definition batch_usize :: "nat \<Rightarrow> nat \<Rightarrow> f64 \<Rightarrow> nat" where
  "batch_usize c cap s = min (f64_as_unsigned 64 (f64_scale c s)) cap"

definition batch_u16 :: "nat \<Rightarrow> nat \<Rightarrow> f64 \<Rightarrow> nat" where
  "batch_u16 c cap s = min (f64_as_unsigned 16 (f64_scale c s)) cap"

text \<open>The factors that \<open>main\<close> lets through.\<close>

definition scale_ok :: "f64 \<Rightarrow> bool" where
  "scale_ok s = (case s of Fin x \<Rightarrow> lit_0_1 \<le> x \<and> x \<le> 10 | _ \<Rightarrow> False)"

lemma scaled_bounds:
  assumes "lit_0_1 \<le> x" "x \<le> 10" "100 \<le> c" "c \<le> 5000"
  shows "1 \<le> \<lfloor>fl 53 (of_nat c * x)\<rfloor>" "\<lfloor>fl 53 (of_nat c * x)\<rfloor> \<le> 10 * int c"
proof -
  define y where "y = of_nat c * x"
  have c: "100 \<le> (of_nat c :: rat)" "of_nat c \<le> (5000 :: rat)"
    using assms by simp_all
  have x: "1 / 10 \<le> x" using assms by (simp add: lit_0_1_def)
  have "100 * (1 / 10) \<le> y" unfolding y_def
    using c x by (intro mult_mono) auto
  then have y: "10 \<le> y" by simp
  have yc: "y \<le> of_nat c * 10" unfolding y_def
    using assms by (intro mult_left_mono) auto
  then have y2: "y \<le> 50000" using c by simp
  have "\<bar>fl 53 y - y\<bar> \<le> y / 2 ^ 53" using y by (intro fl_error) simp
  moreover have "y / 2 ^ 53 < 1 / 2" using y2 by simp
  ultimately have e: "\<bar>fl 53 y - y\<bar> < 1 / 2" by linarith
  then have "1 \<le> fl 53 y" using y by linarith
  then show "1 \<le> \<lfloor>fl 53 (of_nat c * x)\<rfloor>" by (simp add: y_def le_floor_iff)
  have "fl 53 y < of_nat c * 10 + 1" using e yc by linarith
  then have "fl 53 y < of_int (10 * int c + 1)" by (simp add: mult.commute)
  then show "\<lfloor>fl 53 (of_nat c * x)\<rfloor> \<le> 10 * int c" by (simp add: y_def floor_le_iff)
qed

lemma f64_as_unsigned_bounds:
  assumes "scale_ok s" "100 \<le> c" "c \<le> 5000" "16 \<le> b"
  shows "1 \<le> f64_as_unsigned b (f64_scale c s)" "f64_as_unsigned b (f64_scale c s) \<le> 10 * c"
proof -
  obtain x where s: "s = Fin x" and x: "lit_0_1 \<le> x" "x \<le> 10"
    using assms(1) by (auto simp: scale_ok_def split: f64.splits)
  have nn: "\<not> x < 0" using x by (simp add: lit_0_1_def)
  have "(2 :: nat) ^ 16 \<le> 2 ^ b" using assms(4) by (intro power_increasing) auto
  then have "1 \<le> (2 :: nat) ^ b - 1" by simp
  then show "1 \<le> f64_as_unsigned b (f64_scale c s)"
    using scaled_bounds(1) [OF x assms(2,3)] nn by (simp add: s le_nat_iff)
  show "f64_as_unsigned b (f64_scale c s) \<le> 10 * c"
    using scaled_bounds(2) [OF x assms(2,3)] nn by (simp add: s min.coboundedI1)
qed

lemma batch_usize_bounds:
  assumes "scale_ok s" "100 \<le> c" "c \<le> 5000" "1 \<le> cap"
  shows "1 \<le> batch_usize c cap s" "batch_usize c cap s \<le> min (10 * c) cap"
  using f64_as_unsigned_bounds [OF assms(1-3), of 64] assms(4) by (auto simp: batch_usize_def)

lemma batch_u16_bounds:
  assumes "scale_ok s" "100 \<le> c" "c \<le> 5000" "1 \<le> cap"
  shows "1 \<le> batch_u16 c cap s" "batch_u16 c cap s \<le> min (10 * c) cap"
  using f64_as_unsigned_bounds [OF assms(1-3), of 16] assms(4) by (auto simp: batch_u16_def)

lemma batch_one [simp]:
  "c < 2 ^ 53 \<Longrightarrow> batch_usize c cap (Fin 1) = min c cap"
  "c < 2 ^ 16 \<Longrightarrow> batch_u16 c cap (Fin 1) = min c cap"
  by (simp_all add: batch_usize_def batch_u16_def fl_of_nat)

lemma scale_ok_one: "scale_ok (Fin 1)"
  by (simp add: scale_ok_def lit_0_1_def)

end
