(* ===== verification/Models.thy ===== *)
theory Models
  imports Prelude
begin

text \<open>
  The rows of the database (\<open>database/src/models/\<close>): the 32-byte hash with the byte-wise
  order the batch inserts sort by, one record per row type, and the row equality the
  program's sets and maps use (the primary key, not the whole row).
\<close>

section \<open>Hashes\<close>

datatype hash = Hash (as_bytes: "byte list")

text \<open>
  \<open>impl Ord for Hash\<close>: compare the byte arrays lexicographically; \<open>impl PartialOrd\<close>: the same
  answer, never \<open>None\<close>.
\<close>

datatype cmp_ordering = Less | Equal | Greater

definition cmp :: "hash \<Rightarrow> hash \<Rightarrow> cmp_ordering" where
  "cmp a b = (if as_bytes a < as_bytes b then Less else if as_bytes a = as_bytes b then Equal else Greater)"

definition partial_cmp :: "hash \<Rightarrow> hash \<Rightarrow> cmp_ordering option" where
  "partial_cmp a b = Some (cmp a b)"

text \<open>The operators as Rust derives them from \<open>partial_cmp\<close>.\<close>

instantiation hash :: linorder
begin

definition less_eq_hash :: "hash \<Rightarrow> hash \<Rightarrow> bool" where
  "less_eq_hash a b \<longleftrightarrow> partial_cmp a b = Some Less \<or> partial_cmp a b = Some Equal"

definition less_hash :: "hash \<Rightarrow> hash \<Rightarrow> bool" where
  "less_hash a b \<longleftrightarrow> partial_cmp a b = Some Less"

instance
  by standard (auto simp: less_eq_hash_def less_hash_def partial_cmp_def cmp_def hash.expand split: if_splits)

end

section \<open>Rows\<close>

record block_row =
  blk_hash :: hash
  blk_accepted_id_merkle_root :: "hash option"
  blk_merge_set_blues_hashes :: "hash list option"
  blk_merge_set_reds_hashes :: "hash list option"
  blk_selected_parent_hash :: "hash option"
  blk_bits :: "int option"
  blk_blue_score :: "int option"
  blk_blue_work :: "byte list option"
  blk_daa_score :: "int option"
  blk_hash_merkle_root :: "hash option"
  blk_nonce :: "byte list option"
  blk_pruning_point :: "hash option"
  blk_timestamp :: "int option"
  blk_utxo_commitment :: "hash option"
  blk_version :: "int option"

record block_parent_row =
  bp_block_hash :: hash
  bp_parent_hash :: hash

record block_transaction_row =
  bt_block_hash :: hash
  bt_transaction_id :: hash

record subnetwork_row =
  sn_id :: int
  sn_subnetwork_id :: string

record transaction_row =
  tx_id :: hash
  tx_subnetwork_id :: "int option"
  tx_hash :: "hash option"
  tx_mass :: "int option"
  tx_payload :: "byte list option"
  tx_block_time :: "int option"

record transaction_acceptance_row =
  ta_transaction_id :: "hash option"
  ta_block_hash :: "hash option"

record transaction_input_row =
  in_transaction_id :: hash
  in_index :: int
  in_previous_outpoint_hash :: "hash option"
  in_previous_outpoint_index :: "int option"
  in_signature_script :: "byte list option"
  in_sig_op_count :: "int option"
  in_block_time :: "int option"
  in_previous_outpoint_script :: "byte list option"
  in_previous_outpoint_amount :: "int option"
  in_previous_outpoint_address :: "string option"

record transaction_output_row =
  out_transaction_id :: hash
  out_index :: int
  out_amount :: "int option"
  out_script_public_key :: "byte list option"
  out_script_public_key_address :: "string option"
  out_block_time :: "int option"

record address_transaction_row =
  at_address :: string
  at_transaction_id :: hash
  at_block_time :: "int option"

record script_transaction_row =
  st_script_public_key :: "byte list"
  st_transaction_id :: hash
  st_block_time :: "int option"

record balance =
  bal_address :: string
  bal_balance :: int

section \<open>Row equality\<close>

text \<open>\<open>impl PartialEq\<close> of the rows whose equality is not the derived one.\<close>

definition block_eq :: "block_row \<Rightarrow> block_row \<Rightarrow> bool" where
  "block_eq a b \<longleftrightarrow> blk_hash a = blk_hash b"

definition subnetwork_eq :: "subnetwork_row \<Rightarrow> subnetwork_row \<Rightarrow> bool" where
  "subnetwork_eq a b \<longleftrightarrow> sn_subnetwork_id a = sn_subnetwork_id b"

definition transaction_eq :: "transaction_row \<Rightarrow> transaction_row \<Rightarrow> bool" where
  "transaction_eq a b \<longleftrightarrow> tx_id a = tx_id b"

definition transaction_input_eq :: "transaction_input_row \<Rightarrow> transaction_input_row \<Rightarrow> bool" where
  "transaction_input_eq a b \<longleftrightarrow>
     in_transaction_id a = in_transaction_id b \<and> in_index a = in_index b"

definition transaction_output_eq :: "transaction_output_row \<Rightarrow> transaction_output_row \<Rightarrow> bool" where
  "transaction_output_eq a b \<longleftrightarrow>
     out_transaction_id a = out_transaction_id b \<and> out_index a = out_index b"

definition address_transaction_eq :: "address_transaction_row \<Rightarrow> address_transaction_row \<Rightarrow> bool" where
  "address_transaction_eq a b \<longleftrightarrow>
     at_address a = at_address b \<and> at_transaction_id a = at_transaction_id b"

definition script_transaction_eq :: "script_transaction_row \<Rightarrow> script_transaction_row \<Rightarrow> bool" where
  "script_transaction_eq a b \<longleftrightarrow>
     st_script_public_key a = st_script_public_key b \<and> st_transaction_id a = st_transaction_id b"

section \<open>Primary keys\<close>

text \<open>
  The UNIQUE or PRIMARY KEY columns of each table (\<open>database/migrations/schema/up.sql\<close>).
  \<open>None\<close> is a row that cannot conflict: a NULL in a UNIQUE column.
\<close>

definition block_key :: "block_row \<Rightarrow> hash option" where
  "block_key b = Some (blk_hash b)"

definition block_parent_key :: "block_parent_row \<Rightarrow> (hash \<times> hash) option" where
  "block_parent_key r = Some (bp_block_hash r, bp_parent_hash r)"

definition block_transaction_key :: "block_transaction_row \<Rightarrow> (hash \<times> hash) option" where
  "block_transaction_key r = Some (bt_block_hash r, bt_transaction_id r)"

definition transaction_key :: "transaction_row \<Rightarrow> hash option" where
  "transaction_key t = Some (tx_id t)"

definition acceptance_key :: "transaction_acceptance_row \<Rightarrow> hash option" where
  "acceptance_key a = ta_transaction_id a"

definition input_key :: "transaction_input_row \<Rightarrow> (hash \<times> int) option" where
  "input_key i = Some (in_transaction_id i, in_index i)"

definition output_key :: "transaction_output_row \<Rightarrow> (hash \<times> int) option" where
  "output_key r = Some (out_transaction_id r, out_index r)"

definition address_transaction_key :: "address_transaction_row \<Rightarrow> (string \<times> hash) option" where
  "address_transaction_key r = Some (at_address r, at_transaction_id r)"

definition script_transaction_key :: "script_transaction_row \<Rightarrow> (byte list \<times> hash) option" where
  "script_transaction_key r = Some (st_script_public_key r, st_transaction_id r)"

lemmas key_defs =
  block_key_def block_parent_key_def block_transaction_key_def transaction_key_def
  acceptance_key_def input_key_def output_key_def address_transaction_key_def
  script_transaction_key_def

text \<open>The program's row equality is equality of the primary key of the row's table.\<close>

lemma row_eq_key:
  "block_eq b b' \<longleftrightarrow> block_key b = block_key b'"
  "transaction_eq t t' \<longleftrightarrow> transaction_key t = transaction_key t'"
  "transaction_input_eq i i' \<longleftrightarrow> input_key i = input_key i'"
  "transaction_output_eq q q' \<longleftrightarrow> output_key q = output_key q'"
  "address_transaction_eq a a' \<longleftrightarrow> address_transaction_key a = address_transaction_key a'"
  "script_transaction_eq s s' \<longleftrightarrow> script_transaction_key s = script_transaction_key s'"
  by (simp_all add: key_defs block_eq_def transaction_eq_def transaction_input_eq_def
      transaction_output_eq_def address_transaction_eq_def script_transaction_eq_def)

section \<open>Balance\<close>

definition balance_new :: "string \<Rightarrow> int \<Rightarrow> balance" where
  "balance_new address b = \<lparr>bal_address = address, bal_balance = b\<rparr>"

end
