(* ===== verification/Mapping.thy ===== *)
theory Mapping
  imports Cli Models
begin

text \<open>
  The mapping crate (\<open>mapping/src/\<close>): from the node's RPC blocks and transactions to
  database rows, with the optional fields of \<open>VecnoDbMapper\<close>. The RPC records hold the
  fields the mapper reads. Two conversions belong to the node's crates and are parameters:
  \<open>be_bytes_var\<close> (\<open>BlueWorkType::to_be_bytes_var\<close>) and \<open>payload_str\<close>
  (\<open>Address::payload_to_string\<close>). A conversion out of range or a missing
  \<open>verbose_data\<close> panics.
\<close>

section \<open>RPC data\<close>

record rpc_header =
  h_hash :: hash
  h_version :: u16
  h_parents_by_level :: "hash list list"
  h_hash_merkle_root :: hash
  h_accepted_id_merkle_root :: hash
  h_utxo_commitment :: hash
  h_timestamp :: u64
  h_bits :: u32
  h_nonce :: u64
  h_daa_score :: u64
  h_blue_work :: nat
  h_blue_score :: u64
  h_pruning_point :: hash

record rpc_block_verbose =
  bv_hash :: hash
  bv_selected_parent_hash :: hash
  bv_transaction_ids :: "hash list"
  bv_merge_set_blues_hashes :: "hash list"
  bv_merge_set_reds_hashes :: "hash list"

record rpc_output =
  ro_value :: u64
  ro_script :: "byte list"
  ro_address :: "string option" \<comment> \<open>the address of the output's \<open>verbose_data\<close>, if present\<close>

record rpc_input =
  ri_previous_transaction_id :: hash
  ri_previous_index :: u32
  ri_signature_script :: "byte list"
  ri_sig_op_count :: byte

record rpc_tx_verbose =
  tv_transaction_id :: hash
  tv_hash :: hash
  tv_compute_mass :: u64
  tv_block_hash :: hash
  tv_block_time :: u64

record rpc_transaction =
  rt_inputs :: "rpc_input list"
  rt_outputs :: "rpc_output list"
  rt_subnetwork_id :: string
  rt_payload :: "byte list"
  rt_verbose :: "rpc_tx_verbose option"

record rpc_block =
  rb_header :: rpc_header
  rb_transactions :: "rpc_transaction list"
  rb_verbose :: "rpc_block_verbose option"

section \<open>The mapper's switches\<close>

record mapper =
  m_block_accepted_id_merkle_root :: bool
  m_block_merge_set_blues_hashes :: bool
  m_block_merge_set_reds_hashes :: bool
  m_block_selected_parent_hash :: bool
  m_block_bits :: bool
  m_block_blue_work :: bool
  m_block_blue_score :: bool
  m_block_daa_score :: bool
  m_block_hash_merkle_root :: bool
  m_block_nonce :: bool
  m_block_pruning_point :: bool
  m_block_timestamp :: bool
  m_block_utxo_commitment :: bool
  m_block_version :: bool
  m_tx_subnetwork_id :: bool
  m_tx_hash :: bool
  m_tx_mass :: bool
  m_tx_payload :: bool
  m_tx_block_time :: bool
  m_tx_in_previous_outpoint :: bool
  m_tx_in_signature_script :: bool
  m_tx_in_sig_op_count :: bool
  m_tx_in_block_time :: bool
  m_tx_out_amount :: bool
  m_tx_out_script_public_key :: bool
  m_tx_out_script_public_key_address :: bool
  m_tx_out_block_time :: bool

definition mapper_new :: "cli_args \<Rightarrow> mapper" where
  "mapper_new args = \<lparr>
     m_block_accepted_id_merkle_root = \<not> is_excluded args BlockAcceptedIdMerkleRoot,
     m_block_merge_set_blues_hashes = \<not> is_excluded args BlockMergeSetBluesHashes,
     m_block_merge_set_reds_hashes = \<not> is_excluded args BlockMergeSetRedsHashes,
     m_block_selected_parent_hash = \<not> is_excluded args BlockSelectedParentHash,
     m_block_bits = \<not> is_excluded args BlockBits,
     m_block_blue_work = \<not> is_excluded args BlockBlueWork,
     m_block_blue_score = \<not> is_excluded args BlockBlueScore,
     m_block_daa_score = \<not> is_excluded args BlockDaaScore,
     m_block_hash_merkle_root = \<not> is_excluded args BlockHashMerkleRoot,
     m_block_nonce = \<not> is_excluded args BlockNonce,
     m_block_pruning_point = \<not> is_excluded args BlockPruningPoint,
     m_block_timestamp = \<not> is_excluded args BlockTimestamp,
     m_block_utxo_commitment = \<not> is_excluded args BlockUtxoCommitment,
     m_block_version = \<not> is_excluded args BlockVersion,
     m_tx_subnetwork_id = \<not> is_excluded args TxSubnetworkId,
     m_tx_hash = \<not> is_excluded args TxHash,
     m_tx_mass = \<not> is_excluded args TxMass,
     m_tx_payload = \<not> is_excluded args TxPayload,
     m_tx_block_time = \<not> is_excluded args TxBlockTime,
     m_tx_in_previous_outpoint = \<not> is_excluded args TxInPreviousOutpoint,
     m_tx_in_signature_script = \<not> is_excluded args TxInSignatureScript,
     m_tx_in_sig_op_count = \<not> is_excluded args TxInSigOpCount,
     m_tx_in_block_time = \<not> is_excluded args TxInBlockTime,
     m_tx_out_amount = \<not> is_excluded args TxOutAmount,
     m_tx_out_script_public_key = \<not> is_excluded args TxOutScriptPublicKey,
     m_tx_out_script_public_key_address = \<not> is_excluded args TxOutScriptPublicKeyAddress,
     m_tx_out_block_time = \<not> is_excluded args TxOutBlockTime\<rparr>"

text \<open>\<open>bool::then_some\<close>: its argument is evaluated in any case.\<close>

definition then_some :: "bool \<Rightarrow> 'a \<Rightarrow> 'a option" where
  "then_some b x = (if b then Some x else None)"

lemma then_some_simps [simp]: "then_some True x = Some x" "then_some False x = None"
  by (simp_all add: then_some_def)

lemma then_some_None_iff [simp]: "then_some b x = None \<longleftrightarrow> \<not> b"
  by (simp add: then_some_def)

section \<open>Blocks\<close>

text \<open>\<open>u64::to_be_bytes\<close>, most significant byte first.\<close>

definition be_bytes :: "u64 \<Rightarrow> byte list" where
  "be_bytes w = map (\<lambda>i. ucast (drop_bit (8 * i) w)) (rev [0..<8])"

definition blocks_map_block ::
  "(nat \<Rightarrow> byte list) \<Rightarrow> rpc_block \<Rightarrow> bool \<Rightarrow> bool \<Rightarrow> bool \<Rightarrow> bool \<Rightarrow> bool \<Rightarrow> bool \<Rightarrow> bool \<Rightarrow> bool \<Rightarrow>
     bool \<Rightarrow> bool \<Rightarrow> bool \<Rightarrow> bool \<Rightarrow> bool \<Rightarrow> bool \<Rightarrow> panic + block_row" where
  "blocks_map_block be_bytes_var b include_accepted_id_merkle_root include_merge_set_blues_hashes
     include_merge_set_reds_hashes include_selected_parent_hash include_bits include_blue_work include_blue_score
     include_daa_score include_hash_merkle_root include_nonce include_pruning_point include_timestamp
     include_utxo_commitment include_version =
     sbind (expect ''Block verbose_data is missing'' (rb_verbose b)) (\<lambda>v.
     let h = rb_header b in
     Inr \<lparr>blk_hash = h_hash h,
       blk_accepted_id_merkle_root =
         then_some include_accepted_id_merkle_root (h_accepted_id_merkle_root h),
       blk_merge_set_blues_hashes =
         then_some (include_merge_set_blues_hashes \<and> bv_merge_set_blues_hashes v \<noteq> [])
           (bv_merge_set_blues_hashes v),
       blk_merge_set_reds_hashes =
         then_some (include_merge_set_reds_hashes \<and> bv_merge_set_reds_hashes v \<noteq> [])
           (bv_merge_set_reds_hashes v),
       blk_selected_parent_hash =
         then_some include_selected_parent_hash (bv_selected_parent_hash v),
       blk_bits = then_some include_bits (uint (h_bits h)),
       blk_blue_score = then_some include_blue_score (as_i64 (h_blue_score h)),
       blk_blue_work = then_some include_blue_work (be_bytes_var (h_blue_work h)),
       blk_daa_score = then_some include_daa_score (as_i64 (h_daa_score h)),
       blk_hash_merkle_root = then_some include_hash_merkle_root (h_hash_merkle_root h),
       blk_nonce = then_some include_nonce (be_bytes (h_nonce h)),
       blk_pruning_point = then_some include_pruning_point (h_pruning_point h),
       blk_timestamp = then_some include_timestamp (as_i64 (h_timestamp h)),
       blk_utxo_commitment = then_some include_utxo_commitment (h_utxo_commitment h),
       blk_version = then_some include_version (as_i16 (h_version h))\<rparr>)"

text \<open>\<open>VecnoDbMapper::map_block\<close>: the switches of the mapper, by position.\<close>

definition map_block :: "(nat \<Rightarrow> byte list) \<Rightarrow> mapper \<Rightarrow> rpc_block \<Rightarrow> panic + block_row" where
  "map_block be_bytes_var m b = blocks_map_block be_bytes_var b
     (m_block_accepted_id_merkle_root m)
     (m_block_merge_set_blues_hashes m)
     (m_block_merge_set_reds_hashes m)
     (m_block_selected_parent_hash m)
     (m_block_bits m)
     (m_block_blue_work m)
     (m_block_blue_score m)
     (m_block_daa_score m)
     (m_block_hash_merkle_root m)
     (m_block_nonce m)
     (m_block_pruning_point m)
     (m_block_timestamp m)
     (m_block_utxo_commitment m)
     (m_block_version m)"

definition map_block_parents :: "rpc_block \<Rightarrow> block_parent_row list" where
  "map_block_parents b =
     (case h_parents_by_level (rb_header b) of
        [] \<Rightarrow> []
      | parents # _ \<Rightarrow>
          map (\<lambda>p. \<lparr>bp_block_hash = h_hash (rb_header b), bp_parent_hash = p\<rparr>) parents)"

definition map_block_transaction_ids :: "rpc_block \<Rightarrow> panic + hash list" where
  "map_block_transaction_ids b =
     sbind (expect ''Block verbose_data is missing'' (rb_verbose b))
       (\<lambda>v. Inr (bv_transaction_ids v))"

definition count_block_transactions :: "rpc_block \<Rightarrow> panic + nat" where
  "count_block_transactions b =
     sbind (expect ''Block verbose_data is missing'' (rb_verbose b))
       (\<lambda>v. Inr (length (bv_transaction_ids v)))"

section \<open>Transactions\<close>

abbreviation unwrap_msg :: string where
  "unwrap_msg \<equiv> ''called `Option::unwrap()` on a `None` value''"

abbreviation tx_verbose_missing :: string where
  "tx_verbose_missing \<equiv> ''Transaction verbose_data is missing''"

abbreviation out_verbose_missing :: string where
  "out_verbose_missing \<equiv> ''Transaction output verbose_data is missing''"

definition transactions_map_transaction ::
  "int \<Rightarrow> rpc_transaction \<Rightarrow> bool \<Rightarrow> bool \<Rightarrow> bool \<Rightarrow> bool \<Rightarrow> bool \<Rightarrow> panic + transaction_row" where
  "transactions_map_transaction subnetwork_key t include_subnetwork_id include_hash include_mass include_payload include_block_time =
     sbind (expect tx_verbose_missing (rt_verbose t)) (\<lambda>v.
     sbind (expect unwrap_msg (to_signed 32 (uint (tv_compute_mass v)))) (\<lambda>mass.
     sbind (expect unwrap_msg (to_signed 64 (uint (tv_block_time v)))) (\<lambda>time.
     Inr \<lparr>tx_id = tv_transaction_id v,
       tx_subnetwork_id = then_some include_subnetwork_id subnetwork_key,
       tx_hash = then_some include_hash (tv_hash v),
       tx_mass = then_some (include_mass \<and> tv_compute_mass v \<noteq> 0) mass,
       tx_payload = then_some (include_payload \<and> rt_payload t \<noteq> []) (rt_payload t),
       tx_block_time = then_some include_block_time time\<rparr>)))"

definition map_transaction :: "mapper \<Rightarrow> rpc_transaction \<Rightarrow> int \<Rightarrow> panic + transaction_row" where
  "map_transaction m t subnetwork_key = transactions_map_transaction subnetwork_key t (m_tx_subnetwork_id m)
     (m_tx_hash m) (m_tx_mass m) (m_tx_payload m) (m_tx_block_time m)"

definition map_block_transaction :: "rpc_transaction \<Rightarrow> panic + block_transaction_row" where
  "map_block_transaction t =
     sbind (expect tx_verbose_missing (rt_verbose t)) (\<lambda>v.
     Inr \<lparr>bt_block_hash = tv_block_hash v, bt_transaction_id = tv_transaction_id v\<rparr>)"

definition map_input ::
  "bool \<Rightarrow> bool \<Rightarrow> bool \<Rightarrow> bool \<Rightarrow> rpc_tx_verbose \<Rightarrow> nat \<times> rpc_input \<Rightarrow> panic + transaction_input_row" where
  "map_input include_previous_outpoint include_signature_script include_sig_op_count include_block_time v = (\<lambda>(i, input).
     sbind (expect unwrap_msg (to_signed 16 (int i))) (\<lambda>idx.
     sbind (expect unwrap_msg (to_signed 16 (uint (ri_previous_index input)))) (\<lambda>prev.
     sbind (expect unwrap_msg (to_signed 64 (uint (tv_block_time v)))) (\<lambda>time.
     Inr \<lparr>in_transaction_id = tv_transaction_id v,
       in_index = idx,
       in_previous_outpoint_hash =
         then_some include_previous_outpoint (ri_previous_transaction_id input),
       in_previous_outpoint_index = then_some include_previous_outpoint prev,
       in_signature_script = then_some include_signature_script (ri_signature_script input),
       in_sig_op_count = then_some include_sig_op_count (uint (ri_sig_op_count input)),
       in_block_time = then_some include_block_time time,
       in_previous_outpoint_script = None,
       in_previous_outpoint_amount = None,
       in_previous_outpoint_address = None\<rparr>))))"

definition transactions_map_inputs ::
  "rpc_transaction \<Rightarrow> bool \<Rightarrow> bool \<Rightarrow> bool \<Rightarrow> bool \<Rightarrow> panic + transaction_input_row list" where
  "transactions_map_inputs t include_previous_outpoint include_signature_script include_sig_op_count include_block_time =
     sbind (expect tx_verbose_missing (rt_verbose t)) (\<lambda>v.
     traverse (map_input include_previous_outpoint include_signature_script include_sig_op_count include_block_time v) (enumerate 0 (rt_inputs t)))"

definition map_transaction_inputs ::
  "mapper \<Rightarrow> rpc_transaction \<Rightarrow> panic + transaction_input_row list" where
  "map_transaction_inputs m t = transactions_map_inputs t (m_tx_in_previous_outpoint m) (m_tx_in_signature_script m)
     (m_tx_in_sig_op_count m) (m_tx_in_block_time m)"

definition map_output ::
  "(string \<Rightarrow> string) \<Rightarrow> bool \<Rightarrow> bool \<Rightarrow> bool \<Rightarrow> bool \<Rightarrow> rpc_tx_verbose \<Rightarrow> nat \<times> rpc_output \<Rightarrow>
     panic + transaction_output_row" where
  "map_output payload_str include_amount include_script_public_key include_script_public_key_address include_block_time v = (\<lambda>(i, output).
     sbind (expect out_verbose_missing (ro_address output)) (\<lambda>address.
     sbind (expect ''Tx output index is too large for i16'' (to_signed 16 (int i))) (\<lambda>idx.
     sbind (expect ''Tx output amount is too large for i64''
              (to_signed 64 (uint (ro_value output)))) (\<lambda>amount.
     sbind (expect unwrap_msg (to_signed 64 (uint (tv_block_time v)))) (\<lambda>time.
     Inr \<lparr>out_transaction_id = tv_transaction_id v,
       out_index = idx,
       out_amount = then_some include_amount amount,
       out_script_public_key = then_some include_script_public_key (ro_script output),
       out_script_public_key_address =
         then_some include_script_public_key_address (payload_str address),
       out_block_time = then_some include_block_time time\<rparr>)))))"

definition transactions_map_outputs ::
  "(string \<Rightarrow> string) \<Rightarrow> rpc_transaction \<Rightarrow> bool \<Rightarrow> bool \<Rightarrow> bool \<Rightarrow> bool \<Rightarrow> panic + transaction_output_row list" where
  "transactions_map_outputs payload_str t include_amount include_script_public_key include_script_public_key_address include_block_time =
     sbind (expect tx_verbose_missing (rt_verbose t)) (\<lambda>v.
     traverse (map_output payload_str include_amount include_script_public_key include_script_public_key_address include_block_time v) (enumerate 0 (rt_outputs t)))"

definition map_transaction_outputs ::
  "(string \<Rightarrow> string) \<Rightarrow> mapper \<Rightarrow> rpc_transaction \<Rightarrow> panic + transaction_output_row list" where
  "map_transaction_outputs payload_str m t = transactions_map_outputs payload_str t (m_tx_out_amount m)
     (m_tx_out_script_public_key m) (m_tx_out_script_public_key_address m) (m_tx_out_block_time m)"

definition map_transaction_outputs_address ::
  "(string \<Rightarrow> string) \<Rightarrow> rpc_transaction \<Rightarrow> panic + address_transaction_row list" where
  "map_transaction_outputs_address payload_str t =
     sbind (expect tx_verbose_missing (rt_verbose t)) (\<lambda>v.
     traverse (\<lambda>output.
       sbind (expect out_verbose_missing (ro_address output)) (\<lambda>address.
       sbind (expect unwrap_msg (to_signed 64 (uint (tv_block_time v)))) (\<lambda>time.
       Inr \<lparr>at_address = payload_str address, at_transaction_id = tv_transaction_id v,
         at_block_time = Some time\<rparr>))) (rt_outputs t))"

definition map_transaction_outputs_script ::
  "rpc_transaction \<Rightarrow> panic + script_transaction_row list" where
  "map_transaction_outputs_script t =
     sbind (expect tx_verbose_missing (rt_verbose t)) (\<lambda>v.
     traverse (\<lambda>output.
       sbind (expect unwrap_msg (to_signed 64 (uint (tv_block_time v)))) (\<lambda>time.
       Inr \<lparr>st_script_public_key = ro_script output, st_transaction_id = tv_transaction_id v,
         st_block_time = Some time\<rparr>)) (rt_outputs t))"

text \<open>One row with the switches of a mapper.\<close>

abbreviation input_by :: "mapper \<Rightarrow> rpc_tx_verbose \<Rightarrow> nat \<times> rpc_input \<Rightarrow> panic + transaction_input_row" where
  "input_by m \<equiv> map_input (m_tx_in_previous_outpoint m) (m_tx_in_signature_script m) (m_tx_in_sig_op_count m) (m_tx_in_block_time m)"

abbreviation output_by ::
  "(string \<Rightarrow> string) \<Rightarrow> mapper \<Rightarrow> rpc_tx_verbose \<Rightarrow> nat \<times> rpc_output \<Rightarrow> panic + transaction_output_row" where
  "output_by f m \<equiv> map_output f (m_tx_out_amount m) (m_tx_out_script_public_key m) (m_tx_out_script_public_key_address m)
     (m_tx_out_block_time m)"

lemmas mapping_defs = map_block_def blocks_map_block_def map_transaction_def transactions_map_transaction_def
  map_transaction_inputs_def transactions_map_inputs_def map_transaction_outputs_def transactions_map_outputs_def

end
