(* ===== verification/Db.thy ===== *)
theory Db
  imports Models
begin

text \<open>
  The database behind \<open>VecnoDbClient\<close>: its tables (\<open>migrations/schema/up.sql\<close>), the
  execution of one statement on a pool whose connections may fail, transactions, and the
  statement all batch inserts share, \<open>INSERT ... VALUES ... ON CONFLICT DO NOTHING\<close>.
  Every statement is atomic. \<open>faults\<close> is the environment: the outcome of the next
  statements (\<open>True\<close>: the connection fails before the statement takes effect); an empty
  list is a healthy connection. Tables are lists of rows in physical order, so that a
  row's position is its \<open>ctid\<close>.
\<close>

datatype sql_error =
    ConnectionError
  | SyntaxError
  | TooManyArguments
  | NotNullViolation
  | OutOfRange
  | CardinalityViolation
  | UnexpectedNull
  | RowNotFound
  | NegativeLimit
  | ValueTooLong

record db =
  t_vars :: "string \<rightharpoonup> string"
  t_blocks :: "block_row list"
  t_block_parent :: "block_parent_row list"
  t_subnetworks :: "subnetwork_row list"
  subnetworks_seq :: int
  t_transactions :: "transaction_row list"
  t_acceptances :: "transaction_acceptance_row list"
  t_blocks_transactions :: "block_transaction_row list"
  t_inputs :: "transaction_input_row list"
  t_outputs :: "transaction_output_row list"
  t_addresses_transactions :: "address_transaction_row list"
  t_scripts_transactions :: "script_transaction_row list"
  t_balances :: "string \<rightharpoonup> int"

record pool =
  data :: db
  faults :: "bool list"

type_synonym 'a db_op = "(pool, sql_error, 'a) sem"

text \<open>The tables right after \<open>up.sql\<close>.\<close>

definition schema_db :: db where
  "schema_db = \<lparr>t_vars = [''schema_version'' \<mapsto> ''10''], t_blocks = [], t_block_parent = [],
     t_subnetworks = [], subnetworks_seq = 1, t_transactions = [], t_acceptances = [],
     t_blocks_transactions = [], t_inputs = [], t_outputs = [], t_addresses_transactions = [],
     t_scripts_transactions = [], t_balances = Map.empty\<rparr>"

definition pool_of :: "db \<Rightarrow> pool" where
  "pool_of d = \<lparr>data = d, faults = []\<rparr>"

lemma pool_of_simps [simp]: "data (pool_of d) = d" "faults (pool_of d) = []"
  "(pool_of d)\<lparr>data := d'\<rparr> = pool_of d'"
  by (simp_all add: pool_of_def)

section \<open>Statements and transactions\<close>

definition execute :: "(db \<Rightarrow> sql_error + 'a \<times> db) \<Rightarrow> 'a db_op" where
  "execute stmt p =
     (let p' = p\<lparr>faults := tl (faults p)\<rparr> in
      if faults p \<noteq> [] \<and> hd (faults p) then (Inl ConnectionError, p')
      else case stmt (data p) of
             Inl e \<Rightarrow> (Inl e, p')
           | Inr (a, d) \<Rightarrow> (Inr a, p'\<lparr>data := d\<rparr>))"

text \<open>A statement that only reads.\<close>

definition query :: "(db \<Rightarrow> sql_error + 'a) \<Rightarrow> 'a db_op" where
  "query q = execute (\<lambda>d. case q d of Inl e \<Rightarrow> Inl e | Inr a \<Rightarrow> Inr (a, d))"

text \<open>
  \<open>pool.begin()\<close>, the statements, \<open>tx.commit()\<close>: a failure anywhere drops the
  transaction, which rolls the data back.
\<close>

definition in_transaction :: "'a db_op \<Rightarrow> 'a db_op" where
  "in_transaction m p =
     (case bnd (query (\<lambda>_. Inr ())) (\<lambda>_. bnd m (\<lambda>a. bnd (query (\<lambda>_. Inr ())) (\<lambda>_. ret a))) p of
        (Inl e, p') \<Rightarrow> (Inl e, p'\<lparr>data := data p\<rparr>)
      | (Inr a, p') \<Rightarrow> (Inr a, p'))"

abbreviation healthy :: "pool \<Rightarrow> bool" where
  "healthy p \<equiv> faults p = []"

lemma pool_faults_id [simp]: "faults p = [] \<Longrightarrow> p\<lparr>faults := []\<rparr> = p"
  by (cases p) simp

lemma execute_healthy:
  "healthy p \<Longrightarrow> execute stmt p =
     (case stmt (data p) of Inl e \<Rightarrow> (Inl e, p) | Inr (a, d) \<Rightarrow> (Inr a, p\<lparr>data := d\<rparr>))"
  by (simp add: execute_def Let_def)

lemma query_healthy:
  "healthy p \<Longrightarrow> query q p = (q (data p), p)"
  by (auto simp: query_def execute_healthy split: sum.splits)

lemma query_data: "data (snd (query q p)) = data p"
  by (auto simp: query_def execute_def Let_def split: sum.splits)

lemma execute_error: "execute stmt p = (Inl e, p') \<Longrightarrow> data p' = data p"
  by (auto simp: execute_def Let_def split: sum.splits prod.splits if_splits)

lemma execute_faults: "faults (snd (execute stmt p)) = tl (faults p)"
  by (auto simp: execute_def Let_def split: sum.splits prod.splits)

lemma in_transaction_error: "in_transaction m p = (Inl e, p') \<Longrightarrow> data p' = data p"
  by (auto simp: in_transaction_def split: sum.splits prod.splits)

lemma in_transaction_healthy:
  assumes "healthy p" "m p = (Inr a, p')" "healthy p'"
  shows "in_transaction m p = (Inr a, p')"
  using assms by (simp add: in_transaction_def bnd_def query_healthy ret_def)

lemma execute_Inr: "execute stmt p = (Inr a, p') \<Longrightarrow> stmt (data p) = Inr (a, data p')"
  by (auto simp: execute_def Let_def split: if_splits sum.splits prod.splits)

lemma query_Inr: "query q p = (Inr a, p') \<Longrightarrow> q (data p) = Inr a \<and> data p' = data p"
  by (auto simp: query_def split: sum.splits dest!: execute_Inr)

lemma in_transaction_Inr:
  "in_transaction m p = (Inr a, p') \<Longrightarrow>
     \<exists>q q'. data q = data p \<and> m q = (Inr a, q') \<and> data p' = data q'"
  by (auto simp: in_transaction_def bnd_Inr_iff ret_def split: sum.splits prod.splits dest!: query_Inr)

section \<open>Insert, skipping conflicts\<close>

definition conflicts :: "('r \<Rightarrow> 'k option) \<Rightarrow> 'r \<Rightarrow> 'r list \<Rightarrow> bool" where
  "conflicts key r t \<longleftrightarrow> key r \<noteq> None \<and> key r \<in> set (map key t)"

fun insert_rows :: "('r \<Rightarrow> 'k option) \<Rightarrow> 'r list \<Rightarrow> 'r list \<Rightarrow> nat \<times> 'r list" where
  "insert_rows key [] t = (0, t)"
| "insert_rows key (r # rs) t =
     (if conflicts key r t then insert_rows key rs t
      else let (n, t') = insert_rows key rs (t @ [r]) in (Suc n, t'))"

text \<open>The protocol carries the number of bind arguments in 16 bits.\<close>

definition bind_limit :: nat where
  "bind_limit = 65535"

text \<open>
  The generated statement: no rows give \<open>VALUES ON CONFLICT\<close>, which does not parse, and
  more than \<open>bind_limit\<close> arguments are refused.
\<close>

definition check_values :: "nat \<Rightarrow> 'r list \<Rightarrow> sql_error option" where
  "check_values cols rs =
     (if rs = [] then Some SyntaxError
      else if length rs * cols > bind_limit then Some TooManyArguments else None)"

definition insert_values ::
  "nat \<Rightarrow> ('r \<Rightarrow> 'k option) \<Rightarrow> 'r list \<Rightarrow> (db \<Rightarrow> 'r list) \<Rightarrow> ('r list \<Rightarrow> db \<Rightarrow> db) \<Rightarrow>
     db \<Rightarrow> sql_error + nat \<times> db" where
  "insert_values cols key rs rows with_rows d =
     (case check_values cols rs of Some e \<Rightarrow> Inl e
      | None \<Rightarrow> (let (n, t) = insert_rows key rs (rows d) in Inr (n, with_rows t d)))"

definition unique_keys :: "('r \<Rightarrow> 'k option) \<Rightarrow> 'r list \<Rightarrow> bool" where
  "unique_keys key t \<longleftrightarrow> distinct (filter (\<lambda>k. k \<noteq> None) (map key t))"

lemma insert_rows_Cons:
  "fst (insert_rows key (r # rs) t) =
     (if conflicts key r t then 0 else 1) + fst (insert_rows key rs (if conflicts key r t then t else t @ [r]))"
  "snd (insert_rows key (r # rs) t) = snd (insert_rows key rs (if conflicts key r t then t else t @ [r]))"
  by (simp_all split: prod.splits)

lemma insert_rows_append:
  "insert_rows key (rs @ rs') t =
     (fst (insert_rows key rs t) + fst (insert_rows key rs' (snd (insert_rows key rs t))),
      snd (insert_rows key rs' (snd (insert_rows key rs t))))"
proof (induction rs arbitrary: t)
  case (Cons r rs)
  show ?case
    by (simp add: prod_eq_iff insert_rows_Cons Cons.IH del: insert_rows.simps(2))
qed simp

lemma insert_rows_induct:
  assumes "\<And>t. P [] t"
    and "\<And>r rs t. P rs (if conflicts key r t then t else t @ [r]) \<Longrightarrow> P (r # rs) t"
  shows "P rs t"
  by (induction rs arbitrary: t) (auto intro: assms)

lemma insert_rows_prefix: "\<exists>us. snd (insert_rows key rs t) = t @ us \<and> set us \<subseteq> set rs"
  by (induction rs t rule: insert_rows_induct [where key = key])
    (auto simp: insert_rows_Cons simp del: insert_rows.simps(2) split: if_splits)

lemma insert_rows_count: "fst (insert_rows key rs t) + length t = length (snd (insert_rows key rs t))"
  by (induction rs t rule: insert_rows_induct [where key = key])
    (auto simp: insert_rows_Cons simp del: insert_rows.simps(2) split: if_splits)

lemma insert_rows_key_iff:
  assumes "k \<noteq> None"
  shows "k \<in> set (map key (snd (insert_rows key rs t))) \<longleftrightarrow>
    k \<in> set (map key t) \<or> k \<in> set (map key rs)"
proof (induction rs t rule: insert_rows_induct [where key = key])
  case (2 r rs t)
  show ?case
  proof (cases "conflicts key r t")
    case True
    then have "k = key r \<Longrightarrow> k \<in> set (map key t)" by (simp add: conflicts_def)
    with True 2 show ?thesis by (auto simp: insert_rows_Cons simp del: insert_rows.simps)
  next
    case False
    with 2 show ?thesis by (auto simp: insert_rows_Cons simp del: insert_rows.simps)
  qed
qed simp

lemma insert_rows_keys:
  "set (map key (snd (insert_rows key rs t))) - {None} = (set (map key t) \<union> set (map key rs)) - {None}"
  using insert_rows_key_iff [of _ key rs t] by blast

lemma insert_rows_unique: "unique_keys key t \<Longrightarrow> unique_keys key (snd (insert_rows key rs t))"
  by (induction rs t rule: insert_rows_induct [where key = key])
    (auto simp: insert_rows_Cons conflicts_def unique_keys_def simp del: insert_rows.simps(2) split: if_splits)

lemma insert_rows_nulls:
  "length (filter (\<lambda>r. key r = None) (snd (insert_rows key rs t))) =
     length (filter (\<lambda>r. key r = None) t) + length (filter (\<lambda>r. key r = None) rs)"
  by (induction rs t rule: insert_rows_induct [where key = key])
    (auto simp: insert_rows_Cons conflicts_def simp del: insert_rows.simps(2) split: if_splits)

text \<open>What is already there is skipped: inserting the same rows again changes nothing.\<close>

lemma insert_rows_present:
  "(\<And>r. r \<in> set rs \<Longrightarrow> conflicts key r t) \<Longrightarrow> insert_rows key rs t = (0, t)"
  by (induction rs) auto

lemma insert_rows_again:
  assumes "\<And>r. r \<in> set rs \<Longrightarrow> key r \<noteq> None"
  shows "insert_rows key rs (snd (insert_rows key rs t)) = (0, snd (insert_rows key rs t))"
proof (rule insert_rows_present)
  fix r assume r: "r \<in> set rs"
  with assms have "key r \<in> (set (map key t) \<union> set (map key rs)) - {None}" by auto
  then have "key r \<in> set (map key (snd (insert_rows key rs t))) - {None}"
    by (simp only: insert_rows_keys)
  then show "conflicts key r (snd (insert_rows key rs t))" by (simp add: conflicts_def)
qed

text \<open>Without any conflict all rows are appended.\<close>

lemma insert_rows_fresh:
  assumes "distinct (map key rs)" "\<And>r. r \<in> set rs \<Longrightarrow> key r \<notin> set (map key t)"
  shows "insert_rows key rs t = (length rs, t @ rs)"
  using assms
proof (induction rs arbitrary: t)
  case (Cons r rs)
  have "insert_rows key rs (t @ [r]) = (length rs, (t @ [r]) @ rs)"
  proof (rule Cons.IH)
    fix r' assume "r' \<in> set rs"
    moreover have "key r' \<in> set (map key rs)" "key r \<notin> set (map key rs)"
      using Cons.prems(1) calculation by simp_all
    then have fresh: "key r' \<noteq> key r" by metis
    ultimately show "key r' \<notin> set (map key (t @ [r]))"
      using Cons.prems(2) [of r'] fresh by auto
  qed (use Cons.prems(1) in simp)
  moreover have "\<not> conflicts key r t" using Cons.prems(2) [of r] by (simp add: conflicts_def)
  ultimately show ?case by simp
qed simp

text \<open>
  The number of rows a unique table gains: its new keys, and every row without a key. So it
  does not depend on the order of the rows.
\<close>

lemma length_unique:
  "unique_keys key t \<Longrightarrow>
     length t = card (set (map key t) - {None}) + length (filter (\<lambda>r. key r = None) t)"
proof -
  assume "unique_keys key t"
  then have "card (set (filter (\<lambda>k. k \<noteq> None) (map key t))) =
      length (filter (\<lambda>k. k \<noteq> None) (map key t))"
    unfolding unique_keys_def by (rule distinct_card)
  moreover have "set (filter (\<lambda>k. k \<noteq> None) (map key t)) = set (map key t) - {None}" by auto
  moreover have "length (filter (\<lambda>k. k \<noteq> None) (map key t)) = length (filter (\<lambda>r. key r \<noteq> None) t)"
    by (simp add: filter_map o_def)
  moreover have "length t = length (filter (\<lambda>r. key r \<noteq> None) t) + length (filter (\<lambda>r. key r = None) t)"
    using sum_length_filter_compl [of "\<lambda>r. key r \<noteq> None" t] by simp
  ultimately show ?thesis by simp
qed

lemma insert_rows_perm:
  assumes "unique_keys key t" "mset rs = mset rs'"
  shows "fst (insert_rows key rs t) = fst (insert_rows key rs' t)"
    and "set (map key (snd (insert_rows key rs t))) - {None} =
         set (map key (snd (insert_rows key rs' t))) - {None}"
proof -
  have same: "set (map key rs) = set (map key rs')"
    using assms(2) by (metis mset_map set_mset_mset)
  then show keys: "set (map key (snd (insert_rows key rs t))) - {None} =
         set (map key (snd (insert_rows key rs' t))) - {None}"
    by (simp only: insert_rows_keys)
  have nulls: "length (filter (\<lambda>r. key r = None) rs) = length (filter (\<lambda>r. key r = None) rs')"
    using assms(2) by (metis mset_filter size_mset)
  have "length (snd (insert_rows key rs t)) = length (snd (insert_rows key rs' t))"
    using length_unique [OF insert_rows_unique [OF assms(1)], of rs]
      length_unique [OF insert_rows_unique [OF assms(1)], of rs'] keys nulls
    by (simp add: insert_rows_nulls)
  then show "fst (insert_rows key rs t) = fst (insert_rows key rs' t)"
    using insert_rows_count [of key rs t] insert_rows_count [of key rs' t] by simp
qed

end
