(* ===== verification/Db_Insert.thy ===== *)
theory Db_Insert
  imports Db
begin

text \<open>
  The insert, select and upsert statements of the database crate
  (\<open>database/src/query/insert.rs\<close>, \<open>select.rs\<close>, \<open>upsert.rs\<close>): one operation per
  function, over the tables of \<open>Db\<close>. The interface the batch writers rely on is the locale
  \<open>skip_conflicts_table\<close>; every table with such an insert interprets it.
\<close>

section \<open>Placeholders\<close>

fun digits :: "nat \<Rightarrow> string" where
  "digits n = (if n < 10 then [char_of (48 + n)] else digits (n div 10) @ [char_of (48 + n mod 10)])"

declare digits.simps [simp del]

fun join_str :: "string \<Rightarrow> string list \<Rightarrow> string" where
  "join_str sep [] = []"
| "join_str sep [s] = s"
| "join_str sep (s # ss) = s @ sep @ join_str sep ss"

text \<open>The argument numbers of row \<open>i\<close>: \<open>(1..=columns).map(|c| c + i * columns)\<close>.\<close>

definition row_placeholders :: "nat \<Rightarrow> nat \<Rightarrow> nat list" where
  "row_placeholders columns i = map (\<lambda>c. c + i * columns) [1..<Suc columns]"

definition generate_placeholders :: "nat \<Rightarrow> nat \<Rightarrow> string" where
  "generate_placeholders rows columns =
     join_str '', '' (map (\<lambda>i.
       ''('' @ join_str '', '' (map (\<lambda>n. CHR ''$'' # digits n) (row_placeholders columns i)) @ '')'')
       [0..<rows])"

section \<open>Inserts that skip conflicts\<close>

definition insert_blocks :: "block_row list \<Rightarrow> nat db_op" where
  "insert_blocks rs =
     in_transaction (execute (insert_values 15 block_key rs t_blocks (\<lambda>t d. d\<lparr>t_blocks := t\<rparr>)))"

definition insert_block_parents :: "block_parent_row list \<Rightarrow> nat db_op" where
  "insert_block_parents rs =
     execute (insert_values 2 block_parent_key rs t_block_parent (\<lambda>t d. d\<lparr>t_block_parent := t\<rparr>))"

definition insert_transactions :: "transaction_row list \<Rightarrow> nat db_op" where
  "insert_transactions rs =
     execute (insert_values 6 transaction_key rs t_transactions (\<lambda>t d. d\<lparr>t_transactions := t\<rparr>))"

definition insert_transaction_outputs :: "transaction_output_row list \<Rightarrow> nat db_op" where
  "insert_transaction_outputs rs =
     execute (insert_values 6 output_key rs t_outputs (\<lambda>t d. d\<lparr>t_outputs := t\<rparr>))"

definition insert_address_transactions :: "address_transaction_row list \<Rightarrow> nat db_op" where
  "insert_address_transactions rs =
     execute (insert_values 3 address_transaction_key rs t_addresses_transactions
       (\<lambda>t d. d\<lparr>t_addresses_transactions := t\<rparr>))"

definition insert_script_transactions :: "script_transaction_row list \<Rightarrow> nat db_op" where
  "insert_script_transactions rs =
     execute (insert_values 3 script_transaction_key rs t_scripts_transactions
       (\<lambda>t d. d\<lparr>t_scripts_transactions := t\<rparr>))"

definition insert_block_transactions :: "block_transaction_row list \<Rightarrow> nat db_op" where
  "insert_block_transactions rs =
     execute (insert_values 2 block_transaction_key rs t_blocks_transactions
       (\<lambda>t d. d\<lparr>t_blocks_transactions := t\<rparr>))"

definition insert_transaction_acceptances :: "transaction_acceptance_row list \<Rightarrow> nat db_op" where
  "insert_transaction_acceptances rs =
     execute (insert_values 2 acceptance_key rs t_acceptances (\<lambda>t d. d\<lparr>t_acceptances := t\<rparr>))"

subsection \<open>Inputs, resolving what they spend\<close>

definition spends :: "transaction_input_row \<Rightarrow> transaction_output_row \<Rightarrow> bool" where
  "spends i r \<longleftrightarrow> in_previous_outpoint_hash i = Some (out_transaction_id r)
     \<and> in_previous_outpoint_index i = Some (out_index r)"

definition coalesce :: "'a option \<Rightarrow> 'a option \<Rightarrow> 'a option" where
  "coalesce a b = (if a = None then b else a)"

text \<open>\<open>LEFT JOIN transactions_outputs\<close>: its primary key gives at most one match.\<close>

definition resolve_input ::
  "transaction_output_row list \<Rightarrow> transaction_input_row \<Rightarrow> transaction_input_row" where
  "resolve_input outs i =
     (case find (spends i) outs of
        None \<Rightarrow> i
      | Some r \<Rightarrow> i\<lparr>
          in_previous_outpoint_script := coalesce (in_previous_outpoint_script i) (out_script_public_key r),
          in_previous_outpoint_amount := coalesce (in_previous_outpoint_amount i) (out_amount r)\<rparr>)"

text \<open>The table has no column for the address.\<close>

definition input_columns :: "transaction_input_row \<Rightarrow> transaction_input_row" where
  "input_columns i = i\<lparr>in_previous_outpoint_address := None\<rparr>"

definition insert_transaction_inputs :: "bool \<Rightarrow> transaction_input_row list \<Rightarrow> nat db_op" where
  "insert_transaction_inputs resolve_previous_outpoints rs =
     execute (\<lambda>d. insert_values 9 input_key
       (map (\<lambda>i. input_columns
               (if resolve_previous_outpoints then resolve_input (t_outputs d) i else i)) rs)
       t_inputs (\<lambda>t d. d\<lparr>t_inputs := t\<rparr>) d)"

subsection \<open>Address and script relations of the inputs\<close>

text \<open>The joined rows: the spent output, the spending transaction and the block time.\<close>

definition from_inputs ::
  "bool \<Rightarrow> hash list \<Rightarrow> db \<Rightarrow> (transaction_output_row \<times> hash \<times> int option) list" where
  "from_inputs use_tx ids d =
     [(r, in_transaction_id i, time).
        i \<leftarrow> t_inputs d, in_transaction_id i \<in> set ids,
        time \<leftarrow> (if use_tx
                 then map tx_block_time (filter (\<lambda>t. tx_id t = in_transaction_id i) (t_transactions d))
                 else [in_block_time i]),
        r \<leftarrow> t_outputs d, spends i r]"

text \<open>
  \<open>INSERT ... SELECT\<close> into a table whose first key column must not be NULL: one NULL fails
  the statement.
\<close>

definition insert_selected ::
  "('r \<Rightarrow> 'k option) \<Rightarrow> 'r option list \<Rightarrow> (db \<Rightarrow> 'r list) \<Rightarrow> ('r list \<Rightarrow> db \<Rightarrow> db) \<Rightarrow>
     db \<Rightarrow> sql_error + nat \<times> db" where
  "insert_selected key sel rows with_rows d =
     (if None \<in> set sel then Inl NotNullViolation
      else let (n, t) = insert_rows key (map the sel) (rows d) in Inr (n, with_rows t d))"

definition insert_address_transactions_from_inputs :: "bool \<Rightarrow> hash list \<Rightarrow> nat db_op" where
  "insert_address_transactions_from_inputs use_tx ids =
     execute (\<lambda>d. insert_selected address_transaction_key
       (map (\<lambda>(r, tid, time). map_option
          (\<lambda>a. \<lparr>at_address = a, at_transaction_id = tid, at_block_time = time\<rparr>)
          (out_script_public_key_address r)) (from_inputs use_tx ids d))
       t_addresses_transactions (\<lambda>t d. d\<lparr>t_addresses_transactions := t\<rparr>) d)"

definition insert_script_transactions_from_inputs :: "bool \<Rightarrow> hash list \<Rightarrow> nat db_op" where
  "insert_script_transactions_from_inputs use_tx ids =
     execute (\<lambda>d. insert_selected script_transaction_key
       (map (\<lambda>(r, tid, time). map_option
          (\<lambda>s. \<lparr>st_script_public_key = s, st_transaction_id = tid, st_block_time = time\<rparr>)
          (out_script_public_key r)) (from_inputs use_tx ids d))
       t_scripts_transactions (\<lambda>t d. d\<lparr>t_scripts_transactions := t\<rparr>) d)"

section \<open>Subnetworks and variables\<close>

text \<open>\<open>subnetwork_id VARCHAR(40)\<close>; there is no unique constraint to conflict with.\<close>

definition insert_subnetwork :: "string \<Rightarrow> int db_op" where
  "insert_subnetwork s = execute (\<lambda>d.
     if length s > 40 then Inl ValueTooLong
     else Inr (subnetworks_seq d,
       d\<lparr>t_subnetworks := t_subnetworks d @ [\<lparr>sn_id = subnetworks_seq d, sn_subnetwork_id = s\<rparr>],
         subnetworks_seq := subnetworks_seq d + 1\<rparr>))"

definition select_subnetworks :: "subnetwork_row list db_op" where
  "select_subnetworks = query (\<lambda>d. Inr (t_subnetworks d))"

definition select_var :: "string \<Rightarrow> string db_op" where
  "select_var key = query (\<lambda>d. case t_vars d key of None \<Rightarrow> Inl RowNotFound | Some v \<Rightarrow> Inr v)"

definition upsert_var :: "string \<Rightarrow> string \<Rightarrow> nat db_op" where
  "upsert_var key v = execute (\<lambda>d. Inr (1, d\<lparr>t_vars := (t_vars d)(key \<mapsto> v)\<rparr>))"

definition select_tx_count :: "hash \<Rightarrow> nat db_op" where
  "select_tx_count h =
     query (\<lambda>d. Inr (length (filter (\<lambda>r. bt_block_hash r = h) (t_blocks_transactions d))))"

definition select_is_chain_block :: "hash \<Rightarrow> bool db_op" where
  "select_is_chain_block h =
     query (\<lambda>d. Inr (\<exists>a\<in>set (t_acceptances d). ta_block_hash a = Some h))"

section \<open>The interface of the batch writers\<close>

text \<open>
  What a writer relies on: on a healthy connection a non-empty batch within the argument
  limit adds the rows without a conflict, in order; a failed insert leaves the data alone.
\<close>

locale skip_conflicts_table =
  fixes key :: "'r \<Rightarrow> 'k option"
    and cols :: nat
    and ins :: "'r list \<Rightarrow> nat db_op"
    and rows :: "db \<Rightarrow> 'r list"
    and with_rows :: "'r list \<Rightarrow> db \<Rightarrow> db"
  assumes ins_ok: "healthy p \<Longrightarrow> rs \<noteq> [] \<Longrightarrow> length rs * cols \<le> bind_limit \<Longrightarrow>
      ins rs p = (Inr (fst (insert_rows key rs (rows (data p)))),
        p\<lparr>data := with_rows (snd (insert_rows key rs (rows (data p)))) (data p)\<rparr>)"
    and ins_Inr: "ins rs p = (Inr n, p') \<Longrightarrow>
      n = fst (insert_rows key rs (rows (data p)))
      \<and> data p' = with_rows (snd (insert_rows key rs (rows (data p)))) (data p)"
    and ins_error: "ins rs p = (Inl e, p') \<Longrightarrow> data p' = data p"
    and rows_with [simp]: "rows (with_rows t d) = t"
    and with_with [simp]: "with_rows t' (with_rows t d) = with_rows t' d"
    and with_same [simp]: "with_rows (rows d) d = d"
begin

lemma pool_update_same [simp]: "p\<lparr>data := with_rows (rows (data p)) (data p)\<rparr> = p"
  by simp

text \<open>What holds after a success on any connection: no row is lost, every key is there.\<close>

lemma ins_Inr_keys:
  "ins rs p = (Inr n, p') \<Longrightarrow> r \<in> set rs \<Longrightarrow> key r \<noteq> None \<Longrightarrow>
     key r \<in> key ` set (rows (data p'))"
  using insert_rows_key_iff [of "key r" key rs "rows (data p)"] ins_Inr [of rs p n p'] by auto

lemma ins_keeps: "ins rs p = (r, p') \<Longrightarrow> set (rows (data p)) \<subseteq> set (rows (data p'))"
  using insert_rows_prefix [of key rs "rows (data p)"] ins_Inr [of rs p _ p'] ins_error [of rs p _ p']
  by (cases r) auto

lemma ins_unique:
  "ins rs p = (r, p') \<Longrightarrow> unique_keys key (rows (data p)) \<Longrightarrow> unique_keys key (rows (data p'))"
  using ins_Inr [of rs p _ p'] ins_error [of rs p _ p'] insert_rows_unique
  by (cases r) auto

lemma ins_only: "ins rs p = (r, p') \<Longrightarrow> \<exists>t. data p' = with_rows t (data p)"
proof (cases r)
  case (Inl e)
  moreover assume "ins rs p = (r, p')"
  ultimately show ?thesis using ins_error [of rs p e p'] with_same [of "data p"] by metis
next
  case (Inr n)
  moreover assume "ins rs p = (r, p')"
  ultimately show ?thesis using ins_Inr [of rs p n p'] by blast
qed

text \<open>Batch by batch has the effect of one insert of all the rows.\<close>

lemma sum_loop_ins:
  assumes "healthy p" "\<forall>c\<in>set cs. c \<noteq> [] \<and> length c * cols \<le> bind_limit"
  shows "sum_loop ins cs acc p =
    (Inr (acc + fst (insert_rows key (concat cs) (rows (data p)))),
     p\<lparr>data := with_rows (snd (insert_rows key (concat cs) (rows (data p)))) (data p)\<rparr>)"
  using assms
proof (induction cs arbitrary: acc p)
  case Nil
  then show ?case by (simp add: ret_def)
next
  case (Cons c cs)
  then show ?case
    by (simp add: bnd_Inr [OF ins_ok] insert_rows_append)
qed

lemma chunk_fits:
  assumes "n * cols \<le> bind_limit"
  shows "\<forall>c\<in>set (chunks_of n rs). c \<noteq> [] \<and> length c * cols \<le> bind_limit"
  using chunks_of_bounds [of _ n rs] assms by (meson le_trans mult_le_mono1)

lemma chunked_ins:
  assumes "healthy p" "0 < n" "n * cols \<le> bind_limit"
  shows "sum_loop ins (chunks_of n rs) 0 p =
    (Inr (fst (insert_rows key rs (rows (data p)))),
     p\<lparr>data := with_rows (snd (insert_rows key rs (rows (data p)))) (data p)\<rparr>)"
  using sum_loop_ins [OF assms(1) chunk_fits [OF assms(3)], of rs 0] assms(2)
  by (simp add: concat_chunks_of)

text \<open>In any order of the batches the count and the keys are the same.\<close>

lemma scheduled_ins:
  assumes "healthy p" "0 < n" "n * cols \<le> bind_limit"
    and "mset cs = mset (chunks_of n rs)" "unique_keys key (rows (data p))"
  shows "\<exists>t. sum_loop ins cs 0 p =
      (Inr (fst (insert_rows key rs (rows (data p)))), p\<lparr>data := with_rows t (data p)\<rparr>)
    \<and> unique_keys key t
    \<and> fst (insert_rows key rs (rows (data p))) + length (rows (data p)) = length t
    \<and> set (map key t) - {None} = (set (map key (rows (data p))) \<union> set (map key rs)) - {None}"
proof -
  have same: "set cs = set (chunks_of n rs)"
    using assms(4) by (metis set_mset_mset)
  have perm: "mset (concat cs) = mset rs"
    using assms(2,4) by (metis concat_chunks_of mset_concat mset_map sum_mset_sum_list)
  let ?t = "snd (insert_rows key (concat cs) (rows (data p)))"
  have "sum_loop ins cs 0 p =
      (Inr (fst (insert_rows key rs (rows (data p)))), p\<lparr>data := with_rows ?t (data p)\<rparr>)"
    using sum_loop_ins [of p cs 0] chunk_fits [OF assms(3), of rs] same assms(1)
      insert_rows_perm(1) [OF assms(5) perm] by simp
  moreover have "set (map key ?t) - {None} = (set (map key (rows (data p))) \<union> set (map key rs)) - {None}"
    using insert_rows_perm(2) [OF assms(5) perm] by (simp only: insert_rows_keys)
  moreover have "fst (insert_rows key rs (rows (data p))) + length (rows (data p)) = length ?t"
    using insert_rows_count [of key "concat cs" "rows (data p)"] insert_rows_perm(1) [OF assms(5) perm]
    by simp
  ultimately show ?thesis using insert_rows_unique [OF assms(5)] by blast
qed

text \<open>Writing the same batch again after it succeeded changes nothing: a restart may repeat it.\<close>

lemma ins_again:
  assumes "healthy p" "rs \<noteq> []" "length rs * cols \<le> bind_limit" "\<forall>r\<in>set rs. key r \<noteq> None"
    and "ins rs p = (Inr n, p')"
  shows "ins rs p' = (Inr 0, p')"
proof -
  have p': "p' = p\<lparr>data := with_rows (snd (insert_rows key rs (rows (data p)))) (data p)\<rparr>"
    using assms(5) ins_ok [OF assms(1-3)] by simp
  then have "healthy p'" using assms(1) by simp
  then show ?thesis
    using ins_ok [of p' rs] assms(2-4) p' insert_rows_again [of rs key "rows (data p)"] by simp
qed

end

lemma insert_values_ok:
  "rs \<noteq> [] \<Longrightarrow> length rs * cols \<le> bind_limit \<Longrightarrow>
     insert_values cols key rs rows with_rows d =
       Inr (fst (insert_rows key rs (rows d)), with_rows (snd (insert_rows key rs (rows d))) d)"
  by (simp add: insert_values_def check_values_def split: prod.splits)

lemma execute_insert_values_Inr:
  "execute (insert_values cols key rs rows with_rows) p = (Inr n, p') \<Longrightarrow>
     n = fst (insert_rows key rs (rows (data p)))
     \<and> data p' = with_rows (snd (insert_rows key rs (rows (data p)))) (data p)"
  by (drule execute_Inr) (auto simp: insert_values_def split: option.splits prod.splits)

lemma execute_insert_values_ok:
  "healthy p \<Longrightarrow> rs \<noteq> [] \<Longrightarrow> length rs * cols \<le> bind_limit \<Longrightarrow>
     execute (insert_values cols key rs rows with_rows) p =
       (Inr (fst (insert_rows key rs (rows (data p)))),
        p\<lparr>data := with_rows (snd (insert_rows key rs (rows (data p)))) (data p)\<rparr>)"
  by (simp add: execute_healthy insert_values_ok)

interpretation blocks: skip_conflicts_table block_key 15 insert_blocks t_blocks
    "\<lambda>t d. d\<lparr>t_blocks := t\<rparr>"
  by unfold_locales
    (auto simp: insert_blocks_def execute_insert_values_ok
      intro!: in_transaction_healthy dest: in_transaction_error
      dest!: in_transaction_Inr execute_insert_values_Inr)

interpretation block_parents: skip_conflicts_table block_parent_key 2 insert_block_parents
    t_block_parent "\<lambda>t d. d\<lparr>t_block_parent := t\<rparr>"
  by unfold_locales (auto simp: insert_block_parents_def execute_insert_values_ok
      dest: execute_error execute_insert_values_Inr)

interpretation txs: skip_conflicts_table transaction_key 6 insert_transactions
    t_transactions "\<lambda>t d. d\<lparr>t_transactions := t\<rparr>"
  by unfold_locales (auto simp: insert_transactions_def execute_insert_values_ok
      dest: execute_error execute_insert_values_Inr)

interpretation outputs: skip_conflicts_table output_key 6 insert_transaction_outputs
    t_outputs "\<lambda>t d. d\<lparr>t_outputs := t\<rparr>"
  by unfold_locales (auto simp: insert_transaction_outputs_def execute_insert_values_ok
      dest: execute_error execute_insert_values_Inr)

interpretation addr_txs: skip_conflicts_table address_transaction_key 3 insert_address_transactions
    t_addresses_transactions "\<lambda>t d. d\<lparr>t_addresses_transactions := t\<rparr>"
  by unfold_locales (auto simp: insert_address_transactions_def execute_insert_values_ok
      dest: execute_error execute_insert_values_Inr)

interpretation script_txs: skip_conflicts_table script_transaction_key 3 insert_script_transactions
    t_scripts_transactions "\<lambda>t d. d\<lparr>t_scripts_transactions := t\<rparr>"
  by unfold_locales (auto simp: insert_script_transactions_def execute_insert_values_ok
      dest: execute_error execute_insert_values_Inr)

interpretation block_txs: skip_conflicts_table block_transaction_key 2 insert_block_transactions
    t_blocks_transactions "\<lambda>t d. d\<lparr>t_blocks_transactions := t\<rparr>"
  by unfold_locales (auto simp: insert_block_transactions_def execute_insert_values_ok
      dest: execute_error execute_insert_values_Inr)

interpretation acceptances: skip_conflicts_table acceptance_key 2 insert_transaction_acceptances
    t_acceptances "\<lambda>t d. d\<lparr>t_acceptances := t\<rparr>"
  by unfold_locales (auto simp: insert_transaction_acceptances_def execute_insert_values_ok
      dest: execute_error execute_insert_values_Inr)

end
