(* ===== verification/Db_Delete.thy ===== *)
theory Db_Delete
  imports Db
begin

text \<open>
  The delete and prune statements of the database crate (\<open>database/src/query/delete.rs\<close>).
  A prune deletes \<open>LIMIT\<close>ed batches until one deletes nothing; which of the matching rows
  a batch takes is the server's choice, the parameter \<open>pick\<close>. The locale \<open>aged_table\<close>
  states what the seven copies of that loop share; each of them interprets it.
\<close>

section \<open>Deleting rows\<close>

definition delete_transaction_acceptances :: "hash list \<Rightarrow> nat db_op" where
  "delete_transaction_acceptances hs = execute (\<lambda>d.
     let keep = filter (\<lambda>a. ta_block_hash a \<notin> Some ` set hs) (t_acceptances d) in
     Inr (length (t_acceptances d) - length keep, d\<lparr>t_acceptances := keep\<rparr>))"

text \<open>\<open>DELETE ... WHERE ctid IN (...)\<close>: a \<open>ctid\<close> is a position.\<close>

definition drop_at :: "nat list \<Rightarrow> 'r list \<Rightarrow> 'r list" where
  "drop_at ctids t = [t ! i. i \<leftarrow> [0..<length t], i \<notin> set ctids]"

text \<open>What \<open>LIMIT n\<close> without an order promises: some \<open>n\<close> of the rows, or all of them.\<close>

definition limit_ok :: "(nat \<Rightarrow> nat list \<Rightarrow> nat list) \<Rightarrow> bool" where
  "limit_ok pick \<longleftrightarrow>
     (\<forall>n ctids. mset (pick n ctids) \<subseteq># mset ctids \<and> length (pick n ctids) = min n (length ctids))"

definition delete_limited ::
  "(nat \<Rightarrow> nat list \<Rightarrow> nat list) \<Rightarrow> int \<Rightarrow> (db \<Rightarrow> nat list) \<Rightarrow> (db \<Rightarrow> 'r list) \<Rightarrow>
     ('r list \<Rightarrow> db \<Rightarrow> db) \<Rightarrow> db \<Rightarrow> sql_error + nat \<times> db" where
  "delete_limited pick batch_size candidates rows with_rows d =
     (if batch_size < 0 then Inl NegativeLimit
      else let t = drop_at (pick (nat batch_size) (candidates d)) (rows d) in
        Inr (length (rows d) - length t, with_rows t d))"

text \<open>The loop: batches until one affects no row. \<open>None\<close> would be a loop without end.\<close>

partial_function (option) prune_loop ::
  "nat db_op \<Rightarrow> nat \<Rightarrow> pool \<Rightarrow> ((sql_error + nat) \<times> pool) option" where
  "prune_loop stmt acc p =
     (case stmt p of
        (Inl e, p') \<Rightarrow> Some (Inl e, p')
      | (Inr n, p') \<Rightarrow> if n = 0 then Some (Inr acc, p') else prune_loop stmt (acc + n) p')"

section \<open>The prunes by age\<close>

definition older :: "int \<Rightarrow> int option \<Rightarrow> bool" where
  "older cutoff time \<longleftrightarrow> (case time of None \<Rightarrow> False | Some t \<Rightarrow> t < cutoff)"

text \<open>The positions of the rows joined with an old block, one per match.\<close>

definition joined_old ::
  "('r \<Rightarrow> 'b \<Rightarrow> bool) \<Rightarrow> ('b \<Rightarrow> int option) \<Rightarrow> int \<Rightarrow> 'r list \<Rightarrow> 'b list \<Rightarrow> nat list" where
  "joined_old on time cutoff t bs =
     [i. i \<leftarrow> [0..<length t], b \<leftarrow> bs, on (t ! i) b \<and> older cutoff (time b)]"

definition own_old :: "('r \<Rightarrow> int option) \<Rightarrow> int \<Rightarrow> 'r list \<Rightarrow> nat list" where
  "own_old time cutoff t = [i. i \<leftarrow> [0..<length t], older cutoff (time (t ! i))]"

definition prune_block_parent ::
  "(nat \<Rightarrow> nat list \<Rightarrow> nat list) \<Rightarrow> int \<Rightarrow> int \<Rightarrow> pool \<Rightarrow> ((sql_error + nat) \<times> pool) option" where
  "prune_block_parent pick block_time_lt batch_size =
     prune_loop (execute (delete_limited pick batch_size
       (\<lambda>d. joined_old (\<lambda>r b. bp_block_hash r = blk_hash b) blk_timestamp block_time_lt
              (t_block_parent d) (t_blocks d))
       t_block_parent (\<lambda>t d. d\<lparr>t_block_parent := t\<rparr>))) 0"

definition prune_blocks_transactions_using_blocks ::
  "(nat \<Rightarrow> nat list \<Rightarrow> nat list) \<Rightarrow> int \<Rightarrow> int \<Rightarrow> pool \<Rightarrow> ((sql_error + nat) \<times> pool) option" where
  "prune_blocks_transactions_using_blocks pick block_time_lt batch_size =
     prune_loop (execute (delete_limited pick batch_size
       (\<lambda>d. joined_old (\<lambda>r b. bt_block_hash r = blk_hash b) blk_timestamp block_time_lt
              (t_blocks_transactions d) (t_blocks d))
       t_blocks_transactions (\<lambda>t d. d\<lparr>t_blocks_transactions := t\<rparr>))) 0"

definition prune_blocks_transactions_using_transactions ::
  "(nat \<Rightarrow> nat list \<Rightarrow> nat list) \<Rightarrow> int \<Rightarrow> int \<Rightarrow> pool \<Rightarrow> ((sql_error + nat) \<times> pool) option" where
  "prune_blocks_transactions_using_transactions pick block_time_lt batch_size =
     prune_loop (execute (delete_limited pick batch_size
       (\<lambda>d. joined_old (\<lambda>r t. bt_transaction_id r = tx_id t) tx_block_time block_time_lt
              (t_blocks_transactions d) (t_transactions d))
       t_blocks_transactions (\<lambda>t d. d\<lparr>t_blocks_transactions := t\<rparr>))) 0"

definition prune_transactions_acceptances_using_blocks ::
  "(nat \<Rightarrow> nat list \<Rightarrow> nat list) \<Rightarrow> int \<Rightarrow> int \<Rightarrow> pool \<Rightarrow> ((sql_error + nat) \<times> pool) option" where
  "prune_transactions_acceptances_using_blocks pick block_time_lt batch_size =
     prune_loop (execute (delete_limited pick batch_size
       (\<lambda>d. joined_old (\<lambda>r b. ta_block_hash r = Some (blk_hash b)) blk_timestamp block_time_lt
              (t_acceptances d) (t_blocks d))
       t_acceptances (\<lambda>t d. d\<lparr>t_acceptances := t\<rparr>))) 0"

definition prune_blocks ::
  "(nat \<Rightarrow> nat list \<Rightarrow> nat list) \<Rightarrow> int \<Rightarrow> int \<Rightarrow> pool \<Rightarrow> ((sql_error + nat) \<times> pool) option" where
  "prune_blocks pick block_time_lt batch_size =
     prune_loop (execute (delete_limited pick batch_size
       (\<lambda>d. own_old blk_timestamp block_time_lt (t_blocks d)) t_blocks
       (\<lambda>t d. d\<lparr>t_blocks := t\<rparr>))) 0"

definition prune_addresses_transactions ::
  "(nat \<Rightarrow> nat list \<Rightarrow> nat list) \<Rightarrow> int \<Rightarrow> int \<Rightarrow> pool \<Rightarrow> ((sql_error + nat) \<times> pool) option" where
  "prune_addresses_transactions pick block_time_lt batch_size =
     prune_loop (execute (delete_limited pick batch_size
       (\<lambda>d. own_old at_block_time block_time_lt (t_addresses_transactions d))
       t_addresses_transactions (\<lambda>t d. d\<lparr>t_addresses_transactions := t\<rparr>))) 0"

definition prune_scripts_transactions ::
  "(nat \<Rightarrow> nat list \<Rightarrow> nat list) \<Rightarrow> int \<Rightarrow> int \<Rightarrow> pool \<Rightarrow> ((sql_error + nat) \<times> pool) option" where
  "prune_scripts_transactions pick block_time_lt batch_size =
     prune_loop (execute (delete_limited pick batch_size
       (\<lambda>d. own_old st_block_time block_time_lt (t_scripts_transactions d))
       t_scripts_transactions (\<lambda>t d. d\<lparr>t_scripts_transactions := t\<rparr>))) 0"

section \<open>Pruning transactions\<close>

definition delete_old_transactions ::
  "(nat \<Rightarrow> nat list \<Rightarrow> nat list) \<Rightarrow> int \<Rightarrow> int \<Rightarrow> db \<Rightarrow> sql_error + hash list \<times> db" where
  "delete_old_transactions pick block_time_lt batch_size d =
     (if batch_size < 0 then Inl NegativeLimit
      else let ctids = pick (nat batch_size) (own_old tx_block_time block_time_lt (t_transactions d)) in
        Inr (map (\<lambda>i. tx_id (t_transactions d ! i)) ctids,
             d\<lparr>t_transactions := drop_at ctids (t_transactions d)\<rparr>))"

definition select_accepted :: "hash list \<Rightarrow> db \<Rightarrow> hash list" where
  "select_accepted ids d = [h. Some h \<leftarrow> map ta_transaction_id (t_acceptances d), h \<in> set ids]"

definition delete_inputs_of :: "hash list \<Rightarrow> db \<Rightarrow> sql_error + nat \<times> db" where
  "delete_inputs_of ids d =
     (let keep = filter (\<lambda>i. in_transaction_id i \<notin> set ids) (t_inputs d) in
      Inr (length (t_inputs d) - length keep, d\<lparr>t_inputs := keep\<rparr>))"

definition delete_outputs_of :: "hash list \<Rightarrow> db \<Rightarrow> sql_error + nat \<times> db" where
  "delete_outputs_of ids d =
     (let keep = filter (\<lambda>r. out_transaction_id r \<notin> set ids) (t_outputs d) in
      Inr (length (t_outputs d) - length keep, d\<lparr>t_outputs := keep\<rparr>))"

text \<open>\<open>RETURNING previous_outpoint_hash, previous_outpoint_index\<close>, read as non-null columns.\<close>

fun outpoint :: "transaction_input_row \<Rightarrow> sql_error + hash \<times> int" where
  "outpoint i = (case (in_previous_outpoint_hash i, in_previous_outpoint_index i) of
     (Some h, Some k) \<Rightarrow> Inr (h, k) | _ \<Rightarrow> Inl UnexpectedNull)"

definition delete_inputs_returning :: "hash list \<Rightarrow> db \<Rightarrow> sql_error + (hash \<times> int) list \<times> db" where
  "delete_inputs_returning ids d =
     (case traverse outpoint (filter (\<lambda>i. in_transaction_id i \<in> set ids) (t_inputs d)) of
        Inl e \<Rightarrow> Inl e
      | Inr spent \<Rightarrow>
          Inr (spent, d\<lparr>t_inputs := filter (\<lambda>i. in_transaction_id i \<notin> set ids) (t_inputs d)\<rparr>))"

definition delete_outputs_at :: "(hash \<times> int) list \<Rightarrow> db \<Rightarrow> sql_error + nat \<times> db" where
  "delete_outputs_at spent d =
     (let keep = filter (\<lambda>r. (out_transaction_id r, out_index r) \<notin> set spent) (t_outputs d) in
      Inr (length (t_outputs d) - length keep, d\<lparr>t_outputs := keep\<rparr>))"

definition delete_acceptances_of :: "hash list \<Rightarrow> db \<Rightarrow> sql_error + nat \<times> db" where
  "delete_acceptances_of ids d =
     (let keep = filter (\<lambda>a. ta_transaction_id a \<notin> Some ` set ids) (t_acceptances d) in
      Inr (length (t_acceptances d) - length keep, d\<lparr>t_acceptances := keep\<rparr>))"

definition select_output_ids :: "hash list \<Rightarrow> db \<Rightarrow> hash list" where
  "select_output_ids ids d = filter (\<lambda>h. h \<in> set ids) (map out_transaction_id (t_outputs d))"

definition prune_transactions_chunk ::
  "(nat \<Rightarrow> nat list \<Rightarrow> nat list) \<Rightarrow> int \<Rightarrow> int \<Rightarrow> nat db_op" where
  "prune_transactions_chunk pick block_time_lt batch_size = in_transaction (
     bnd (query (\<lambda>_. Inr ())) (\<lambda>_.
     bnd (execute (delete_old_transactions pick block_time_lt batch_size)) (\<lambda>expired.
     bnd (query (\<lambda>d. Inr (select_accepted expired d))) (\<lambda>accepted.
     let rejected = filter (\<lambda>h. h \<notin> set accepted) expired in
     bnd (execute (delete_inputs_of rejected)) (\<lambda>n1.
     bnd (execute (delete_outputs_of rejected)) (\<lambda>n2.
     bnd (execute (delete_inputs_returning accepted)) (\<lambda>spent.
     bnd (execute (delete_outputs_at spent)) (\<lambda>n3.
     let possibly_spent = remdups (map fst spent) in
     bnd (query (\<lambda>d. Inr (select_output_ids possibly_spent d))) (\<lambda>unspent.
     let fully_spent = filter (\<lambda>h. h \<notin> set unspent) possibly_spent in
     bnd (execute (delete_acceptances_of fully_spent)) (\<lambda>n4.
     ret (length expired + n1 + n2 + length spent + n3 + n4)))))))))))"

definition prune_transactions ::
  "(nat \<Rightarrow> nat list \<Rightarrow> nat list) \<Rightarrow> int \<Rightarrow> int \<Rightarrow> pool \<Rightarrow> ((sql_error + nat) \<times> pool) option" where
  "prune_transactions pick block_time_lt batch_size =
     prune_loop (prune_transactions_chunk pick block_time_lt batch_size) 0"

section \<open>What the prune loop does\<close>

lemma drop_at_alt: "drop_at ctids t = map ((!) t) (filter (\<lambda>i. i \<notin> set ctids) [0..<length t])"
proof -
  have "[t ! i. i \<leftarrow> is, i \<notin> set ctids] = map ((!) t) (filter (\<lambda>i. i \<notin> set ctids) is)" for "is"
    by (induction "is") auto
  then show ?thesis unfolding drop_at_def .
qed

lemma filter_drop_at:
  assumes "\<forall>i\<in>set ctids. P (t ! i)"
  shows "filter (\<lambda>r. \<not> P r) (drop_at ctids t) = filter (\<lambda>r. \<not> P r) t"
proof -
  have "filter (\<lambda>r. \<not> P r) (drop_at ctids t) =
      map ((!) t) (filter (\<lambda>i. \<not> P (t ! i)) [0..<length t])"
    using assms by (auto simp: drop_at_alt filter_map o_def intro!: arg_cong [where f = "map _"] filter_cong)
  also have "\<dots> = filter (\<lambda>r. \<not> P r) (map ((!) t) [0..<length t])"
    by (simp add: filter_map o_def)
  finally show ?thesis by (simp add: map_nth)
qed

lemma length_drop_at:
  assumes "set ctids \<subseteq> {..<length t}"
  shows "length (drop_at ctids t) + card (set ctids) = length t"
proof -
  have "length (drop_at ctids t) = card ({..<length t} - set ctids)"
    by (simp add: drop_at_alt distinct_length_filter) (rule arg_cong [where f = card], auto)
  moreover have "card (set ctids) \<le> length t"
    using card_mono [OF _ assms] by simp
  ultimately show ?thesis using assms by (simp add: card_Diff_subset)
qed

lemma limit_ok_set: "limit_ok pick \<Longrightarrow> set (pick n ctids) \<subseteq> set ctids"
  unfolding limit_ok_def by (metis mset_subset_eqD set_mset_mset subsetI)

lemma limit_ok_empty: "limit_ok pick \<Longrightarrow> pick n ctids = [] \<longleftrightarrow> n = 0 \<or> ctids = []"
  unfolding limit_ok_def by (metis length_0_conv min_0L min_0R min_def)

lemma limit_ok_take: "limit_ok take"
  by (simp add: limit_ok_def min.commute)
    (metis append_take_drop_id mset_append mset_subset_eq_add_left)

text \<open>
  The seven loops differ in the table and in what makes a row old. The client lemma: the loop
  ends on every pool; it deletes old rows only; without an error and with a positive batch
  size it deletes all of them, and its result is their number.
\<close>

locale aged_table =
  fixes rows :: "db \<Rightarrow> 'r list"
    and with_rows :: "'r list \<Rightarrow> db \<Rightarrow> db"
    and candidates :: "int \<Rightarrow> db \<Rightarrow> nat list"
    and old :: "int \<Rightarrow> db \<Rightarrow> 'r \<Rightarrow> bool"
  assumes set_candidates:
      "set (candidates c d) = {i. i < length (rows d) \<and> old c d (rows d ! i)}"
    and rows_with [simp]: "rows (with_rows t d) = t"
    and with_with [simp]: "with_rows t' (with_rows t d) = with_rows t' d"
    and with_same [simp]: "with_rows (rows d) d = d"
    and old_with [simp]: "old c (with_rows t d) = old c d"
begin

lemma batch:
  assumes "limit_ok pick" "0 \<le> b"
  shows "\<exists>n t. delete_limited pick b (candidates c) rows with_rows d = Inr (n, with_rows t d)
    \<and> n + length t = length (rows d)
    \<and> filter (\<lambda>r. \<not> old c d r) t = filter (\<lambda>r. \<not> old c d r) (rows d)
    \<and> (n = 0 \<longrightarrow> t = rows d \<and> (0 < b \<longrightarrow> (\<forall>r\<in>set t. \<not> old c d r)))"
proof -
  define ctids where "ctids = pick (nat b) (candidates c d)"
  have sub: "set ctids \<subseteq> set (candidates c d)"
    unfolding ctids_def using assms(1) by (rule limit_ok_set)
  then have len: "length (drop_at ctids (rows d)) + card (set ctids) = length (rows d)"
    by (intro length_drop_at) (auto simp: set_candidates)
  have keep: "filter (\<lambda>r. \<not> old c d r) (drop_at ctids (rows d)) = filter (\<lambda>r. \<not> old c d r) (rows d)"
    using sub by (intro filter_drop_at) (auto simp: set_candidates)
  have none: "drop_at ctids (rows d) = rows d \<and> (0 < b \<longrightarrow> (\<forall>r\<in>set (rows d). \<not> old c d r))"
    if "length (rows d) - length (drop_at ctids (rows d)) = 0"
  proof -
    have "card (set ctids) = 0" using that len by arith
    then have "ctids = []" by simp
    then have "drop_at ctids (rows d) = rows d" by (simp add: drop_at_alt map_nth)
    moreover have "\<not> old c d r" if "0 < b" "r \<in> set (rows d)" for r
    proof -
      have "candidates c d = []"
        using limit_ok_empty [OF assms(1)] \<open>ctids = []\<close> that(1) by (simp add: ctids_def)
      then have "set (candidates c d) = {}" by simp
      then show ?thesis using that(2) by (auto simp: set_candidates in_set_conv_nth)
    qed
    ultimately show ?thesis by blast
  qed
  have "delete_limited pick b (candidates c) rows with_rows d =
      Inr (length (rows d) - length (drop_at ctids (rows d)), with_rows (drop_at ctids (rows d)) d)"
    using assms(2) by (simp add: delete_limited_def ctids_def Let_def)
  moreover have "length (rows d) - length (drop_at ctids (rows d)) + length (drop_at ctids (rows d))
      = length (rows d)"
    using len by arith
  ultimately show ?thesis using keep none
    by (intro exI [of _ "length (rows d) - length (drop_at ctids (rows d))"]
        exI [of _ "drop_at ctids (rows d)"]) auto
qed

lemma prune_loop_ends:
  assumes "limit_ok pick"
  shows "\<exists>r t p'. prune_loop (execute (delete_limited pick b (candidates c) rows with_rows)) acc p = Some (r, p')
    \<and> data p' = with_rows t (data p)
    \<and> filter (\<lambda>r. \<not> old c (data p) r) t = filter (\<lambda>r. \<not> old c (data p) r) (rows (data p))
    \<and> (\<forall>n. r = Inr n \<longrightarrow> n + length t = acc + length (rows (data p))
          \<and> (0 < b \<longrightarrow> (\<forall>r\<in>set t. \<not> old c (data p) r)))
    \<and> (healthy p \<longrightarrow> 0 \<le> b \<longrightarrow> (\<exists>n. r = Inr n) \<and> healthy p')"
proof (induction "length (rows (data p))" arbitrary: p acc rule: less_induct)
  case less
  define stmt where "stmt = execute (delete_limited pick b (candidates c) rows with_rows)"
  show ?case
  proof (cases "stmt p")
    case (Pair r p1)
    have f: "healthy p \<Longrightarrow> healthy p1"
      using execute_faults [of "delete_limited pick b (candidates c) rows with_rows" p] Pair
      by (simp add: stmt_def)
    show ?thesis
    proof (cases r)
      case (Inl e)
      have same: "data p1 = data p"
        using Pair Inl unfolding stmt_def by (auto dest: execute_error)
      have "\<not> (healthy p \<and> 0 \<le> b)"
      proof
        assume "healthy p \<and> 0 \<le> b"
        with batch [OF assms, of b c "data p"] Pair Inl show False
          by (auto simp: stmt_def execute_healthy)
      qed
      with Pair Inl same show ?thesis
        by (intro exI [of _ "Inl e"] exI [of _ "rows (data p)"] exI [of _ p1])
          (auto simp: prune_loop.simps stmt_def [symmetric])
    next
      case (Inr n)
      have "0 \<le> b"
        using Pair Inr by (auto simp: stmt_def execute_def Let_def delete_limited_def split: if_splits)
      from batch [OF assms this, of c "data p"] obtain m t where
        m: "delete_limited pick b (candidates c) rows with_rows (data p) = Inr (m, with_rows t (data p))"
        "m + length t = length (rows (data p))"
        "filter (\<lambda>r. \<not> old c (data p) r) t = filter (\<lambda>r. \<not> old c (data p) r) (rows (data p))"
        "m = 0 \<longrightarrow> t = rows (data p) \<and> (0 < b \<longrightarrow> (\<forall>r\<in>set t. \<not> old c (data p) r))"
        by blast
      have n: "n = m" "data p1 = with_rows t (data p)"
        using Pair Inr m(1) by (auto simp: stmt_def execute_def Let_def split: if_splits)
      show ?thesis
      proof (cases "n = 0")
        case True
        with Pair Inr m n f show ?thesis
          by (intro exI [of _ "Inr acc"] exI [of _ t] exI [of _ p1])
            (auto simp: prune_loop.simps stmt_def [symmetric])
      next
        case False
        with m n have "length (rows (data p1)) < length (rows (data p))" by simp
        from less [OF this, of "acc + n"] obtain r' t' p' where
          "prune_loop stmt (acc + n) p1 = Some (r', p')"
          "data p' = with_rows t' (data p1)"
          "filter (\<lambda>r. \<not> old c (data p1) r) t' = filter (\<lambda>r. \<not> old c (data p1) r) (rows (data p1))"
          "\<forall>n'. r' = Inr n' \<longrightarrow> n' + length t' = acc + n + length (rows (data p1))
             \<and> (0 < b \<longrightarrow> (\<forall>r\<in>set t'. \<not> old c (data p1) r))"
          "healthy p1 \<longrightarrow> 0 \<le> b \<longrightarrow> (\<exists>n'. r' = Inr n') \<and> healthy p'"
          unfolding stmt_def by blast
        with Pair Inr False m n f show ?thesis
          by (intro exI [of _ r'] exI [of _ t'] exI [of _ p'])
            (auto simp: prune_loop.simps [of stmt acc p] stmt_def [symmetric])
      qed
    qed
  qed
qed

text \<open>On a healthy connection with a positive batch size: exactly the old rows go.\<close>

lemma prune_loop_healthy:
  assumes "limit_ok pick" "healthy p" "0 < b"
  shows "prune_loop (execute (delete_limited pick b (candidates c) rows with_rows)) 0 p =
    Some (Inr (length (filter (old c (data p)) (rows (data p)))),
      p\<lparr>data := with_rows (filter (\<lambda>r. \<not> old c (data p) r) (rows (data p))) (data p)\<rparr>)"
proof -
  from prune_loop_ends [OF assms(1), of b c 0 p] assms(2,3) obtain n t p' where r:
    "prune_loop (execute (delete_limited pick b (candidates c) rows with_rows)) 0 p = Some (Inr n, p')"
    "data p' = with_rows t (data p)" "healthy p'"
    "filter (\<lambda>r. \<not> old c (data p) r) t = filter (\<lambda>r. \<not> old c (data p) r) (rows (data p))"
    "n + length t = length (rows (data p))" "\<forall>r\<in>set t. \<not> old c (data p) r"
    by (metis add_0 less_imp_le)
  have t: "t = filter (\<lambda>r. \<not> old c (data p) r) (rows (data p))"
    using r(4,6) by (metis filter_True)
  have "n = length (filter (old c (data p)) (rows (data p)))"
    using r(5) t sum_length_filter_compl [of "old c (data p)" "rows (data p)"] by simp
  moreover have "p' = p\<lparr>data := with_rows t (data p)\<rparr>"
    using r(2,3) assms(2) by (cases p, cases p') simp
  ultimately show ?thesis using r(1) t by simp
qed

text \<open>What the callers of a loop use: what it may change and, without failures, what it does.\<close>

lemma loop_result:
  assumes "limit_ok pick"
    and "prune_loop (execute (delete_limited pick b (candidates c) rows with_rows)) 0 p = Some (r, p')"
  obtains t where "data p' = with_rows t (data p)"
    "filter (\<lambda>r. \<not> old c (data p) r) t = filter (\<lambda>r. \<not> old c (data p) r) (rows (data p))"
    "healthy p \<Longrightarrow> 0 < b \<Longrightarrow> healthy p' \<and> t = filter (\<lambda>r. \<not> old c (data p) r) (rows (data p))"
proof -
  from prune_loop_ends [OF assms(1), of b c 0 p] assms(2) obtain t where t:
    "data p' = with_rows t (data p)"
    "filter (\<lambda>r. \<not> old c (data p) r) t = filter (\<lambda>r. \<not> old c (data p) r) (rows (data p))"
    by auto
  have "healthy p' \<and> t = filter (\<lambda>r. \<not> old c (data p) r) (rows (data p))" if "healthy p" "0 < b"
    using prune_loop_healthy [OF assms(1) that, of c] assms(2) t(1) that(1)
    by (auto dest!: arg_cong [where f = rows])
  with t that show thesis by blast
qed

end

lemma set_joined_old:
  "set (joined_old on time c t bs) =
     {i. i < length t \<and> (\<exists>b\<in>set bs. on (t ! i) b \<and> older c (time b))}"
  by (auto simp: joined_old_def)

lemma set_own_old: "set (own_old time c t) = {i. i < length t \<and> older c (time (t ! i))}"
  by (auto simp: own_old_def)

interpretation prune_bp: aged_table t_block_parent "\<lambda>t d. d\<lparr>t_block_parent := t\<rparr>"
    "\<lambda>c d. joined_old (\<lambda>r b. bp_block_hash r = blk_hash b) blk_timestamp c (t_block_parent d) (t_blocks d)"
    "\<lambda>c d r. \<exists>b\<in>set (t_blocks d). bp_block_hash r = blk_hash b \<and> older c (blk_timestamp b)"
  by unfold_locales (simp_all add: set_joined_old)

interpretation prune_btb: aged_table t_blocks_transactions "\<lambda>t d. d\<lparr>t_blocks_transactions := t\<rparr>"
    "\<lambda>c d. joined_old (\<lambda>r b. bt_block_hash r = blk_hash b) blk_timestamp c (t_blocks_transactions d) (t_blocks d)"
    "\<lambda>c d r. \<exists>b\<in>set (t_blocks d). bt_block_hash r = blk_hash b \<and> older c (blk_timestamp b)"
  by unfold_locales (simp_all add: set_joined_old)

interpretation prune_btt: aged_table t_blocks_transactions "\<lambda>t d. d\<lparr>t_blocks_transactions := t\<rparr>"
    "\<lambda>c d. joined_old (\<lambda>r t. bt_transaction_id r = tx_id t) tx_block_time c (t_blocks_transactions d) (t_transactions d)"
    "\<lambda>c d r. \<exists>t\<in>set (t_transactions d). bt_transaction_id r = tx_id t \<and> older c (tx_block_time t)"
  by unfold_locales (simp_all add: set_joined_old)

interpretation prune_ta: aged_table t_acceptances "\<lambda>t d. d\<lparr>t_acceptances := t\<rparr>"
    "\<lambda>c d. joined_old (\<lambda>r b. ta_block_hash r = Some (blk_hash b)) blk_timestamp c (t_acceptances d) (t_blocks d)"
    "\<lambda>c d r. \<exists>b\<in>set (t_blocks d). ta_block_hash r = Some (blk_hash b) \<and> older c (blk_timestamp b)"
  by unfold_locales (simp_all add: set_joined_old)

interpretation prune_b: aged_table t_blocks "\<lambda>t d. d\<lparr>t_blocks := t\<rparr>"
    "\<lambda>c d. own_old blk_timestamp c (t_blocks d)" "\<lambda>c d b. older c (blk_timestamp b)"
  by unfold_locales (simp_all add: set_own_old)

interpretation prune_at: aged_table t_addresses_transactions "\<lambda>t d. d\<lparr>t_addresses_transactions := t\<rparr>"
    "\<lambda>c d. own_old at_block_time c (t_addresses_transactions d)" "\<lambda>c d r. older c (at_block_time r)"
  by unfold_locales (simp_all add: set_own_old)

interpretation prune_st: aged_table t_scripts_transactions "\<lambda>t d. d\<lparr>t_scripts_transactions := t\<rparr>"
    "\<lambda>c d. own_old st_block_time c (t_scripts_transactions d)" "\<lambda>c d r. older c (st_block_time r)"
  by unfold_locales (simp_all add: set_own_old)

section \<open>Invariants and termination of the loop in general\<close>

lemma prune_loop_rule:
  assumes step: "\<And>p r p'. stmt p = (r, p') \<Longrightarrow> I (data p) \<Longrightarrow> I (data p')"
    and run: "prune_loop stmt acc p = Some (r, p')" and init: "I (data p)"
  shows "I (data p')"
proof -
  have step': "I (data (snd (stmt q)))" if "I (data q)" for q
    using step [of q] that by (cases "stmt q") simp
  have "stmt = stmt \<longrightarrow> I (data p) \<longrightarrow> I (data (snd (r, p')))"
  proof (rule prune_loop.raw_induct [where
        P = "\<lambda>st acc p x. st = stmt \<longrightarrow> I (data p) \<longrightarrow> I (data (snd x))", OF _ run])
    fix loop :: "nat db_op \<Rightarrow> nat \<Rightarrow> pool \<Rightarrow> ((sql_error + nat) \<times> pool) option"
      and st acc p x
    assume IH: "\<And>st acc p x. loop st acc p = Some x \<Longrightarrow>
        st = stmt \<longrightarrow> I (data p) \<longrightarrow> I (data (snd x))"
    assume "(case st p of (Inl e, p') \<Rightarrow> Some (Inl e, p')
      | (Inr n, p') \<Rightarrow> if n = 0 then Some (Inr acc, p') else loop st (acc + n) p') = Some x"
    then show "st = stmt \<longrightarrow> I (data p) \<longrightarrow> I (data (snd x))"
      by (auto split: prod.splits sum.splits if_splits intro: step' dest: step IH)
  qed
  with init show ?thesis by simp
qed

lemma prune_loop_total:
  assumes "\<And>p n p'. stmt p = (Inr n, p') \<Longrightarrow> n \<noteq> 0 \<Longrightarrow> size_of (data p') < (size_of (data p) :: nat)"
  shows "\<exists>x. prune_loop stmt acc p = Some x"
proof (induction "size_of (data p)" arbitrary: p acc rule: less_induct)
  case less
  show ?case
  proof (cases "stmt p")
    case (Pair r p')
    then show ?thesis
      using less [of p'] assms [of p _ p']
      by (cases r) (auto simp: prune_loop.simps [of stmt acc p])
  qed
qed

end
