(* ===== verification/Writers.thy ===== *)
theory Writers
  imports Db_Insert Db_Delete Cli
begin

text \<open>
  How the processors write batches: \<open>for chunk in xs.chunks(n) { rows += op(chunk)? }\<close>, and
  the concurrent form, \<open>stream::iter(chunks).buffer_unordered(concurrency)\<close>, whose statements
  take effect in an order the runtime chooses. That order is the parameter \<open>sched\<close>; the
  facts about \<open>skip_conflicts_table\<close> proved here hold for every such order.
\<close>

section \<open>Sequential chunks\<close>

definition write_chunks ::
  "string \<Rightarrow> nat \<Rightarrow> ('r list \<Rightarrow> nat db_op) \<Rightarrow> 'r list \<Rightarrow> (pool, panic, nat) sem" where
  "write_chunks msg n op xs =
     bnd (lift_res (chunks n xs)) (\<lambda>cs. sum_loop (\<lambda>c. or_panic msg (op c)) cs 0)"

section \<open>Concurrent chunks\<close>

text \<open>
  \<open>buffer_unordered k\<close> starts statement \<open>i\<close> when fewer than \<open>k\<close> are under way: the statement
  that takes effect at place \<open>j\<close> is one of the first \<open>j + k\<close>.
\<close>

definition buffered :: "nat \<Rightarrow> nat \<Rightarrow> nat list \<Rightarrow> bool" where
  "buffered k n order \<longleftrightarrow>
     length order = n \<and> distinct order \<and> set order = {..<n} \<and> (\<forall>j<n. order ! j < j + k)"

definition sched_ok :: "(nat \<Rightarrow> nat \<Rightarrow> nat list) \<Rightarrow> bool" where
  "sched_ok sched \<longleftrightarrow> (\<forall>k n. 0 < k \<longrightarrow> buffered k n (sched k n))"

type_synonym statement = "(pool, panic, nat) sem"

text \<open>
  A task: the statements it runs, in the order they take effect. A panic of the task is a
  statement that fails.
\<close>

definition chunk_task ::
  "(nat \<Rightarrow> nat \<Rightarrow> nat list) \<Rightarrow> nat \<Rightarrow> string \<Rightarrow> nat \<Rightarrow> ('r list \<Rightarrow> nat db_op) \<Rightarrow> 'r list \<Rightarrow>
     statement list" where
  "chunk_task sched concurrency msg n op xs =
     (case chunks n xs of
        Inl e \<Rightarrow> [throw e]
      | Inr cs \<Rightarrow> map (\<lambda>i. or_panic msg (op (cs ! i))) (sched concurrency (length cs)))"

text \<open>The same for a loop over the chunks in order.\<close>

definition loop_task ::
  "string \<Rightarrow> nat \<Rightarrow> ('r list \<Rightarrow> nat db_op) \<Rightarrow> 'r list \<Rightarrow> statement list" where
  "loop_task msg n op xs =
     (case chunks n xs of
        Inl e \<Rightarrow> [throw e]
      | Inr cs \<Rightarrow> map (\<lambda>c. or_panic msg (op c)) cs)"

definition run_statements :: "statement list \<Rightarrow> (pool, panic, nat) sem" where
  "run_statements ops = sum_loop (\<lambda>op. op) ops 0"

text \<open>
  Tasks spawned together: their statements take effect in some order, the parameter \<open>mrg\<close>.
\<close>

definition mrg_ok :: "(statement list list \<Rightarrow> statement list) \<Rightarrow> bool" where
  "mrg_ok mrg \<longleftrightarrow> (\<forall>tasks. mset (mrg tasks) = mset (concat tasks))"

lemma mrg_ok_concat: "mrg_ok concat"
  by (simp add: mrg_ok_def)

lemma buffered_one: "buffered 1 n order \<Longrightarrow> order = [0..<n]"
proof -
  assume b: "buffered 1 n order"
  have le: "order ! j \<le> j" if "j < n" for j
    using b that by (auto simp: buffered_def less_Suc_eq_le)
  have "order ! j = j" if "j < n" for j
    using that
  proof (induction j rule: less_induct)
    case (less j)
    show ?case
    proof (rule ccontr)
      assume "order ! j \<noteq> j"
      with le [OF less.prems] have "order ! j < j" by simp
      with less.IH [of "order ! j"] less.prems have "order ! (order ! j) = order ! j" by simp
      moreover have "order ! j < length order" "j < length order" "distinct order"
        using b less.prems \<open>order ! j < j\<close> by (auto simp: buffered_def)
      ultimately show False using \<open>order ! j \<noteq> j\<close> nth_eq_iff_index_eq by blast
    qed
  qed
  then show ?thesis using b by (intro nth_equalityI) (auto simp: buffered_def)
qed

lemma buffered_mset:
  assumes "buffered k (length cs) order"
  shows "mset (map ((!) cs) order) = mset cs"
proof -
  have "mset order = mset [0..<length cs]"
    using assms by (intro set_eq_iff_mset_eq_distinct [THEN iffD1])
      (auto simp: buffered_def atLeast0LessThan)
  then have "image_mset ((!) cs) (mset order) = image_mset ((!) cs) (mset [0..<length cs])" by simp
  then show ?thesis by (metis map_nth mset_map)
qed

lemma sched_ok_upt: "sched_ok (\<lambda>k n. [0..<n])"
  by (auto simp: sched_ok_def buffered_def)

lemma sum_loop_or_panic_Inr:
  "sum_loop op cs acc p = (Inr n, p') \<Longrightarrow> sum_loop (\<lambda>c. or_panic msg (op c)) cs acc p = (Inr n, p')"
  by (induction cs arbitrary: acc p) (auto simp: ret_def bnd_Inr_iff)

lemma sum_loop_map: "sum_loop (\<lambda>op. op) (map f cs) acc = sum_loop f cs acc"
  by (induction cs arbitrary: acc) (auto simp: fun_eq_iff bnd_def split: prod.splits sum.splits)

lemma write_chunks_run:
  "0 < n \<Longrightarrow> write_chunks msg n op xs p = sum_loop (\<lambda>c. or_panic msg (op c)) (chunks_of n xs) 0 p"
  by (simp add: write_chunks_def chunks_def bnd_def lift_res_def)

lemma write_chunks_zero: "write_chunks msg 0 op xs p = (Inl (Panic ''chunk size must be non-zero''), p)"
  by (simp add: write_chunks_def chunks_def bnd_def lift_res_def)

lemma run_chunk_task:
  "0 < n \<Longrightarrow> run_statements (chunk_task sched k msg n op xs) p =
     sum_loop (\<lambda>c. or_panic msg (op c))
       (map ((!) (chunks_of n xs)) (sched k (length (chunks_of n xs)))) 0 p"
  by (simp add: chunk_task_def chunks_def run_statements_def
      sum_loop_map [of "\<lambda>c. or_panic msg (op c)", symmetric] o_def)

section \<open>What a run of statements passes through\<close>

lemma run_visits:
  assumes "sum_loop (\<lambda>op. op) ops acc p = (Inr n, p')" "op \<in> set ops"
    and rel: "\<And>op p r p'. op \<in> set ops \<Longrightarrow> op p = (r, p') \<Longrightarrow> R (data p) (data p')"
    and refl: "\<And>d. R d d" and trans: "\<And>a b c. R a b \<Longrightarrow> R b c \<Longrightarrow> R a c"
  shows "\<exists>q q' m. op q = (Inr m, q') \<and> R (data p) (data q) \<and> R (data q') (data p')"
proof -
  have steps: "R (data p) (data p')"
    if "sum_loop (\<lambda>op. op) xs acc p = (Inr n, p')" "set xs \<subseteq> set ops" for xs acc p
    using that
  proof (induction xs arbitrary: acc p)
    case (Cons x xs)
    then obtain a u where "x p = (Inr a, u)" "sum_loop (\<lambda>op. op) xs (acc + a) u = (Inr n, p')"
      by (auto simp: bnd_Inr_iff)
    then have "R (data p) (data u)" "R (data u) (data p')"
      using rel [of x p "Inr a" u] Cons.prems(2) Cons.IH [of "acc + a" u] by auto
    then show ?case by (rule trans)
  qed (auto simp: ret_def refl)
  have "\<exists>q q' m. op q = (Inr m, q') \<and> R (data p) (data q) \<and> R (data q') (data p')"
    if "sum_loop (\<lambda>op. op) xs acc p = (Inr n, p')" "set xs \<subseteq> set ops" "op \<in> set xs" for xs acc p
    using that
  proof (induction xs arbitrary: acc p)
    case (Cons x xs)
    then obtain a u where u: "x p = (Inr a, u)" "sum_loop (\<lambda>op. op) xs (acc + a) u = (Inr n, p')"
      by (auto simp: bnd_Inr_iff)
    show ?case
    proof (cases "x = op")
      case True
      have "R (data u) (data p')" by (rule steps [OF u(2)]) (use Cons.prems in auto)
      with True u(1) show ?thesis using refl by blast
    next
      case False
      with Cons.IH [OF u(2)] Cons.prems obtain q q' m where
        "op q = (Inr m, q')" "R (data u) (data q)" "R (data q') (data p')" by auto
      moreover have "R (data p) (data u)" using rel [of x p] u(1) Cons.prems by auto
      ultimately show ?thesis using trans by blast
    qed
  qed simp
  from this [OF assms(1) subset_refl assms(2)] show ?thesis .
qed

lemma run_steps:
  assumes "run_statements ops p = (r, p')"
    and rel: "\<And>op p r p'. op \<in> set ops \<Longrightarrow> op p = (r, p') \<Longrightarrow> R (data p) (data p')"
    and refl: "\<And>d. R d d" and trans: "\<And>a b c. R a b \<Longrightarrow> R b c \<Longrightarrow> R a c"
  shows "R (data p) (data p')"
proof -
  have "R (data p) (data p')"
    if "sum_loop (\<lambda>op. op) xs acc p = (r, p')" "set xs \<subseteq> set ops" for xs acc p
    using that
  proof (induction xs arbitrary: acc p)
    case (Cons x xs)
    obtain s u where s: "x p = (s, u)" by (cases "x p")
    have "R (data p) (data u)" using rel [of x p] s Cons.prems by auto
    moreover have "R (data u) (data p')"
    proof (cases s)
      case (Inl e)
      then show ?thesis using Cons.prems(1) s refl by (auto simp: bnd_def)
    next
      case (Inr a)
      then have "sum_loop (\<lambda>op. op) xs (acc + a) u = (r, p')"
        using Cons.prems(1) s by (simp add: bnd_def)
      then show ?thesis using Cons by auto
    qed
    ultimately show ?case using trans by blast
  qed (auto simp: ret_def refl)
  then show ?thesis using assms(1) by (simp add: run_statements_def)
qed

lemma chunk_task_member:
  "op \<in> set (chunk_task sched k msg n ins rs) \<Longrightarrow>
     (\<exists>e. op = throw e) \<or> (\<exists>c. op = or_panic msg (ins c))"
  by (auto simp: chunk_task_def split: sum.splits)

lemma loop_task_member:
  "op \<in> set (loop_task msg n ins rs) \<Longrightarrow>
     (\<exists>e. op = throw e) \<or> (\<exists>c. op = or_panic msg (ins c))"
  by (auto simp: loop_task_def split: sum.splits)

lemma throw_Inr [simp]: "throw e p = (Inr a, p') \<longleftrightarrow> False"
  by (simp add: throw_def)

lemma or_panic_data:
  "or_panic msg m p = (r, p') \<Longrightarrow> \<exists>r'. m p = (r', p')"
  by (auto simp: or_panic_def split: prod.splits sum.splits)

text \<open>A chunk of every element is among the statements of the task.\<close>

lemma chunk_task_covers:
  assumes "0 < n" "sched_ok sched" "0 < k" "r \<in> set rs"
  shows "\<exists>c. r \<in> set c \<and> or_panic msg (ins c) \<in> set (chunk_task sched k msg n ins rs)"
proof -
  let ?cs = "chunks_of n rs"
  have "r \<in> set (concat ?cs)" using assms(1,4) by (simp add: concat_chunks_of)
  then obtain i where i: "i < length ?cs" "r \<in> set (?cs ! i)"
    by (auto simp: in_set_conv_nth [of _ ?cs])
  moreover have "i \<in> set (sched k (length ?cs))"
    using assms(2,3) i(1) by (simp add: sched_ok_def buffered_def)
  ultimately have "or_panic msg (ins (?cs ! i)) \<in> set (chunk_task sched k msg n ins rs)"
    using assms(1) by (simp add: chunk_task_def chunks_def)
  with i(2) show ?thesis by blast
qed

lemma small_tasks:
  "0 < n \<Longrightarrow> chunk_task (\<lambda>k n. [0..<n]) k msg n ins [] = []"
  "0 < n \<Longrightarrow> chunk_task (\<lambda>k n. [0..<n]) k msg n ins [r] = [or_panic msg (ins [r])]"
  "0 < n \<Longrightarrow> loop_task msg n ins [] = []"
  "0 < n \<Longrightarrow> loop_task msg n ins [r] = [or_panic msg (ins [r])]"
  using chunks_of_small [of "[r]" n]
  by (simp_all add: chunk_task_def loop_task_def chunks_def)

section \<open>Relations every operation steps in\<close>

text \<open>
  A relation between the database before and after: rows are never lost, keys stay unique. The
  locale carries it from the statements to whole tasks, however they end.
\<close>

definition steps :: "(db \<Rightarrow> db \<Rightarrow> bool) \<Rightarrow> (pool, 'e, 'a) sem \<Rightarrow> bool" where
  "steps R op \<longleftrightarrow> (\<forall>p r p'. op p = (r, p') \<longrightarrow> R (data p) (data p'))"

lemma steps_I: "(\<And>p r p'. op p = (r, p') \<Longrightarrow> R (data p) (data p')) \<Longrightarrow> steps R op"
  by (auto simp: steps_def)

lemma steps_or_panic: "steps R m \<Longrightarrow> steps R (or_panic msg m)"
  by (rule steps_I) (auto simp: steps_def dest!: or_panic_data)

lemma steps_or_default: "steps R m \<Longrightarrow> steps R (or_default d m)"
  by (rule steps_I) (auto simp: steps_def or_default_def split: prod.splits sum.splits)

locale db_relation =
  fixes R :: "db \<Rightarrow> db \<Rightarrow> bool"
  assumes R_refl: "R d d"
    and R_trans: "R a b \<Longrightarrow> R b c \<Longrightarrow> R a c"
begin

lemma steps_throw: "steps R (throw e)"
  by (simp add: steps_def throw_def R_refl)

lemma steps_ret: "steps R (ret a)"
  by (simp add: steps_def ret_def R_refl)

lemma steps_lift: "steps R (lift_res r)"
  by (simp add: steps_def lift_res_def R_refl)

lemma steps_bnd:
  assumes "steps R m" "\<And>a. steps R (f a)"
  shows "steps R (bnd m f)"
proof (rule steps_I)
  fix p r p' assume run: "bnd m f p = (r, p')"
  obtain x q where q: "m p = (x, q)" by (cases "m p")
  have first: "R (data p) (data q)" using q assms(1) by (simp add: steps_def)
  show "R (data p) (data p')"
  proof (cases x)
    case (Inl e)
    with run q first show ?thesis by (simp add: bnd_def)
  next
    case (Inr a)
    with run q assms(2) [of a] have "R (data q) (data p')" by (simp add: bnd_def steps_def)
    with first show ?thesis by (rule R_trans)
  qed
qed

lemma steps_execute:
  assumes "\<And>d a d'. stmt d = Inr (a, d') \<Longrightarrow> R d d'"
  shows "steps R (execute stmt)"
proof (rule steps_I)
  fix p r p' assume e: "execute stmt p = (r, p')"
  show "R (data p) (data p')"
  proof (cases r)
    case (Inl x)
    with e execute_error [of stmt p x p'] show ?thesis by (simp add: R_refl)
  next
    case (Inr x)
    with e execute_Inr [of stmt p x p'] assms show ?thesis by blast
  qed
qed

lemma steps_query: "steps R (query q)"
  by (rule steps_I) (metis R_refl query_data snd_conv)

lemma steps_sum_loop: "(\<And>x. x \<in> set xs \<Longrightarrow> steps R (op x)) \<Longrightarrow> steps R (sum_loop op xs acc)"
  by (induction xs arbitrary: acc) (auto intro!: steps_bnd steps_ret)

lemma steps_write_chunks: "(\<And>c. steps R (op c)) \<Longrightarrow> steps R (write_chunks msg n op xs)"
  unfolding write_chunks_def by (intro steps_bnd steps_lift steps_sum_loop steps_or_panic)

lemma steps_chunk_task: "(\<And>c. steps R (ins c)) \<Longrightarrow> op \<in> set (chunk_task sched k msg n ins rs) \<Longrightarrow> steps R op"
  by (drule chunk_task_member) (elim disjE exE, simp_all add: steps_throw steps_or_panic)

lemma steps_loop_task: "(\<And>c. steps R (ins c)) \<Longrightarrow> op \<in> set (loop_task msg n ins rs) \<Longrightarrow> steps R op"
  by (drule loop_task_member) (elim disjE exE, simp_all add: steps_throw steps_or_panic)

lemma steps_run: "(\<And>op. op \<in> set ops \<Longrightarrow> steps R op) \<Longrightarrow> steps R (run_statements ops)"
  unfolding run_statements_def by (rule steps_sum_loop)

lemma steps_merged:
  "mrg_ok mrg \<Longrightarrow> (\<And>op. op \<in> set (concat tasks) \<Longrightarrow> steps R op) \<Longrightarrow> steps R (run_statements (mrg tasks))"
  by (rule steps_run) (metis mrg_ok_def set_mset_mset)

text \<open>A run without a panic executes each of its statements, in a state the relation reaches.\<close>

lemma steps_visits:
  assumes "run_statements ops p = (Inr n, p')" "op \<in> set ops" "\<And>op. op \<in> set ops \<Longrightarrow> steps R op"
  shows "\<exists>q q' m. op q = (Inr m, q') \<and> R (data p) (data q) \<and> R (data q') (data p')"
  by (rule run_visits [OF assms(1) [unfolded run_statements_def] assms(2) _ R_refl R_trans])
    (use assms(3) in \<open>auto simp: steps_def\<close>)

end

section \<open>Writing through the table interface\<close>

context skip_conflicts_table
begin

lemma write_chunks_ok:
  assumes "healthy p" "0 < n" "n * cols \<le> bind_limit"
  shows "write_chunks msg n ins rs p =
    (Inr (fst (insert_rows key rs (rows (data p)))),
     p\<lparr>data := with_rows (snd (insert_rows key rs (rows (data p)))) (data p)\<rparr>)"
  unfolding write_chunks_run [OF assms(2)]
  by (rule sum_loop_or_panic_Inr) (rule chunked_ins [OF assms])

text \<open>
  What a concurrent write promises: the rows it counts are the rows it adds, every key is
  there in the end, once, and nothing else changes, in whatever order the batches land.
\<close>

lemma run_task_ok:
  assumes "healthy p" "0 < n" "n * cols \<le> bind_limit" "sched_ok sched" "0 < k"
    and "unique_keys key (rows (data p))" "mset rs = mset rs0"
  shows "\<exists>t m. run_statements (chunk_task sched k msg n ins rs) p = (Inr m, p\<lparr>data := with_rows t (data p)\<rparr>)
    \<and> m + length (rows (data p)) = length t
    \<and> unique_keys key t
    \<and> set (map key t) - {None} = (set (map key (rows (data p))) \<union> set (map key rs0)) - {None}"
proof -
  let ?cs = "chunks_of n rs"
  have "buffered k (length ?cs) (sched k (length ?cs))"
    using assms(4,5) by (simp add: sched_ok_def)
  then have m: "mset (map ((!) ?cs) (sched k (length ?cs))) = mset ?cs"
    by (rule buffered_mset)
  from scheduled_ins [OF assms(1-3) m assms(6)] obtain t where t:
    "sum_loop ins (map ((!) ?cs) (sched k (length ?cs))) 0 p =
      (Inr (fst (insert_rows key rs (rows (data p)))), p\<lparr>data := with_rows t (data p)\<rparr>)"
    "unique_keys key t"
    "fst (insert_rows key rs (rows (data p))) + length (rows (data p)) = length t"
    "set (map key t) - {None} = (set (map key (rows (data p))) \<union> set (map key rs)) - {None}"
    by blast
  have "set (map key rs) = set (map key rs0)"
    using assms(7) by (metis mset_map set_mset_mset)
  then show ?thesis
    using t sum_loop_or_panic_Inr [OF t(1), of msg] run_chunk_task [OF assms(2)] by metis
qed

text \<open>
  Whatever runs beside it: after a run without a panic that includes a task writing \<open>rs\<close>,
  among statements that lose no row of the table, every key of \<open>rs\<close> is in the table.
\<close>

lemma run_covers:
  assumes run: "run_statements ops p = (Inr n, p')"
    and sub: "set (chunk_task sched k msg m ins rs) \<subseteq> set ops"
    and ok: "sched_ok sched" "0 < k"
    and keeps: "\<And>op p r p'. op \<in> set ops \<Longrightarrow> op p = (r, p') \<Longrightarrow>
      set (rows (data p)) \<subseteq> set (rows (data p'))"
    and r: "r \<in> set rs" "key r \<noteq> None"
  shows "key r \<in> key ` set (rows (data p'))"
proof -
  have visits: "\<exists>q q' m. op q = (Inr m, q') \<and> set (rows (data p)) \<subseteq> set (rows (data q))
      \<and> set (rows (data q')) \<subseteq> set (rows (data p'))" if "op \<in> set ops" for op
    using run_visits [where R = "\<lambda>d d'. set (rows d) \<subseteq> set (rows d')",
        OF run [unfolded run_statements_def] that keeps] by auto
  have "0 < m"
  proof (rule ccontr)
    assume "\<not> 0 < m"
    then have "\<exists>e. throw e \<in> set ops"
      using sub by (auto simp: chunk_task_def chunks_def)
    then show False using visits by fastforce
  qed
  from chunk_task_covers [OF this ok r(1), of msg ins] obtain c where
    c: "r \<in> set c" "or_panic msg (ins c) \<in> set ops" using sub by blast
  from visits [OF c(2)] obtain q q' j where "ins c q = (Inr j, q')"
    "set (rows (data q')) \<subseteq> set (rows (data p'))" by auto
  with ins_Inr_keys [OF this(1) c(1) r(2)] show ?thesis by blast
qed

text \<open>A success on any connection: the rows land in some order, none twice and none lost.\<close>

lemma sum_loop_Inr:
  "sum_loop (\<lambda>c. or_panic msg (ins c)) cs acc p = (Inr m, p') \<Longrightarrow>
     m = acc + fst (insert_rows key (concat cs) (rows (data p)))
     \<and> data p' = with_rows (snd (insert_rows key (concat cs) (rows (data p)))) (data p)"
proof (induction cs arbitrary: acc p)
  case Nil
  then show ?case by (simp add: ret_def)
next
  case (Cons c cs)
  then obtain n q where 1: "ins c p = (Inr n, q)"
    and 2: "sum_loop (\<lambda>c. or_panic msg (ins c)) cs (acc + n) q = (Inr m, p')"
    by (auto simp: bnd_Inr_iff)
  from ins_Inr [OF 1] Cons.IH [OF 2] show ?case by (simp add: insert_rows_append)
qed

lemma write_chunks_Inr:
  assumes "write_chunks msg n ins rs p = (Inr m, p')"
  shows "m = fst (insert_rows key rs (rows (data p)))
    \<and> data p' = with_rows (snd (insert_rows key rs (rows (data p)))) (data p)"
proof -
  have n: "0 < n" using assms write_chunks_zero [of msg ins rs p] by (cases "n = 0") auto
  from sum_loop_Inr [OF assms [unfolded write_chunks_run [OF n]]] show ?thesis
    by (simp add: concat_chunks_of [OF n])
qed

lemma write_chunks_keys:
  "write_chunks msg n ins rs p = (Inr m, p') \<Longrightarrow> r \<in> set rs \<Longrightarrow> key r \<noteq> None \<Longrightarrow>
     key r \<in> key ` set (rows (data p'))"
  using insert_rows_key_iff [of "key r" key rs "rows (data p)"] write_chunks_Inr [of msg n rs p m p']
  by auto

lemma run_task_Inr:
  assumes "run_statements (chunk_task sched k msg n ins rs) p = (Inr m, p')" "sched_ok sched" "0 < k"
  shows "\<exists>rs'. mset rs' = mset rs \<and> m = fst (insert_rows key rs' (rows (data p)))
    \<and> data p' = with_rows (snd (insert_rows key rs' (rows (data p)))) (data p)"
proof -
  have n: "0 < n"
    using assms(1) by (cases "n = 0") (auto simp: chunk_task_def chunks_def run_statements_def bnd_def throw_def)
  let ?cs = "chunks_of n rs"
  let ?order = "map ((!) ?cs) (sched k (length ?cs))"
  have "mset ?order = mset ?cs"
    by (rule buffered_mset [of k]) (use assms(2,3) in \<open>simp add: sched_ok_def\<close>)
  then have "mset (concat ?order) = mset rs"
    using n by (metis concat_chunks_of mset_concat mset_map sum_mset_sum_list)
  moreover have "sum_loop (\<lambda>c. or_panic msg (ins c)) ?order 0 p = (Inr m, p')"
    using assms(1) by (simp only: run_chunk_task [OF n])
  ultimately show ?thesis using sum_loop_Inr by fastforce
qed

end

section \<open>Deleting chunk by chunk\<close>

lemma delete_chunks_Inr:
  assumes "write_chunks msg n delete_transaction_acceptances hs p = (Inr m, p')"
  shows "data p' = (data p)\<lparr>t_acceptances :=
      filter (\<lambda>a. ta_block_hash a \<notin> Some ` set hs) (t_acceptances (data p))\<rparr>
    \<and> m + length (t_acceptances (data p')) = length (t_acceptances (data p))"
proof -
  have n: "0 < n" using assms write_chunks_zero [of msg delete_transaction_acceptances hs p]
    by (cases "n = 0") auto
  have loop: "data p' = (data p)\<lparr>t_acceptances :=
      filter (\<lambda>a. ta_block_hash a \<notin> Some ` set (concat cs)) (t_acceptances (data p))\<rparr>
    \<and> m + length (t_acceptances (data p')) = acc + length (t_acceptances (data p))"
    if "sum_loop (\<lambda>c. or_panic msg (delete_transaction_acceptances c)) cs acc p = (Inr m, p')"
    for cs acc p
    using that
  proof (induction cs arbitrary: acc p)
    case Nil
    then show ?case by (simp add: ret_def)
  next
    case (Cons c cs)
    then obtain k q where 1: "delete_transaction_acceptances c p = (Inr k, q)"
      and 2: "sum_loop (\<lambda>c. or_panic msg (delete_transaction_acceptances c)) cs (acc + k) q = (Inr m, p')"
      by (auto simp: bnd_Inr_iff)
    have q: "data q = (data p)\<lparr>t_acceptances :=
        filter (\<lambda>a. ta_block_hash a \<notin> Some ` set c) (t_acceptances (data p))\<rparr>"
      and k: "k = length (t_acceptances (data p)) - length (filter (\<lambda>a. ta_block_hash a \<notin> Some ` set c)
        (t_acceptances (data p)))"
      using execute_Inr [OF 1 [unfolded delete_transaction_acceptances_def]] by (auto simp: Let_def)
    have k': "k + length (t_acceptances (data q)) = length (t_acceptances (data p))"
      by (simp add: q k)
    have "filter (\<lambda>a. ta_block_hash a \<notin> Some ` set (concat (c # cs))) (t_acceptances (data p)) =
        filter (\<lambda>a. ta_block_hash a \<notin> Some ` set (concat cs)) (t_acceptances (data q))"
      by (simp add: q) (rule filter_cong, auto)
    note flt = this and IH = Cons.IH [OF 2]
    have upd: "(data q)\<lparr>t_acceptances := X\<rparr> = (data p)\<lparr>t_acceptances := X\<rparr>" for X
      by (simp add: q)
    have "data p' = (data p)\<lparr>t_acceptances :=
        filter (\<lambda>a. ta_block_hash a \<notin> Some ` set (concat (c # cs))) (t_acceptances (data p))\<rparr>"
      using IH by (simp only: flt upd)
    moreover have "m + length (t_acceptances (data p')) = acc + length (t_acceptances (data p))"
      using IH k' by linarith
    ultimately show ?case by blast
  qed
  note loop [OF assms [unfolded write_chunks_run [OF n]], unfolded concat_chunks_of [OF n] add_0]
  then show ?thesis .
qed

end
