(* ===== verification/Pipeline.thy ===== *)
theory Pipeline
  imports Mapping Writers
begin

text \<open>
  What the components pass to each other: checkpoint blocks, the queue elements of the block
  fetcher, the settings, and the metrics record every component writes its progress into
  (\<open>indexer/src/checkpoint.rs\<close>, \<open>blocks/fetch_blocks.rs\<close>, \<open>settings.rs\<close>,
  \<open>web/model/metrics.rs\<close>). The functions of other crates that several components call are
  the fields of the record \<open>libs\<close>, an argument of the definitions that use them.
\<close>

section \<open>Functions of other crates\<close>

record libs =
  hex_encode :: "byte list \<Rightarrow> string"          \<comment> \<open>\<open>hex::encode\<close>\<close>
  hash_to_string :: "hash \<Rightarrow> string"           \<comment> \<open>\<open>Display\<close> of \<open>VecnoHash\<close>\<close>
  hash_from_str :: "string \<Rightarrow> hash option"      \<comment> \<open>\<open>VecnoHash::from_str\<close>\<close>
  hex_decode :: "string \<Rightarrow> byte list option"    \<comment> \<open>PostgreSQL \<open>decode($1, 'hex')\<close>\<close>
  millis_ok :: "int \<Rightarrow> bool"                    \<comment> \<open>\<open>DateTime::from_timestamp_millis\<close> is \<open>Some\<close>\<close>
  payload_to_string :: "string \<Rightarrow> string"       \<comment> \<open>\<open>Address::payload_to_string\<close>\<close>
  blue_work_bytes :: "nat \<Rightarrow> byte list"         \<comment> \<open>\<open>BlueWorkType::to_be_bytes_var\<close>\<close>

text \<open>The round trip the program relies on: a hash printed in hex parses back, as a hash
  and as bytes.\<close>

definition libs_ok :: "libs \<Rightarrow> bool" where
  "libs_ok L \<longleftrightarrow>
     (\<forall>h. length (as_bytes h) = 32 \<longrightarrow>
        hash_from_str L (hex_encode L (as_bytes h)) = Some h
        \<and> hex_decode L (hex_encode L (as_bytes h)) = Some (as_bytes h))"

text \<open>\<open>t as i64 / 1000 * 1000\<close>: division truncates towards zero.\<close>

definition whole_seconds :: "u64 \<Rightarrow> int" where
  "whole_seconds t = sgn (as_i64 t) * (\<bar>as_i64 t\<bar> div 1000 * 1000)"

section \<open>The cache of known hashes\<close>

text \<open>The moka cache: what \<open>contains_key\<close> answers may expire with any call.\<close>

record 'c cache_ops =
  cache_contains :: "'c \<Rightarrow> hash \<Rightarrow> bool \<times> 'c"
  cache_insert :: "'c \<Rightarrow> hash \<Rightarrow> 'c"

text \<open>
  What is documented of the cache: it answers yes only for keys inserted before; \<open>keys\<close>
  bounds what it may still hold. It may forget any key at any time.
\<close>

definition cache_ok :: "'c cache_ops \<Rightarrow> ('c \<Rightarrow> hash set) \<Rightarrow> bool" where
  "cache_ok ops keys \<longleftrightarrow>
     (\<forall>c h. (fst (cache_contains ops c h) \<longrightarrow> h \<in> keys c) \<and> keys (snd (cache_contains ops c h)) \<subseteq> keys c
       \<and> keys (cache_insert ops c h) \<subseteq> insert h (keys c))"

section \<open>Queue elements and settings\<close>

datatype checkpoint_origin = OriginBlocks | OriginTransactions | OriginVcp | OriginInitial

record checkpoint_block =
  cb_origin :: checkpoint_origin
  cb_hash :: hash
  cb_timestamp :: u64
  cb_daa_score :: u64
  cb_blue_score :: u64

record block_data =
  bd_block :: rpc_block
  bd_synced :: bool

record transaction_data =
  td_transactions :: "rpc_transaction list"
  td_block_hash :: hash
  td_block_timestamp :: u64
  td_block_daa_score :: u64
  td_block_blue_score :: u64

record settings =
  s_cli_args :: cli_args
  s_net_bps :: byte
  s_net_tps_max :: u16
  s_checkpoint :: hash
  s_disable_vcp_wait_for_sync :: bool

section \<open>Metrics\<close>

record metrics_block =
  mb_hash :: string
  mb_timestamp :: u64
  mb_date_time :: int
  mb_daa_score :: u64
  mb_blue_score :: u64

record metrics_queues =
  mq_blocks :: u64
  mq_blocks_capacity :: u64
  mq_transactions :: u64
  mq_transactions_capacity :: u64

record metrics_checkpoint =
  mc_origin :: "checkpoint_origin option"
  mc_block :: "metrics_block option"

record metrics_utxo_importer =
  mu_enabled :: bool
  mu_completed :: "bool option"
  mu_utxos_imported :: "u64 option"
  mu_acceptances_committed :: "u64 option"
  mu_outputs_committed :: "u64 option"

record metrics_block_fetcher =
  mf_last_block :: "metrics_block option"

record metrics_block_processor =
  mk_last_block :: "metrics_block option"

record metrics_transaction_processor =
  mp_enabled :: bool
  mp_last_block :: "metrics_block option"

record metrics_vcp =
  mv_enabled :: bool
  mv_only_blocks :: bool
  mv_tip_distance :: "u64 option"
  mv_tip_distance_timestamp :: "u64 option"
  mv_tip_distance_date_time :: "int option"
  mv_last_block :: "metrics_block option"

record pruner_result =
  pr_start_time :: int
  pr_cutoff_time :: int
  pr_success :: "bool option"
  pr_duration :: "nat option"
  pr_rows_deleted :: "nat option"

record metrics_pruner =
  md_enabled :: bool
  md_cron :: "string option"
  md_running :: "bool option"
  md_start_time :: "int option"
  md_retention :: "(string \<rightharpoonup> string option) option"
  md_results :: "(string \<rightharpoonup> pruner_result) option"
  md_completed_time :: "int option"
  md_completed_successfully :: "bool option"

text \<open>\<open>Metrics\<close> and \<open>MetricsComponent\<close>, in one record.\<close>

record metrics =
  me_settings :: "settings option"
  me_queues :: metrics_queues
  me_checkpoint :: metrics_checkpoint
  me_utxo_importer :: metrics_utxo_importer
  me_block_fetcher :: metrics_block_fetcher
  me_block_processor :: metrics_block_processor
  me_transaction_processor :: metrics_transaction_processor
  me_vcp :: metrics_vcp
  me_db_pruner :: metrics_pruner

text \<open>The constructors.\<close>

definition metrics_queues_new :: metrics_queues where
  "metrics_queues_new = \<lparr>mq_blocks = 0, mq_blocks_capacity = 0, mq_transactions = 0, mq_transactions_capacity = 0\<rparr>"

definition metrics_checkpoint_new :: metrics_checkpoint where
  "metrics_checkpoint_new = \<lparr>mc_origin = None, mc_block = None\<rparr>"

definition metrics_utxo_importer_new :: metrics_utxo_importer where
  "metrics_utxo_importer_new = \<lparr>mu_enabled = False, mu_completed = None, mu_utxos_imported = None,
     mu_acceptances_committed = None, mu_outputs_committed = None\<rparr>"

definition metrics_block_fetcher_new :: metrics_block_fetcher where
  "metrics_block_fetcher_new = \<lparr>mf_last_block = None\<rparr>"

definition metrics_block_processor_new :: metrics_block_processor where
  "metrics_block_processor_new = \<lparr>mk_last_block = None\<rparr>"

definition metrics_transaction_processor_new :: metrics_transaction_processor where
  "metrics_transaction_processor_new = \<lparr>mp_enabled = False, mp_last_block = None\<rparr>"

definition metrics_vcp_new :: metrics_vcp where
  "metrics_vcp_new = \<lparr>mv_enabled = False, mv_only_blocks = False, mv_tip_distance = None,
     mv_tip_distance_timestamp = None, mv_tip_distance_date_time = None, mv_last_block = None\<rparr>"

definition metrics_pruner_new :: metrics_pruner where
  "metrics_pruner_new = \<lparr>md_enabled = False, md_cron = None, md_running = None, md_start_time = None,
     md_retention = None, md_results = None, md_completed_time = None, md_completed_successfully = None\<rparr>"

definition metrics_new :: metrics where
  "metrics_new = \<lparr>me_settings = None, me_queues = metrics_queues_new, me_checkpoint = metrics_checkpoint_new,
     me_utxo_importer = metrics_utxo_importer_new, me_block_fetcher = metrics_block_fetcher_new,
     me_block_processor = metrics_block_processor_new,
     me_transaction_processor = metrics_transaction_processor_new, me_vcp = metrics_vcp_new,
     me_db_pruner = metrics_pruner_new\<rparr>"

lemmas metrics_news = metrics_queues_new_def metrics_checkpoint_new_def metrics_utxo_importer_new_def
  metrics_block_fetcher_new_def metrics_block_processor_new_def metrics_transaction_processor_new_def
  metrics_vcp_new_def metrics_pruner_new_def metrics_new_def

text \<open>\<open>From<CheckpointBlock> for MetricsBlock\<close>: a timestamp chrono cannot hold panics.\<close>

definition metrics_block_of :: "libs \<Rightarrow> checkpoint_block \<Rightarrow> panic + metrics_block" where
  "metrics_block_of L c =
     (if millis_ok L (as_i64 (cb_timestamp c))
      then Inr \<lparr>mb_hash = hash_to_string L (cb_hash c), mb_timestamp = cb_timestamp c,
        mb_date_time = as_i64 (cb_timestamp c), mb_daa_score = cb_daa_score c,
        mb_blue_score = cb_blue_score c\<rparr>
      else Inl (Panic unwrap_msg))"

text \<open>\<open>update_last_block\<close>: only a higher DAA score replaces the last block.\<close>

definition newer_block :: "metrics_block option \<Rightarrow> metrics_block \<Rightarrow> metrics_block option" where
  "newer_block old b =
     (case old of None \<Rightarrow> Some b
      | Some a \<Rightarrow> if mb_daa_score a < mb_daa_score b then Some b else old)"

definition fetcher_update_last_block :: "metrics_block \<Rightarrow> metrics_block_fetcher \<Rightarrow> metrics_block_fetcher" where
  "fetcher_update_last_block b c = c\<lparr>mf_last_block := newer_block (mf_last_block c) b\<rparr>"

definition processor_update_last_block :: "metrics_block \<Rightarrow> metrics_block_processor \<Rightarrow> metrics_block_processor" where
  "processor_update_last_block b c = c\<lparr>mk_last_block := newer_block (mk_last_block c) b\<rparr>"

definition update_last_block :: "metrics_block \<Rightarrow> metrics_transaction_processor \<Rightarrow> metrics_transaction_processor" where
  "update_last_block b c = c\<lparr>mp_last_block := newer_block (mp_last_block c) b\<rparr>"

definition vcp_update_last_block :: "metrics_block \<Rightarrow> metrics_vcp \<Rightarrow> metrics_vcp" where
  "vcp_update_last_block b v = v\<lparr>mv_last_block := newer_block (mv_last_block v) b\<rparr>"

text \<open>The DAA score a component reports never goes back.\<close>

lemma newer_block_mono:
  "\<exists>c. newer_block old b = Some c \<and> mb_daa_score b \<le> mb_daa_score c
     \<and> (\<forall>a. old = Some a \<longrightarrow> mb_daa_score a \<le> mb_daa_score c)"
  by (auto simp: newer_block_def split: option.splits)

section \<open>Clocks\<close>

text \<open>\<open>Instant::now().duration_since(t).as_secs()\<close>, in nanoseconds; saturating at zero.\<close>

definition secs_since :: "nat \<Rightarrow> nat \<Rightarrow> nat" where
  "secs_since now t = (now - t) div 10 ^ 9"

section \<open>A concrete instance of the other crates' functions\<close>

definition sample_libs :: libs where
  "sample_libs = \<lparr>hex_encode = map (char_of \<circ> unat),
     hash_to_string = (\<lambda>h. map (char_of \<circ> unat) (as_bytes h)),
     hash_from_str = (\<lambda>s. Some (Hash (map (\<lambda>c. word_of_nat (of_char c)) s))),
     hex_decode = (\<lambda>s. Some (map (\<lambda>c. word_of_nat (of_char c)) s)),
     millis_ok = (\<lambda>_. True), payload_to_string = id, blue_work_bytes = (\<lambda>_. [])\<rparr>"

definition sample_mapper :: mapper where
  "sample_mapper = \<lparr>
     m_block_accepted_id_merkle_root = True, m_block_merge_set_blues_hashes = True,
     m_block_merge_set_reds_hashes = True, m_block_selected_parent_hash = True, m_block_bits = True,
     m_block_blue_work = True, m_block_blue_score = True, m_block_daa_score = True,
     m_block_hash_merkle_root = True, m_block_nonce = True, m_block_pruning_point = True,
     m_block_timestamp = True, m_block_utxo_commitment = True, m_block_version = True,
     m_tx_subnetwork_id = True, m_tx_hash = True, m_tx_mass = True, m_tx_payload = True,
     m_tx_block_time = True, m_tx_in_previous_outpoint = True, m_tx_in_signature_script = True,
     m_tx_in_sig_op_count = True, m_tx_in_block_time = True, m_tx_out_amount = True,
     m_tx_out_script_public_key = True, m_tx_out_script_public_key_address = True,
     m_tx_out_block_time = True\<rparr>"

definition list_cache :: "hash list cache_ops" where
  "list_cache = \<lparr>cache_contains = (\<lambda>c h. (h \<in> set c, c)), cache_insert = (\<lambda>c h. h # c)\<rparr>"

lemma list_cache_ok: "cache_ok list_cache set"
  by (auto simp: cache_ok_def list_cache_def)

end
