(* ===== verification/Process_Transactions.thy ===== *)
theory Process_Transactions
  imports Pipeline
begin

text \<open>
  The transaction processor (\<open>indexer/src/transactions/process_transactions.rs\<close>): one step
  pops a block's transactions, maps the unknown ones into the pending batch, and commits the
  batch when it is large or old enough. The cache of known transaction identifiers is the
  moka crate's and a parameter; tasks spawned together run their statements in the order of
  the parameter \<open>mrg\<close>.
\<close>

section \<open>The insert tasks\<close>

definition insert_txs :: "(nat \<Rightarrow> nat \<Rightarrow> nat list) \<Rightarrow> f64 \<Rightarrow> int \<Rightarrow> transaction_row list \<Rightarrow> statement list" where
  "insert_txs sched scale concurrency values =
     chunk_task sched (nat concurrency) ''Insert transactions FAILED'' (batch_u16 250 8000 scale)
       insert_transactions (sort_key tx_id values)"

definition insert_tx_inputs ::
  "(nat \<Rightarrow> nat \<Rightarrow> nat list) \<Rightarrow> f64 \<Rightarrow> int \<Rightarrow> bool \<Rightarrow> transaction_input_row list \<Rightarrow> statement list" where
  "insert_tx_inputs sched scale concurrency resolve_previous_outpoints values =
     chunk_task sched (nat concurrency) ''Insert transaction_inputs FAILED'' (batch_u16 250 8000 scale)
       (insert_transaction_inputs resolve_previous_outpoints)
       (sort_key (\<lambda>i. (in_transaction_id i, in_index i)) values)"

definition insert_tx_outputs ::
  "(nat \<Rightarrow> nat \<Rightarrow> nat list) \<Rightarrow> f64 \<Rightarrow> int \<Rightarrow> transaction_output_row list \<Rightarrow> statement list" where
  "insert_tx_outputs sched scale concurrency values =
     chunk_task sched (nat concurrency) ''Insert transactions_outputs FAILED'' (batch_u16 250 10000 scale)
       insert_transaction_outputs (sort_key (\<lambda>r. (out_transaction_id r, out_index r)) values)"

definition insert_input_tx_addr :: "f64 \<Rightarrow> bool \<Rightarrow> hash list \<Rightarrow> statement list" where
  "insert_input_tx_addr scale use_tx values =
     loop_task ''Insert input addresses_transactions FAILED'' (batch_u16 250 8000 scale)
       (insert_address_transactions_from_inputs use_tx) values"

definition insert_input_tx_script :: "f64 \<Rightarrow> bool \<Rightarrow> hash list \<Rightarrow> statement list" where
  "insert_input_tx_script scale use_tx values =
     loop_task ''Insert input scripts_transactions FAILED'' (batch_u16 250 8000 scale)
       (insert_script_transactions_from_inputs use_tx) values"

definition insert_output_tx_addr ::
  "(nat \<Rightarrow> nat \<Rightarrow> nat list) \<Rightarrow> f64 \<Rightarrow> int \<Rightarrow> address_transaction_row list \<Rightarrow> statement list" where
  "insert_output_tx_addr sched scale concurrency values =
     chunk_task sched (nat concurrency) ''Insert output addresses_transactions FAILED''
       (batch_u16 250 20000 scale) insert_address_transactions
       (sort_key (\<lambda>a. (at_address a, at_transaction_id a)) values)"

definition insert_output_tx_script ::
  "(nat \<Rightarrow> nat \<Rightarrow> nat list) \<Rightarrow> f64 \<Rightarrow> int \<Rightarrow> script_transaction_row list \<Rightarrow> statement list" where
  "insert_output_tx_script sched scale concurrency values =
     chunk_task sched (nat concurrency) ''Insert output scripts_transactions FAILED''
       (batch_u16 250 20000 scale) insert_script_transactions
       (sort_key (\<lambda>s. (st_script_public_key s, st_transaction_id s)) values)"

definition insert_block_txs ::
  "(nat \<Rightarrow> nat \<Rightarrow> nat list) \<Rightarrow> f64 \<Rightarrow> int \<Rightarrow> block_transaction_row list \<Rightarrow> statement list" where
  "insert_block_txs sched scale concurrency values =
     chunk_task sched (nat concurrency) ''Insert block/transaction mappings FAILED''
       (batch_u16 500 30000 scale) insert_block_transactions
       (sort_key (\<lambda>r. (bt_block_hash r, bt_transaction_id r)) values)"

section \<open>The state of the processor\<close>

record 'c tx_state =
  ts_subnetworks :: "string \<rightharpoonup> int"
  ts_cache :: 'c
  ts_transactions :: "transaction_row list"
  ts_block_tx :: "block_transaction_row list"
  ts_inputs :: "transaction_input_row list"
  ts_outputs :: "transaction_output_row list"
  ts_addresses :: "address_transaction_row list"
  ts_scripts :: "script_transaction_row list"
  ts_checkpoints :: "checkpoint_block list"
  ts_last_commit :: nat

text \<open>The switches the loop reads once.\<close>

record tx_config =
  tc_mapper :: mapper
  tc_batch_scale :: f64
  tc_batch_concurrency :: int
  tc_inputs_resolve :: bool
  tc_disable_transactions :: bool
  tc_disable_inputs :: bool
  tc_disable_outputs :: bool
  tc_disable_blocks_transactions :: bool
  tc_disable_addresses :: bool
  tc_exclude_address :: bool
  tc_exclude_script :: bool
  tc_use_tx_for_time :: bool

definition tx_config_of :: "cli_args \<Rightarrow> mapper \<Rightarrow> tx_config" where
  "tx_config_of args m = \<lparr>tc_mapper = m, tc_batch_scale = batch_scale args,
     tc_batch_concurrency = batch_concurrency args,
     tc_inputs_resolve = is_enabled args TransactionsInputsResolve,
     tc_disable_transactions = is_disabled args TransactionsTable,
     tc_disable_inputs = is_disabled args TransactionsInputsTable,
     tc_disable_outputs = is_disabled args TransactionsOutputsTable,
     tc_disable_blocks_transactions = is_disabled args BlocksTransactionsTable,
     tc_disable_addresses = is_disabled args AddressesTransactionsTable,
     tc_exclude_address = is_excluded args TxOutScriptPublicKeyAddress,
     tc_exclude_script = is_excluded args TxOutScriptPublicKey,
     tc_use_tx_for_time = is_excluded args TxInBlockTime\<rparr>"

text \<open>The rows of the subnetworks table fill the map in the order they are read.\<close>

definition tx_start :: "'c \<Rightarrow> nat \<Rightarrow> (pool, panic, 'c tx_state) sem" where
  "tx_start empty_cache now =
     bnd (or_panic ''Select subnetworks FAILED'' select_subnetworks) (\<lambda>rows.
     ret \<lparr>ts_subnetworks = map_of (rev (map (\<lambda>s. (sn_subnetwork_id s, sn_id s)) rows)),
       ts_cache = empty_cache, ts_transactions = [], ts_block_tx = [], ts_inputs = [],
       ts_outputs = [], ts_addresses = [], ts_scripts = [], ts_checkpoints = [],
       ts_last_commit = now\<rparr>)"

text \<open>\<open>IndexSet::extend\<close>: insertion order, the first of equal elements stays.\<close>

definition index_extend :: "('a \<Rightarrow> 'a \<Rightarrow> bool) \<Rightarrow> 'a list \<Rightarrow> 'a list \<Rightarrow> 'a list" where
  "index_extend eq s xs = fold (\<lambda>x s. if \<exists>y\<in>set s. eq x y then s else s @ [x]) xs s"

section \<open>Adding a block's transactions\<close>

definition subnetwork_key_of ::
  "string \<Rightarrow> 'c tx_state \<Rightarrow> (pool, panic, int \<times> 'c tx_state) sem" where
  "subnetwork_key_of subnetwork_id st =
     (case ts_subnetworks st subnetwork_id of
        Some key \<Rightarrow> ret (key, st)
      | None \<Rightarrow>
          bnd (or_panic ''Insert subnetwork FAILED'' (insert_subnetwork subnetwork_id)) (\<lambda>key.
          ret (key, st\<lparr>ts_subnetworks := (ts_subnetworks st)(subnetwork_id \<mapsto> key)\<rparr>)))"

text \<open>The rows of one unknown transaction, appended to the batch.\<close>

definition map_new_transaction ::
  "libs \<Rightarrow> tx_config \<Rightarrow> rpc_transaction \<Rightarrow> int \<Rightarrow> 'c tx_state \<Rightarrow> panic + 'c tx_state" where
  "map_new_transaction L cfg t key st =
     (let m = tc_mapper cfg in
      sbind (map_transaction m t key) (\<lambda>row.
      sbind (map_transaction_inputs m t) (\<lambda>inputs.
      sbind (map_transaction_outputs (payload_to_string L) m t) (\<lambda>outputs.
      let st' = st\<lparr>ts_transactions := ts_transactions st @ [row], ts_inputs := ts_inputs st @ inputs,
                  ts_outputs := ts_outputs st @ outputs\<rparr> in
      if tc_disable_addresses cfg then Inr st'
      else if \<not> tc_exclude_address cfg then
        sbind (map_transaction_outputs_address (payload_to_string L) t) (\<lambda>rows.
          Inr (st'\<lparr>ts_addresses := index_extend address_transaction_eq (ts_addresses st') rows\<rparr>))
      else if \<not> tc_exclude_script cfg then
        sbind (map_transaction_outputs_script t) (\<lambda>rows.
          Inr (st'\<lparr>ts_scripts := index_extend script_transaction_eq (ts_scripts st') rows\<rparr>))
      else Inr st'))))"

text \<open>A known transaction leaves the batch alone; an unknown one is mapped and remembered.\<close>

definition enter_transaction ::
  "libs \<Rightarrow> 'c cache_ops \<Rightarrow> tx_config \<Rightarrow> rpc_transaction \<Rightarrow> hash \<Rightarrow> int \<Rightarrow> 'c tx_state \<Rightarrow>
     panic + 'c tx_state" where
  "enter_transaction L ops cfg t transaction_id key st =
     (let (known, cache) = cache_contains ops (ts_cache st) transaction_id;
          st1 = st\<lparr>ts_cache := cache\<rparr> in
      if known then Inr st1
      else sbind (map_new_transaction L cfg t key st1) (\<lambda>st2.
        Inr (st2\<lparr>ts_cache := cache_insert ops (ts_cache st2) transaction_id\<rparr>)))"

definition add_transaction ::
  "libs \<Rightarrow> 'c cache_ops \<Rightarrow> tx_config \<Rightarrow> rpc_transaction \<Rightarrow> 'c tx_state \<Rightarrow>
     (pool, panic, 'c tx_state) sem" where
  "add_transaction L ops cfg t st =
     bnd (subnetwork_key_of (rt_subnetwork_id t) st) (\<lambda>(key, st1).
     bnd (lift_res (expect unwrap_msg (rt_verbose t))) (\<lambda>v.
     bnd (lift_res (enter_transaction L ops cfg t (tv_transaction_id v) key st1)) (\<lambda>st2.
     bnd (lift_res (map_block_transaction t)) (\<lambda>row.
     ret (st2\<lparr>ts_block_tx := ts_block_tx st2 @ [row]\<rparr>)))))"

fun add_transactions ::
  "libs \<Rightarrow> 'c cache_ops \<Rightarrow> tx_config \<Rightarrow> rpc_transaction list \<Rightarrow> 'c tx_state \<Rightarrow>
     (pool, panic, 'c tx_state) sem" where
  "add_transactions L ops cfg [] st = ret st"
| "add_transactions L ops cfg (t # ts) st =
     bnd (add_transaction L ops cfg t st) (add_transactions L ops cfg ts)"

section \<open>Committing the batch\<close>

text \<open>
  Resolving inputs from the outputs of the same batch. The hash map keeps the last output
  under a key.
\<close>

fun resolve_from_batch ::
  "transaction_output_row list \<Rightarrow> transaction_input_row \<Rightarrow> panic + transaction_input_row" where
  "resolve_from_batch outs i =
     (case (in_previous_outpoint_hash i, in_previous_outpoint_index i) of
        (Some h, Some k) \<Rightarrow>
          (case map_of (rev (map (\<lambda>r. ((out_transaction_id r, out_index r), r)) outs)) (h, k) of
             None \<Rightarrow> Inr i
           | Some r \<Rightarrow> Inr (i\<lparr>in_previous_outpoint_script := out_script_public_key r,
               in_previous_outpoint_amount := out_amount r\<rparr>))
      | _ \<Rightarrow> Inl (Panic unwrap_msg))"

definition batch_ready :: "tx_config \<Rightarrow> nat \<Rightarrow> 'c tx_state \<Rightarrow> bool" where
  "batch_ready cfg now st \<longleftrightarrow>
     f64_as_unsigned 64 (f64_scale 5000 (tc_batch_scale cfg)) \<le> length (ts_block_tx st)
     \<or> (ts_block_tx st \<noteq> [] \<and> secs_since now (ts_last_commit st) > 2)"

text \<open>
  The tasks spawned first: a panic while resolving stops the processor before the inputs and
  the outputs are spawned.
\<close>

definition commit_tasks ::
  "(nat \<Rightarrow> nat \<Rightarrow> nat list) \<Rightarrow> tx_config \<Rightarrow> 'c tx_state \<Rightarrow> statement list list" where
  "commit_tasks sched cfg st =
     (let s = tc_batch_scale cfg; c = tc_batch_concurrency cfg;
          tx = (if tc_disable_transactions cfg then [] else insert_txs sched s c (ts_transactions st));
          addr = (if tc_disable_addresses cfg then []
            else if \<not> tc_exclude_address cfg then insert_output_tx_addr sched s c (ts_addresses st)
            else if \<not> tc_exclude_script cfg then insert_output_tx_script sched s c (ts_scripts st)
            else []);
          outs = (if tc_disable_outputs cfg then [] else insert_tx_outputs sched s c (ts_outputs st)) in
      if tc_disable_inputs cfg then [tx, addr, [], outs]
      else case (if tc_inputs_resolve cfg then traverse (resolve_from_batch (ts_outputs st)) (ts_inputs st)
                 else Inr (ts_inputs st)) of
        Inl e \<Rightarrow> [tx, addr, [throw e]]
      | Inr ins \<Rightarrow> [tx, addr, insert_tx_inputs sched s c (tc_inputs_resolve cfg) ins, outs])"

definition relation_tasks ::
  "(nat \<Rightarrow> nat \<Rightarrow> nat list) \<Rightarrow> tx_config \<Rightarrow> 'c tx_state \<Rightarrow> statement list list" where
  "relation_tasks sched cfg st =
     (let s = tc_batch_scale cfg; ids = map tx_id (ts_transactions st) in
      [if tc_disable_blocks_transactions cfg then []
       else insert_block_txs sched s (tc_batch_concurrency cfg) (ts_block_tx st),
       if tc_disable_addresses cfg then []
       else if \<not> tc_exclude_address cfg then insert_input_tx_addr s (tc_use_tx_for_time cfg) ids
       else if \<not> tc_exclude_script cfg then insert_input_tx_script s (tc_use_tx_for_time cfg) ids
       else []])"

text \<open>
  What a commit hands on: the block for the metrics, and the checkpoint blocks it pushes, in
  order, once the data is written. The final log line panics on a time chrono cannot hold.
\<close>

definition commit_batch ::
  "libs \<Rightarrow> (nat \<Rightarrow> nat \<Rightarrow> nat list) \<Rightarrow> (statement list list \<Rightarrow> statement list) \<Rightarrow> tx_config \<Rightarrow> nat \<Rightarrow>
     'c tx_state \<Rightarrow> (pool, panic, 'c tx_state \<times> metrics_block option \<times> checkpoint_block list) sem" where
  "commit_batch L sched mrg cfg now st =
     bnd (run_statements (mrg (commit_tasks sched cfg st))) (\<lambda>_.
     bnd (run_statements (mrg (relation_tasks sched cfg st))) (\<lambda>_.
     bnd (lift_res (if ts_checkpoints st = [] then Inl (Panic unwrap_msg)
                    else Inr (last (ts_checkpoints st)))) (\<lambda>lc.
     bnd (lift_res (metrics_block_of L lc)) (\<lambda>mb.
     bnd (lift_res (if millis_ok L (whole_seconds (cb_timestamp lc)) then Inr ()
                    else Inl (Panic unwrap_msg))) (\<lambda>_.
     ret (st\<lparr>ts_transactions := [], ts_block_tx := [], ts_inputs := [], ts_outputs := [],
              ts_addresses := [], ts_scripts := [], ts_checkpoints := [], ts_last_commit := now\<rparr>,
          Some mb, ts_checkpoints st))))))"

text \<open>
  One round of the loop. \<open>popped\<close> is what \<open>txs_queue.pop()\<close> returned, \<open>now\<close> and \<open>now'\<close> the
  clock at the commit test and after the commit.
\<close>

definition process_transactions_step ::
  "libs \<Rightarrow> 'c cache_ops \<Rightarrow> (nat \<Rightarrow> nat \<Rightarrow> nat list) \<Rightarrow> (statement list list \<Rightarrow> statement list) \<Rightarrow>
     tx_config \<Rightarrow> transaction_data option \<times> nat \<times> nat \<Rightarrow> 'c tx_state \<Rightarrow>
     (pool, panic, 'c tx_state \<times> metrics_block option \<times> checkpoint_block list) sem" where
  "process_transactions_step L ops sched mrg cfg = (\<lambda>(popped, now, now') st.
     case popped of
       None \<Rightarrow> ret (st, None, [])
     | Some td \<Rightarrow>
         bnd (add_transactions L ops cfg (td_transactions td)
                (st\<lparr>ts_checkpoints := ts_checkpoints st @
                   [\<lparr>cb_origin = OriginTransactions, cb_hash = td_block_hash td,
                     cb_timestamp = td_block_timestamp td, cb_daa_score = td_block_daa_score td,
                     cb_blue_score = td_block_blue_score td\<rparr>]\<rparr>)) (\<lambda>st1.
         if batch_ready cfg now st1 then commit_batch L sched mrg cfg now' st1
         else ret (st1, None, [])))"

text \<open>The rounds of the loop up to some point: the state, and the checkpoint blocks pushed so far.\<close>

fun process_transactions_run ::
  "libs \<Rightarrow> 'c cache_ops \<Rightarrow> (nat \<Rightarrow> nat \<Rightarrow> nat list) \<Rightarrow> (statement list list \<Rightarrow> statement list) \<Rightarrow>
     tx_config \<Rightarrow> (transaction_data option \<times> nat \<times> nat) list \<Rightarrow> 'c tx_state \<Rightarrow>
     (pool, panic, 'c tx_state \<times> checkpoint_block list) sem" where
  "process_transactions_run L ops sched mrg cfg [] st = ret (st, [])"
| "process_transactions_run L ops sched mrg cfg (e # es) st =
     bnd (process_transactions_step L ops sched mrg cfg e st) (\<lambda>(st1, _, pushed).
     bnd (process_transactions_run L ops sched mrg cfg es st1) (\<lambda>(st2, more).
     ret (st2, pushed @ more)))"

end
