(* ===== verification/Process_Tx_Props.thy ===== *)
theory Process_Tx_Props
  imports Process_Transactions
begin

text \<open>
  What the transaction processor guarantees: a checkpoint block is handed on only when the
  database holds every transaction of its block and every block relation, whatever the
  known-transaction cache forgets and in whatever order the concurrent statements land.
\<close>

section \<open>No statement of a commit removes a row\<close>

definition grows :: "db \<Rightarrow> db \<Rightarrow> bool" where
  "grows d d' \<longleftrightarrow> set (t_transactions d) \<subseteq> set (t_transactions d')
     \<and> set (t_blocks_transactions d) \<subseteq> set (t_blocks_transactions d')"

lemma grows_refl: "grows d d"
  by (simp add: grows_def)

lemma grows_trans: "grows a b \<Longrightarrow> grows b c \<Longrightarrow> grows a c"
  by (auto simp: grows_def)

interpretation grow: db_relation grows
  by unfold_locales (auto simp: grows_def)

abbreviation adds :: "(pool, 'e, 'a) sem \<Rightarrow> bool" where
  "adds \<equiv> steps grows"

lemma adds_insert_transactions: "adds (insert_transactions rs)"
  by (rule steps_I, frule txs.ins_only, drule txs.ins_keeps) (auto simp: grows_def)

lemma adds_insert_block_transactions: "adds (insert_block_transactions rs)"
  by (rule steps_I, frule block_txs.ins_only, drule block_txs.ins_keeps) (auto simp: grows_def)

lemma adds_insert_outputs: "adds (insert_transaction_outputs rs)"
  by (rule steps_I, drule outputs.ins_only) (auto simp: grows_def)

lemma adds_insert_addresses: "adds (insert_address_transactions rs)"
  by (rule steps_I, drule addr_txs.ins_only) (auto simp: grows_def)

lemma adds_insert_scripts: "adds (insert_script_transactions rs)"
  by (rule steps_I, drule script_txs.ins_only) (auto simp: grows_def)

lemmas adds_inserts = adds_insert_transactions adds_insert_block_transactions adds_insert_outputs
  adds_insert_addresses adds_insert_scripts

lemma adds_inputs: "adds (insert_transaction_inputs b rs)"
  unfolding insert_transaction_inputs_def
  by (rule grow.steps_execute) (auto simp: insert_values_def grows_def split: option.splits prod.splits)

lemma adds_from_inputs:
  "adds (insert_address_transactions_from_inputs b ids)"
  "adds (insert_script_transactions_from_inputs b ids)"
  unfolding insert_address_transactions_from_inputs_def insert_script_transactions_from_inputs_def
  by (rule grow.steps_execute; auto simp: insert_selected_def grows_def split: if_splits prod.splits)+

lemmas task_defs = insert_txs_def insert_tx_inputs_def insert_tx_outputs_def insert_input_tx_addr_def
  insert_input_tx_script_def insert_output_tx_addr_def insert_output_tx_script_def insert_block_txs_def

lemma adds_tasks:
  "op \<in> set (insert_txs sched s c a) \<Longrightarrow> adds op"
  "op \<in> set (insert_tx_inputs sched s c b i) \<Longrightarrow> adds op"
  "op \<in> set (insert_tx_outputs sched s c outs) \<Longrightarrow> adds op"
  "op \<in> set (insert_output_tx_addr sched s c aa) \<Longrightarrow> adds op"
  "op \<in> set (insert_output_tx_script sched s c ss) \<Longrightarrow> adds op"
  "op \<in> set (insert_block_txs sched s c bt) \<Longrightarrow> adds op"
  "op \<in> set (insert_input_tx_addr s b ids) \<Longrightarrow> adds op"
  "op \<in> set (insert_input_tx_script s b ids) \<Longrightarrow> adds op"
  unfolding task_defs
  by (erule grow.steps_chunk_task [rotated] grow.steps_loop_task [rotated], rule adds_inserts adds_inputs adds_from_inputs)+

lemma adds_commit: "op \<in> set (concat (commit_tasks sched cfg st)) \<Longrightarrow> adds op"
  by (auto simp: commit_tasks_def Let_def intro: adds_tasks grow.steps_throw split: if_splits sum.splits)

lemma adds_relations: "op \<in> set (concat (relation_tasks sched cfg st)) \<Longrightarrow> adds op"
  by (auto simp: relation_tasks_def Let_def intro: adds_tasks split: if_splits)

lemma mrg_set: "mrg_ok mrg \<Longrightarrow> set (mrg tasks) = set (concat tasks)"
  unfolding mrg_ok_def by (metis set_mset_mset)

lemma run_grows:
  assumes "run_statements (mrg tasks) p = (r, p')" "mrg_ok mrg"
    and "\<And>op. op \<in> set (concat tasks) \<Longrightarrow> adds op"
  shows "grows (data p) (data p')"
  using grow.steps_merged [OF assms(2,3)] assms(1) by (simp add: steps_def)

section \<open>What is accounted for\<close>

text \<open>
  A transaction of a popped block is covered when its row and its block relation are pending
  or in the database.
\<close>

definition covered :: "hash set \<Rightarrow> block_transaction_row set \<Rightarrow> db \<Rightarrow> rpc_transaction \<Rightarrow> bool" where
  "covered T R d t \<longleftrightarrow> (\<exists>v. rt_verbose t = Some v
     \<and> tv_transaction_id v \<in> T \<union> tx_id ` set (t_transactions d)
     \<and> \<lparr>bt_block_hash = tv_block_hash v, bt_transaction_id = tv_transaction_id v\<rparr>
         \<in> R \<union> set (t_blocks_transactions d))"

abbreviation stored :: "db \<Rightarrow> rpc_transaction \<Rightarrow> bool" where
  "stored d t \<equiv> covered {} {} d t"

abbreviation pending :: "'c tx_state \<Rightarrow> db \<Rightarrow> rpc_transaction \<Rightarrow> bool" where
  "pending st d t \<equiv> covered (tx_id ` set (ts_transactions st)) (set (ts_block_tx st)) d t"

lemma covered_mono: "covered T R d t \<Longrightarrow> T \<subseteq> T' \<Longrightarrow> R \<subseteq> R' \<Longrightarrow> grows d d' \<Longrightarrow> covered T' R' d' t"
  unfolding covered_def grows_def by blast

definition cache_sound :: "('c \<Rightarrow> hash set) \<Rightarrow> 'c tx_state \<Rightarrow> db \<Rightarrow> bool" where
  "cache_sound keys st d \<longleftrightarrow>
     keys (ts_cache st) \<subseteq> tx_id ` set (ts_transactions st) \<union> tx_id ` set (t_transactions d)"

text \<open>
  The statements are about a view of the database that shows at least its rows and grows with
  it: the database itself, or the database with rows that were once there.
\<close>

definition view :: "(db \<Rightarrow> db) \<Rightarrow> bool" where
  "view V \<longleftrightarrow> (\<forall>d. grows d (V d)) \<and> (\<forall>d d'. grows d d' \<longrightarrow> grows (V d) (V d'))"

lemma view_id: "view (\<lambda>d. d)"
  by (simp add: view_def grows_refl)

text \<open>The batch only grows while transactions are added.\<close>

definition extends :: "'c tx_state \<Rightarrow> db \<Rightarrow> 'c tx_state \<Rightarrow> db \<Rightarrow> bool" where
  "extends st d st' d' \<longleftrightarrow> grows d d' \<and> set (ts_transactions st) \<subseteq> set (ts_transactions st')
     \<and> set (ts_block_tx st) \<subseteq> set (ts_block_tx st') \<and> ts_checkpoints st' = ts_checkpoints st"

lemma extends_refl: "extends st d st d"
  by (simp add: extends_def grows_refl)

lemma extends_trans: "extends a d b e \<Longrightarrow> extends b e c f \<Longrightarrow> extends a d c f"
  by (auto simp: extends_def intro: grows_trans)

lemma extends_pending: "extends st d st' d' \<Longrightarrow> pending st d t \<Longrightarrow> pending st' d' t"
  by (erule covered_mono) (auto simp: extends_def)

lemma adds_insert_subnetwork: "adds (insert_subnetwork s)"
  unfolding insert_subnetwork_def by (rule grow.steps_execute) (auto simp: grows_def split: if_splits)

lemma subnetwork_key_of_Inr:
  assumes "subnetwork_key_of s st p = (Inr (key, st'), p')"
  shows "grows (data p) (data p') \<and> ts_transactions st' = ts_transactions st
    \<and> ts_block_tx st' = ts_block_tx st \<and> ts_cache st' = ts_cache st
    \<and> ts_checkpoints st' = ts_checkpoints st"
  using assms adds_insert_subnetwork [of s]
  by (auto simp: subnetwork_key_of_def ret_def bnd_Inr_iff steps_def grows_refl split: option.splits)

lemma map_new_transaction_Inr:
  assumes "map_new_transaction L cfg t key st = Inr st'" "rt_verbose t = Some v"
  shows "\<exists>row. tx_id row = tv_transaction_id v \<and> ts_transactions st' = ts_transactions st @ [row]"
    and "ts_block_tx st' = ts_block_tx st" "ts_cache st' = ts_cache st"
    "ts_checkpoints st' = ts_checkpoints st"
  using assms
  by (auto simp: map_new_transaction_def mapping_defs sbind_Inr_iff Let_def split: if_splits)

lemma cache_sound_shrink:
  "cache_sound keys st d \<Longrightarrow> keys c \<subseteq> keys (ts_cache st) \<Longrightarrow> cache_sound keys (st\<lparr>ts_cache := c\<rparr>) d"
  by (auto simp: cache_sound_def)

lemma cache_sound_grows:
  assumes "cache_sound keys st d" "grows d d'" "ts_cache st' = ts_cache st"
    "ts_transactions st' = ts_transactions st"
  shows "cache_sound keys st' d'"
proof -
  have "tx_id ` set (t_transactions d) \<subseteq> tx_id ` set (t_transactions d')"
    using assms(2) by (intro image_mono) (simp add: grows_def)
  then show ?thesis using assms(1,3,4) unfolding cache_sound_def by (simp only:) blast
qed

lemma enter_transaction_Inr:
  assumes "enter_transaction L ops cfg t (tv_transaction_id v) key st = Inr st'" "rt_verbose t = Some v"
    and "cache_ok ops keys" "cache_sound keys st d"
  shows "extends st d st' d \<and> cache_sound keys st' d
    \<and> tv_transaction_id v \<in> tx_id ` set (ts_transactions st') \<union> tx_id ` set (t_transactions d)"
proof -
  let ?c = "cache_contains ops (ts_cache st) (tv_transaction_id v)"
  have ck: "fst ?c \<longrightarrow> tv_transaction_id v \<in> keys (ts_cache st)" "keys (snd ?c) \<subseteq> keys (ts_cache st)"
    using assms(3) by (auto simp: cache_ok_def)
  show ?thesis
  proof (cases "fst ?c")
    case True
    then have st': "st' = st\<lparr>ts_cache := snd ?c\<rparr>"
      using assms(1) by (simp add: enter_transaction_def Let_def split_beta)
    have "cache_sound keys st' d" unfolding st' by (rule cache_sound_shrink [OF assms(4) ck(2)])
    then show ?thesis using ck(1) True assms(4)
      by (auto simp: st' extends_def grows_refl cache_sound_def)
  next
    case False
    then obtain st2 where st2: "map_new_transaction L cfg t key (st\<lparr>ts_cache := snd ?c\<rparr>) = Inr st2"
      "st' = st2\<lparr>ts_cache := cache_insert ops (ts_cache st2) (tv_transaction_id v)\<rparr>"
      using assms(1) by (auto simp: enter_transaction_def Let_def split_beta sbind_Inr_iff)
    from map_new_transaction_Inr [OF st2(1) assms(2)] obtain r where r: "tx_id r = tv_transaction_id v"
      "ts_transactions st2 = ts_transactions st @ [r]" "ts_block_tx st2 = ts_block_tx st"
      "ts_cache st2 = snd ?c" "ts_checkpoints st2 = ts_checkpoints st" by auto
    have "keys (ts_cache st') \<subseteq> insert (tv_transaction_id v) (keys (snd ?c))"
      using assms(3) r(4) by (simp add: st2(2) cache_ok_def)
    with ck(2) have "keys (ts_cache st') \<subseteq> insert (tv_transaction_id v) (keys (ts_cache st))" by blast
    then show ?thesis
      using assms(4) r by (auto simp: st2(2) extends_def grows_refl cache_sound_def)
  qed
qed

lemma add_transaction_Inr:
  assumes "add_transaction L ops cfg t st p = (Inr st', p')" "cache_ok ops keys"
    "view V" "cache_sound keys st (V (data p))"
  shows "extends st (V (data p)) st' (V (data p')) \<and> pending st' (V (data p')) t \<and> cache_sound keys st' (V (data p'))"
proof -
  from assms(1) obtain key st1 v st2 where
    sub: "subnetwork_key_of (rt_subnetwork_id t) st p = (Inr (key, st1), p')" and
    v: "rt_verbose t = Some v" and
    enter: "enter_transaction L ops cfg t (tv_transaction_id v) key st1 = Inr st2" and
    st': "st' = st2\<lparr>ts_block_tx := ts_block_tx st2 @
       [\<lparr>bt_block_hash = tv_block_hash v, bt_transaction_id = tv_transaction_id v\<rparr>]\<rparr>"
    by (auto simp: add_transaction_def bnd_Inr_iff lift_res_def ret_def map_block_transaction_def)
  note s1 = subnetwork_key_of_Inr [OF sub]
  have sound1: "cache_sound keys st1 (V (data p'))"
    using cache_sound_grows [OF assms(4)] s1 assms(3) unfolding view_def by blast
  note e = enter_transaction_Inr [OF enter v assms(2) sound1]
  moreover have "grows (V (data p)) (V (data p'))" using s1 assms(3) by (simp add: view_def)
  ultimately show ?thesis using s1 v by (auto simp: st' extends_def cache_sound_def covered_def)
qed

lemma add_transactions_Inr:
  assumes "add_transactions L ops cfg ts st p = (Inr st', p')" "cache_ok ops keys"
    "view V" "cache_sound keys st (V (data p))"
  shows "extends st (V (data p)) st' (V (data p')) \<and> (\<forall>t\<in>set ts. pending st' (V (data p')) t)
    \<and> cache_sound keys st' (V (data p'))"
  using assms(1,4)
proof (induction ts arbitrary: st p)
  case Nil
  then show ?case by (simp add: ret_def extends_refl)
next
  case (Cons t ts)
  then obtain st1 p1 where 1: "add_transaction L ops cfg t st p = (Inr st1, p1)"
    and 2: "add_transactions L ops cfg ts st1 p1 = (Inr st', p')"
    by (auto simp: bnd_Inr_iff)
  note a = add_transaction_Inr [OF 1 assms(2,3) Cons.prems(2)]
  then have "cache_sound keys st1 (V (data p1))" by blast
  note b = Cons.IH [OF 2 this]
  show ?case using a b extends_trans [of st "V (data p)" st1 "V (data p1)" st' "V (data p')"]
      extends_pending [of st1 "V (data p1)" st' "V (data p')" t] by auto
qed

lemma add_transactions_grows:
  "add_transactions L ops cfg ts st p = (Inr st', p') \<Longrightarrow> grows (data p) (data p')"
proof (induction ts arbitrary: st p)
  case (Cons t ts)
  then obtain st1 p1 where 1: "add_transaction L ops cfg t st p = (Inr st1, p1)"
    and 2: "add_transactions L ops cfg ts st1 p1 = (Inr st', p')"
    by (auto simp: bnd_Inr_iff)
  from 1 obtain key st2 where "subnetwork_key_of (rt_subnetwork_id t) st p = (Inr (key, st2), p1)"
    by (auto simp: add_transaction_def bnd_Inr_iff lift_res_def ret_def)
  with Cons.IH [OF 2] show ?case using subnetwork_key_of_Inr grows_trans by blast
qed (simp add: ret_def grows_refl)

section \<open>A commit stores what is pending\<close>

lemma block_transaction_stored:
  assumes "block_transaction_key r \<in> block_transaction_key ` set rs"
  shows "r \<in> set rs"
proof -
  from assms obtain x where "x \<in> set rs" "bt_block_hash r = bt_block_hash x"
    "bt_transaction_id r = bt_transaction_id x" by (auto simp: block_transaction_key_def)
  then show ?thesis by (metis block_transaction_row.equality old.unit.exhaust)
qed

lemma commit_batch_Inr:
  assumes run: "commit_batch L sched mrg cfg now st p = (Inr (st', mb, pushed), p')"
    and ok: "sched_ok sched" "mrg_ok mrg" "1 \<le> tc_batch_concurrency cfg"
    and on: "\<not> tc_disable_transactions cfg" "\<not> tc_disable_blocks_transactions cfg"
  shows "pushed = ts_checkpoints st \<and> ts_checkpoints st' = [] \<and> ts_cache st' = ts_cache st
    \<and> ts_transactions st' = [] \<and> ts_block_tx st' = [] \<and> grows (data p) (data p')
    \<and> tx_id ` set (ts_transactions st) \<subseteq> tx_id ` set (t_transactions (data p'))
    \<and> set (ts_block_tx st) \<subseteq> set (t_blocks_transactions (data p'))"
proof -
  from run obtain n1 q n2 where
    r1: "run_statements (mrg (commit_tasks sched cfg st)) p = (Inr n1, q)" and
    r2: "run_statements (mrg (relation_tasks sched cfg st)) q = (Inr n2, p')" and
    st': "st' = st\<lparr>ts_transactions := [], ts_block_tx := [], ts_inputs := [], ts_outputs := [],
              ts_addresses := [], ts_scripts := [], ts_checkpoints := [], ts_last_commit := now\<rparr>"
      "pushed = ts_checkpoints st"
    by (auto simp: commit_batch_def bnd_Inr_iff lift_res_def ret_def)
  have g1: "grows (data p) (data q)" by (rule run_grows [OF r1 ok(2) adds_commit])
  have g2: "grows (data q) (data p')" by (rule run_grows [OF r2 ok(2) adds_relations])
  have k: "0 < nat (tc_batch_concurrency cfg)" using ok(3) by simp
  have "transaction_key t \<in> transaction_key ` set (t_transactions (data q))"
    if "t \<in> set (ts_transactions st)" for t
  proof (rule txs.run_covers [OF r1 _ ok(1) k])
    show "set (chunk_task sched (nat (tc_batch_concurrency cfg)) ''Insert transactions FAILED''
        (batch_u16 250 8000 (tc_batch_scale cfg)) insert_transactions
        (sort_key tx_id (ts_transactions st))) \<subseteq> set (mrg (commit_tasks sched cfg st))"
      using on(1) by (auto simp: mrg_set [OF ok(2)] commit_tasks_def insert_txs_def Let_def split: sum.splits)
    show "set (t_transactions (data p)) \<subseteq> set (t_transactions (data p'))"
      if "op \<in> set (mrg (commit_tasks sched cfg st))" "op p = (r, p')" for op p r p'
      using adds_commit [of op sched cfg st] that unfolding mrg_set [OF ok(2)] steps_def grows_def by blast
  qed (use that in \<open>simp_all add: transaction_key_def\<close>)
  then have t: "tx_id ` set (ts_transactions st) \<subseteq> tx_id ` set (t_transactions (data p'))"
    using g2 by (fastforce simp: transaction_key_def grows_def)
  have "block_transaction_key b \<in> block_transaction_key ` set (t_blocks_transactions (data p'))"
    if "b \<in> set (ts_block_tx st)" for b
  proof (rule block_txs.run_covers [OF r2 _ ok(1) k])
    show "set (chunk_task sched (nat (tc_batch_concurrency cfg)) ''Insert block/transaction mappings FAILED''
        (batch_u16 500 30000 (tc_batch_scale cfg)) insert_block_transactions
        (sort_key (\<lambda>r. (bt_block_hash r, bt_transaction_id r)) (ts_block_tx st)))
        \<subseteq> set (mrg (relation_tasks sched cfg st))"
      using on(2) by (simp add: mrg_set [OF ok(2)] relation_tasks_def insert_block_txs_def Let_def)
    show "set (t_blocks_transactions (data p)) \<subseteq> set (t_blocks_transactions (data p'))"
      if "op \<in> set (mrg (relation_tasks sched cfg st))" "op p = (r, p')" for op p r p'
      using adds_relations [of op sched cfg st] that unfolding mrg_set [OF ok(2)] steps_def grows_def by blast
  qed (use that in \<open>simp_all add: block_transaction_key_def\<close>)
  then have "set (ts_block_tx st) \<subseteq> set (t_blocks_transactions (data p'))"
    by (blast intro: block_transaction_stored)
  then show ?thesis using t st' grows_trans [OF g1 g2] by simp
qed

section \<open>Checkpoints follow the data\<close>

text \<open>The checkpoint block of a popped element.\<close>

definition checkpoint_of :: "transaction_data \<Rightarrow> checkpoint_block" where
  "checkpoint_of td = \<lparr>cb_origin = OriginTransactions, cb_hash = td_block_hash td,
     cb_timestamp = td_block_timestamp td, cb_daa_score = td_block_daa_score td,
     cb_blue_score = td_block_blue_score td\<rparr>"

text \<open>
  The batch holds the blocks \<open>pend\<close>, in the order popped: one checkpoint block for each, whose
  transactions are covered.
\<close>

definition in_batch :: "transaction_data list \<Rightarrow> 'c tx_state \<Rightarrow> db \<Rightarrow> bool" where
  "in_batch pend st d \<longleftrightarrow> ts_checkpoints st = map checkpoint_of pend
     \<and> (\<forall>td\<in>set pend. \<forall>t\<in>set (td_transactions td). pending st d t)"

definition waiting :: "transaction_data set \<Rightarrow> 'c tx_state \<Rightarrow> db \<Rightarrow> bool" where
  "waiting popped st d \<longleftrightarrow> (\<exists>pend. set pend \<subseteq> popped \<and> in_batch pend st d)"

lemma waiting_empty: "ts_checkpoints st = [] \<Longrightarrow> waiting S st d"
  by (auto simp: waiting_def in_batch_def intro!: exI [of _ "[]"])

definition published :: "transaction_data set \<Rightarrow> checkpoint_block list \<Rightarrow> db \<Rightarrow> bool" where
  "published popped pushed d \<longleftrightarrow> (\<forall>c\<in>set pushed. \<exists>td\<in>popped. c = checkpoint_of td
     \<and> (\<forall>t\<in>set (td_transactions td). stored d t))"

lemma published_mono:
  "published S cs d \<Longrightarrow> S \<subseteq> S' \<Longrightarrow> grows d d' \<Longrightarrow> published S' cs d'"
  unfolding published_def by (meson covered_mono subset_iff subset_refl)

lemma covered_stored:
  assumes "covered T R d t" "grows d d'" "T \<subseteq> tx_id ` set (t_transactions d')"
    "R \<subseteq> set (t_blocks_transactions d')"
  shows "stored d' t"
  using covered_mono [OF assms(1) subset_refl subset_refl assms(2)] assms(3,4)
  unfolding covered_def by blast

lemma in_batch_extends:
  "in_batch pend st d \<Longrightarrow> extends st d st' d' \<Longrightarrow> in_batch pend st' d'"
  unfolding in_batch_def using extends_pending [of st d st' d'] by (auto simp: extends_def)

text \<open>A round keeps the order: the popped block joins the batch, or a commit hands on the whole batch.\<close>

lemma step_ordered:
  assumes run: "process_transactions_step L ops sched mrg cfg e st p = (Inr (st', mb, pushed), p')"
    and ok: "sched_ok sched" "mrg_ok mrg" "1 \<le> tc_batch_concurrency cfg" "cache_ok ops keys"
    and on: "\<not> tc_disable_transactions cfg" "\<not> tc_disable_blocks_transactions cfg"
    and inv: "view V" "cache_sound keys st (V (data p))" "in_batch pend st (V (data p))"
  defines "pend' \<equiv> pend @ (case fst e of None \<Rightarrow> [] | Some td \<Rightarrow> [td])"
  shows "cache_sound keys st' (V (data p')) \<and> grows (data p) (data p')
    \<and> (pushed = [] \<and> in_batch pend' st' (V (data p'))
      \<or> pushed = map checkpoint_of pend' \<and> in_batch [] st' (V (data p'))
        \<and> (\<forall>td\<in>set pend'. \<forall>t\<in>set (td_transactions td). stored (V (data p')) t))"
proof (cases "fst e")
  case None
  then have "st' = st" "p' = p" "pushed = []"
    using run by (auto simp: process_transactions_step_def ret_def split: prod.splits)
  then show ?thesis using inv None by (simp add: pend'_def grows_refl)
next
  case (Some td)
  obtain now now' where e: "e = (Some td, now, now')" using Some by (cases e) auto
  let ?st0 = "st\<lparr>ts_checkpoints := ts_checkpoints st @ [checkpoint_of td]\<rparr>"
  from run obtain st1 p1 where
    add: "add_transactions L ops cfg (td_transactions td) ?st0 p = (Inr st1, p1)" and
    rest: "(if batch_ready cfg now st1 then commit_batch L sched mrg cfg now' st1
            else ret (st1, None, [])) p1 = (Inr (st', mb, pushed), p')"
    by (auto simp: process_transactions_step_def e bnd_Inr_iff checkpoint_of_def)
  have sound0: "cache_sound keys ?st0 (V (data p))" using inv(2) by (simp add: cache_sound_def)
  note a = add_transactions_Inr [OF add ok(4) inv(1) sound0]
  have "pending st1 (V (data p1)) t" if "x \<in> set pend" "t \<in> set (td_transactions x)" for x t
    using that inv(3) extends_pending [of ?st0 "V (data p)" st1 "V (data p1)"] a by (auto simp: in_batch_def)
  then have w1: "in_batch pend' st1 (V (data p1))"
    using a inv(3) by (auto simp: in_batch_def pend'_def Some extends_def)
  have g1: "grows (data p) (data p1)" by (rule add_transactions_grows [OF add])
  show ?thesis
  proof (cases "batch_ready cfg now st1")
    case False
    then have "st' = st1" "p' = p1" "pushed = []" using rest by (auto simp: ret_def)
    then show ?thesis using a w1 g1 by simp
  next
    case True
    have "commit_batch L sched mrg cfg now' st1 p1 = (Inr (st', mb, pushed), p')"
      using rest True by simp
    note c = commit_batch_Inr [OF this ok(1-3) on]
    have v: "grows (V (data p1)) (V (data p'))" "grows (data p') (V (data p'))"
      using c inv(1) by (simp_all add: view_def)
    have g: "tx_id ` set (t_transactions (data p')) \<subseteq> tx_id ` set (t_transactions (V (data p')))"
      "set (t_blocks_transactions (data p')) \<subseteq> set (t_blocks_transactions (V (data p')))"
      using v(2) by (simp_all add: grows_def image_mono)
    have in_view: "tx_id ` set (ts_transactions st1) \<subseteq> tx_id ` set (t_transactions (V (data p')))"
      "set (ts_block_tx st1) \<subseteq> set (t_blocks_transactions (V (data p')))"
      by (rule subset_trans [OF _ g(1)], use c in blast) (rule subset_trans [OF _ g(2)], use c in blast)
    have st: "stored (V (data p')) t" if "pending st1 (V (data p1)) t" for t
      by (rule covered_stored [OF that v(1) in_view])
    have "cache_sound keys st1 (V (data p'))"
      by (rule cache_sound_grows [of keys st1 "V (data p1)"]) (use a v in auto)
    then have "keys (ts_cache st1) \<subseteq> tx_id ` set (t_transactions (V (data p')))"
      using in_view unfolding cache_sound_def by blast
    then have "cache_sound keys st' (V (data p'))" using c by (simp add: cache_sound_def)
    moreover have "grows (data p) (data p')" using c grows_trans [OF g1] by blast
    ultimately show ?thesis using c w1 st unfolding in_batch_def by auto
  qed
qed

lemma step_Inr:
  assumes run: "process_transactions_step L ops sched mrg cfg e st p = (Inr (st', mb, pushed), p')"
    and ok: "sched_ok sched" "mrg_ok mrg" "1 \<le> tc_batch_concurrency cfg" "cache_ok ops keys"
    and on: "\<not> tc_disable_transactions cfg" "\<not> tc_disable_blocks_transactions cfg"
    and inv: "cache_sound keys st (data p)" "waiting S st (data p)"
  defines "S' \<equiv> S \<union> set_option (fst e)"
  shows "cache_sound keys st' (data p') \<and> waiting S' st' (data p') \<and> published S' pushed (data p')
    \<and> grows (data p) (data p')"
proof -
  from inv(2) obtain pend where pend: "set pend \<subseteq> S" "in_batch pend st (data p)" by (auto simp: waiting_def)
  define pend' where "pend' = pend @ (case fst e of None \<Rightarrow> [] | Some td \<Rightarrow> [td])"
  have sub: "set pend' \<subseteq> S'" using pend(1) by (auto simp: pend'_def S'_def split: option.splits)
  have "in_batch pend' st' (data p') \<Longrightarrow> waiting S' st' (data p')" "in_batch [] st' (data p') \<Longrightarrow> waiting S' st' (data p')"
    using sub unfolding waiting_def by (blast, force)
  then show ?thesis
    using step_ordered [OF run ok on view_id inv(1) pend(2), folded pend'_def] sub unfolding published_def by (auto; blast)
qed

lemma run_Inr:
  assumes "process_transactions_run L ops sched mrg cfg es st p = (Inr (st', pushed), p')"
    and ok: "sched_ok sched" "mrg_ok mrg" "1 \<le> tc_batch_concurrency cfg" "cache_ok ops keys"
    and on: "\<not> tc_disable_transactions cfg" "\<not> tc_disable_blocks_transactions cfg"
    and "cache_sound keys st (data p)" "waiting S st (data p)"
  shows "published (S \<union> {td. Some td \<in> fst ` set es}) pushed (data p') \<and> grows (data p) (data p')"
  using assms(1) assms(8-)
proof (induction es arbitrary: st p pushed S)
  case Nil
  then show ?case by (auto simp: ret_def published_def grows_refl)
next
  case (Cons e es)
  then obtain r p1 where r: "process_transactions_step L ops sched mrg cfg e st p = (Inr r, p1)"
    and rest: "(case r of (st1, mb, pushed1) \<Rightarrow>
      bnd (process_transactions_run L ops sched mrg cfg es st1) (\<lambda>(st2, more).
      ret (st2, pushed1 @ more))) p1 = (Inr (st', pushed), p')"
    by (auto simp only: process_transactions_run.simps bnd_Inr_iff)
  obtain st1 mb pushed1 where r3: "r = (st1, mb, pushed1)" by (cases r)
  note 1 = r [unfolded r3]
  from rest r3 obtain more where
    2: "process_transactions_run L ops sched mrg cfg es st1 p1 = (Inr (st', more), p')" and
    p: "pushed = pushed1 @ more"
    by (auto simp: bnd_Inr_iff ret_def)
  note s = step_Inr [OF 1 ok on Cons.prems(2,3)]
  then have "cache_sound keys st1 (data p1)" "waiting (S \<union> set_option (fst e)) st1 (data p1)" by auto
  note i = Cons.IH [OF 2 this]
  have sets: "S \<union> set_option (fst e) \<union> {td. Some td \<in> fst ` set es} = S \<union> {td. Some td \<in> fst ` set (e # es)}"
    by (cases "fst e") auto
  have "published (S \<union> {td. Some td \<in> fst ` set (e # es)}) pushed1 (data p')"
    by (rule published_mono [of "S \<union> set_option (fst e)" _ "data p1"]) (use s i sets in auto)
  moreover have "published (S \<union> {td. Some td \<in> fst ` set (e # es)}) more (data p')"
    using i sets by simp
  ultimately show ?case using grows_trans [of "data p" "data p1" "data p'"] s i
    by (auto simp: p published_def)
qed

text \<open>C7: a checkpoint block is handed to the checkpoint queue only when the database holds every
  transaction and every block relation of its block, for every order of the concurrent
  statements and whatever the cache of known transactions forgets: skipping a known
  transaction never loses it.\<close>

theorem checkpoints_follow_data:
  assumes "tx_start empty_cache t0 p0 = (Inr st0, p1)"
    and "process_transactions_run L ops sched mrg cfg es st0 p1 = (Inr (st, pushed), p)"
    and "sched_ok sched" "mrg_ok mrg" "cache_ok ops keys" "keys empty_cache = {}"
    and "1 \<le> tc_batch_concurrency cfg"
    and "\<not> tc_disable_transactions cfg" "\<not> tc_disable_blocks_transactions cfg"
    and "c \<in> set pushed"
  shows "\<exists>td. Some td \<in> fst ` set es \<and> cb_hash c = td_block_hash td
    \<and> (\<forall>t\<in>set (td_transactions td). \<exists>v. rt_verbose t = Some v
        \<and> tv_transaction_id v \<in> tx_id ` set (t_transactions (data p))
        \<and> \<lparr>bt_block_hash = tv_block_hash v, bt_transaction_id = tv_transaction_id v\<rparr>
            \<in> set (t_blocks_transactions (data p)))"
proof -
  have st0: "cache_sound keys st0 (data p1)" "waiting {} st0 (data p1)"
    using assms(1,6) by (auto simp: tx_start_def bnd_Inr_iff ret_def cache_sound_def intro!: waiting_empty)
  have "published {td. Some td \<in> fst ` set es} pushed (data p)"
    using run_Inr [OF assms(2-4,7,5,8,9) st0] by simp
  with assms(10) show ?thesis
    by (fastforce simp: published_def covered_def checkpoint_of_def)
qed

section \<open>A concrete run\<close>

text \<open>One block with one transaction, committed on the clock; the cache is a list.\<close>

definition sample_cfg :: tx_config where
  "sample_cfg = \<lparr>tc_mapper = sample_mapper, tc_batch_scale = Fin 1, tc_batch_concurrency = 1,
     tc_inputs_resolve = False, tc_disable_transactions = False, tc_disable_inputs = False,
     tc_disable_outputs = False, tc_disable_blocks_transactions = False,
     tc_disable_addresses = False, tc_exclude_address = False, tc_exclude_script = False,
     tc_use_tx_for_time = False\<rparr>"

definition sample_td :: transaction_data where
  "sample_td = \<lparr>td_transactions = [\<lparr>rt_inputs = [], rt_outputs =
       [\<lparr>ro_value = 5, ro_script = [1], ro_address = Some ''a''\<rparr>],
       rt_subnetwork_id = ''00'', rt_payload = [],
       rt_verbose = Some \<lparr>tv_transaction_id = Hash [7], tv_hash = Hash [8], tv_compute_mass = 1,
         tv_block_hash = Hash [2], tv_block_time = 3\<rparr>\<rparr>],
     td_block_hash = Hash [2], td_block_timestamp = 3, td_block_daa_score = 4,
     td_block_blue_score = 4\<rparr>"

definition sample_start :: "hash list tx_state" where
  "sample_start = \<lparr>ts_subnetworks = Map.empty, ts_cache = [], ts_transactions = [],
     ts_block_tx = [], ts_inputs = [], ts_outputs = [], ts_addresses = [], ts_scripts = [],
     ts_checkpoints = [], ts_last_commit = 0\<rparr>"

text \<open>On a database with nothing but variables.\<close>

definition vars_db :: "(string \<rightharpoonup> string) \<Rightarrow> db" where
  "vars_db v = schema_db\<lparr>t_vars := v\<rparr>"

lemma vars_db_schema: "vars_db (t_vars schema_db) = schema_db"
  by (simp add: vars_db_def)

lemma sample_tx_start: "tx_start [] 0 (pool_of (vars_db v)) = (Inr sample_start, pool_of (vars_db v))"
  by (simp add: tx_start_def sample_start_def select_subnetworks_def query_healthy or_panic_def
      bnd_def ret_def vars_db_def schema_db_def)

lemma sample_added:
  "\<exists>st p. add_transactions sample_libs list_cache sample_cfg (td_transactions sample_td)
     (sample_start\<lparr>ts_checkpoints := [checkpoint_of sample_td]\<rparr>) (pool_of (vars_db v)) = (Inr st, p)
   \<and> healthy p \<and> length (ts_transactions st) = 1 \<and> length (ts_outputs st) = 1 \<and> ts_inputs st = []
   \<and> length (ts_addresses st) = 1 \<and> length (ts_block_tx st) = 1 \<and> ts_last_commit st = 0
   \<and> ts_checkpoints st = [checkpoint_of sample_td] \<and> t_inputs (data p) = [] \<and> t_blocks (data p) = []"
  by (simp add: sample_td_def sample_start_def bnd_def add_transaction_def subnetwork_key_of_def
      insert_subnetwork_def execute_healthy or_panic_def ret_def lift_res_def enter_transaction_def
      list_cache_def map_new_transaction_def mapping_defs map_output_def map_transaction_outputs_address_def
      index_extend_def map_block_transaction_def sample_cfg_def sample_libs_def vars_db_def schema_db_def
      to_signed_def in_signed_def Let_def)

lemma sample_committed:
  assumes "healthy p" "ts_transactions st = [t]" "ts_outputs st = [r]" "ts_inputs st = []"
    "ts_addresses st = [a]" "ts_block_tx st = [b]" "ts_checkpoints st = [c]" "t_inputs (data p) = []"
  shows "\<exists>st' mb p'. commit_batch sample_libs (\<lambda>k n. [0..<n]) concat sample_cfg now st p =
    (Inr (st', mb, [c]), p') \<and> t_blocks (data p') = t_blocks (data p)"
proof -
  have tasks: "concat (commit_tasks (\<lambda>k n. [0..<n]) sample_cfg st) =
      [or_panic ''Insert transactions FAILED'' (insert_transactions [t]),
       or_panic ''Insert output addresses_transactions FAILED'' (insert_address_transactions [a]),
       or_panic ''Insert transactions_outputs FAILED'' (insert_transaction_outputs [r])]"
    using assms(2-5)
    by (simp add: commit_tasks_def sample_cfg_def Let_def task_defs small_tasks)
  have rels: "concat (relation_tasks (\<lambda>k n. [0..<n]) sample_cfg st) =
      [or_panic ''Insert block/transaction mappings FAILED'' (insert_block_transactions [b]),
       or_panic ''Insert input addresses_transactions FAILED''
         (insert_address_transactions_from_inputs False [tx_id t])]"
    using assms(2,6)
    by (simp add: relation_tasks_def sample_cfg_def Let_def task_defs small_tasks)
  have fi: "insert_address_transactions_from_inputs False ids q = (Inr 0, q)"
    if "healthy q" "t_inputs (data q) = []" for ids q
    using that by (simp add: insert_address_transactions_from_inputs_def execute_healthy
        from_inputs_def insert_selected_def)
  show ?thesis
    using assms(1,7,8)
    by (simp add: commit_batch_def tasks rels run_statements_def bnd_def ret_def lift_res_def
        or_panic_def txs.ins_ok addr_txs.ins_ok outputs.ins_ok block_txs.ins_ok bind_limit_def fi
        metrics_block_of_def sample_libs_def)
qed

lemma sample_run:
  "\<exists>st p. process_transactions_run sample_libs list_cache (\<lambda>k n. [0..<n]) concat
     sample_cfg [(Some sample_td, 3000000000, 3000000000)] sample_start (pool_of (vars_db v))
     = (Inr (st, [checkpoint_of sample_td]), p) \<and> t_blocks (data p) = []"
proof -
  from sample_added obtain st p where a: "add_transactions sample_libs list_cache sample_cfg
      (td_transactions sample_td) (sample_start\<lparr>ts_checkpoints := [checkpoint_of sample_td]\<rparr>)
      (pool_of (vars_db v)) = (Inr st, p)"
    and st: "healthy p" "ts_inputs st = []" "ts_last_commit st = 0"
      "ts_checkpoints st = [checkpoint_of sample_td]" "t_inputs (data p) = []"
      "length (ts_transactions st) = 1" "length (ts_outputs st) = 1" "length (ts_addresses st) = 1"
      "length (ts_block_tx st) = 1" and b0: "t_blocks (data p) = []" by blast
  from st(6-9) obtain t r x b where "ts_transactions st = [t]" "ts_outputs st = [r]"
    "ts_addresses st = [x]" "ts_block_tx st = [b]" by (auto simp: length_Suc_conv)
  from sample_committed [OF st(1) this(1,2) st(2) this(3,4) st(4,5), of 3000000000] obtain st' mb p' where
    c: "commit_batch sample_libs (\<lambda>k n. [0..<n]) concat sample_cfg 3000000000 st p =
      (Inr (st', mb, [checkpoint_of sample_td]), p')" and b1: "t_blocks (data p') = []" unfolding b0 by blast
  have "batch_ready sample_cfg 3000000000 st"
    using st(3) \<open>ts_block_tx st = [b]\<close> by (simp add: batch_ready_def secs_since_def)
  moreover have "ts_checkpoints sample_start = []" by (simp add: sample_start_def)
  ultimately show ?thesis
    using a c b1 by (simp add: process_transactions_step_def bnd_def ret_def checkpoint_of_def [symmetric])
qed

theorem checkpoints_follow_data_witness:
  "\<exists>st p td. process_transactions_run sample_libs list_cache (\<lambda>k n. [0..<n]) concat
       sample_cfg [(Some sample_td, 3000000000, 3000000000)] sample_start (pool_of schema_db)
       = (Inr (st, [checkpoint_of sample_td]), p)
    \<and> Some td \<in> fst ` set [(Some sample_td, 3000000000 :: nat, 3000000000 :: nat)]
    \<and> cb_hash (checkpoint_of sample_td) = td_block_hash td
    \<and> (\<forall>t\<in>set (td_transactions td). \<exists>v. rt_verbose t = Some v
        \<and> tv_transaction_id v \<in> tx_id ` set (t_transactions (data p))
        \<and> \<lparr>bt_block_hash = tv_block_hash v, bt_transaction_id = tv_transaction_id v\<rparr>
            \<in> set (t_blocks_transactions (data p)))"
proof -
  from sample_run [of "t_vars schema_db", unfolded vars_db_schema] obtain st p where r: "process_transactions_run sample_libs list_cache
     (\<lambda>k n. [0..<n]) concat sample_cfg [(Some sample_td, 3000000000, 3000000000)] sample_start
     (pool_of schema_db) = (Inr (st, [checkpoint_of sample_td]), p)" by blast
  have "set [] = {}" "1 \<le> tc_batch_concurrency sample_cfg" "\<not> tc_disable_transactions sample_cfg"
    "\<not> tc_disable_blocks_transactions sample_cfg"
    "checkpoint_of sample_td \<in> set [checkpoint_of sample_td]"
    by (simp_all add: sample_cfg_def)
  from checkpoints_follow_data [OF sample_tx_start [of "t_vars schema_db", unfolded vars_db_schema] r sched_ok_upt mrg_ok_concat list_cache_ok this]
  show ?thesis using r by blast
qed

end
