(* ===== verification/Process_Tx_Inputs.thy ===== *)
theory Process_Tx_Inputs
  imports Process_Tx_Props
begin

text \<open>
  Inputs and what they spend: resolving against the batch makes the race between the tasks
  that write inputs and outputs harmless; the combination of options under which resolving
  cannot work; and the conditions under which a commit succeeds.
\<close>

section \<open>Inputs and outputs may land in any order\<close>

text \<open>Rows of one outpoint carry the same script and amount.\<close>

definition same_outpoints :: "transaction_output_row list \<Rightarrow> bool" where
  "same_outpoints outs \<longleftrightarrow> (\<forall>r\<in>set outs. \<forall>s\<in>set outs. output_key r = output_key s \<longrightarrow>
     out_script_public_key r = out_script_public_key s \<and> out_amount r = out_amount s)"

lemma find_append:
  "find P (xs @ ys) = (case find P xs of None \<Rightarrow> find P ys | Some x \<Rightarrow> Some x)"
  by (induction xs) auto

lemma find_SomeD: "find P xs = Some x \<Longrightarrow> P x \<and> x \<in> set xs"
  by (induction xs) (auto split: if_splits)

lemma resolve_from_batch_cases:
  assumes "resolve_from_batch outs i = Inr j"
  shows "(j = i \<and> (\<forall>r\<in>set outs. \<not> spends i r))
    \<or> (\<exists>r\<in>set outs. spends i r \<and> j = i\<lparr>in_previous_outpoint_script := out_script_public_key r,
         in_previous_outpoint_amount := out_amount r\<rparr>)"
proof -
  from assms obtain h k where hk: "in_previous_outpoint_hash i = Some h"
    "in_previous_outpoint_index i = Some k" by (auto split: option.splits)
  let ?m = "map_of (rev (map (\<lambda>r. ((out_transaction_id r, out_index r), r)) outs)) (h, k)"
  show ?thesis
  proof (cases ?m)
    case None
    then have "(h, k) \<notin> (\<lambda>r. (out_transaction_id r, out_index r)) ` set outs"
      by (simp add: map_of_eq_None_iff image_image)
    then have "(out_transaction_id r, out_index r) \<noteq> (h, k)" if "r \<in> set outs" for r
      using imageI [OF that, of "\<lambda>r. (out_transaction_id r, out_index r)"] by metis
    then have "\<forall>r\<in>set outs. \<not> spends i r" using hk by (auto simp: spends_def)
    moreover have "j = i" using assms None hk by simp
    ultimately show ?thesis by simp
  next
    case (Some r)
    then have "r \<in> set outs" "spends i r"
      using hk map_of_SomeD [OF Some] by (auto simp: spends_def)
    moreover have "j = i\<lparr>in_previous_outpoint_script := out_script_public_key r,
         in_previous_outpoint_amount := out_amount r\<rparr>" using assms Some hk by simp
    ultimately show ?thesis by blast
  qed
qed

lemma resolve_input_stable:
  assumes "resolve_from_batch outs i = Inr j" "same_outpoints outs" "set os \<subseteq> set outs"
  shows "resolve_input (snd (insert_rows output_key os t)) j = resolve_input t j"
proof -
  obtain us where us: "snd (insert_rows output_key os t) = t @ us" "set us \<subseteq> set outs"
    using insert_rows_prefix [of output_key os t] assms(3) by blast
  show ?thesis
  proof (cases "find (spends j) t = None \<and> find (spends j) us \<noteq> None")
    case False
    then show ?thesis by (auto simp: resolve_input_def us(1) find_append split: option.splits)
  next
    case True
    then obtain r where r: "find (spends j) us = Some r" by blast
    then have r': "spends j r" "r \<in> set outs" using find_SomeD [OF r] us(2) by auto
    have "\<not> (j = i \<and> (\<forall>r\<in>set outs. \<not> spends i r))" using r' by blast
    with resolve_from_batch_cases [OF assms(1)] obtain s where s: "s \<in> set outs" "spends i s"
      "j = i\<lparr>in_previous_outpoint_script := out_script_public_key s,
         in_previous_outpoint_amount := out_amount s\<rparr>" by metis
    have "output_key r = output_key s" using r'(1) s(2,3) by (auto simp: spends_def output_key_def)
    then have "out_script_public_key r = out_script_public_key s" "out_amount r = out_amount s"
      using assms(2) [unfolded same_outpoints_def, rule_format, OF r'(2) s(1)] by simp_all
    then show ?thesis using True r by (simp add: resolve_input_def us(1) find_append s(3) coalesce_def)
  qed
qed

lemma insert_inputs_ok:
  assumes "healthy p" "rs \<noteq> []" "length rs * 9 \<le> bind_limit"
  shows "insert_transaction_inputs True rs p =
    (let res = insert_rows input_key (map (\<lambda>i. input_columns (resolve_input (t_outputs (data p)) i)) rs)
       (t_inputs (data p)) in (Inr (fst res), p\<lparr>data := (data p)\<lparr>t_inputs := snd res\<rparr>\<rparr>))"
  using assms by (simp add: insert_transaction_inputs_def execute_healthy insert_values_ok Let_def)

text \<open>C29: an insert of inputs that were resolved against the outputs of their batch commutes with
  the insert of any of those outputs: both orders of the two concurrent tasks' statements give
  the same counts and the same database, so the race between them is harmless.\<close>

theorem inputs_commute_with_outputs:
  assumes "traverse (resolve_from_batch outs) ins0 = Inr ins" "same_outpoints outs"
    and "set os \<subseteq> set outs" "set rs \<subseteq> set ins" "healthy p"
    and "os \<noteq> []" "length os * 6 \<le> bind_limit" "rs \<noteq> []" "length rs * 9 \<le> bind_limit"
  shows "\<exists>n m q.
    bnd (insert_transaction_inputs True rs)
      (\<lambda>n. bnd (insert_transaction_outputs os) (\<lambda>m. ret (n, m))) p = (Inr (n, m), q)
    \<and> bnd (insert_transaction_outputs os)
      (\<lambda>m. bnd (insert_transaction_inputs True rs) (\<lambda>n. ret (n, m))) p = (Inr (n, m), q)"
proof -
  have stable: "resolve_input (snd (insert_rows output_key os (t_outputs (data p)))) j
      = resolve_input (t_outputs (data p)) j" if "j \<in> set rs" for j
  proof -
    from that assms(4) have "j \<in> set ins" by blast
    then obtain k where "k < length ins" "ins ! k = j" by (auto simp: in_set_conv_nth)
    then have "resolve_from_batch outs (ins0 ! k) = Inr j"
      using traverse_nth [OF assms(1)] traverse_length [OF assms(1)] by auto
    from resolve_input_stable [OF this assms(2,3)] show ?thesis .
  qed
  have same: "map (\<lambda>i. input_columns (resolve_input (snd (insert_rows output_key os (t_outputs (data p)))) i)) rs
      = map (\<lambda>i. input_columns (resolve_input (t_outputs (data p)) i)) rs"
    by (rule map_cong) (simp_all add: stable)
  show ?thesis
    using assms(5-)
    by (simp add: bnd_def insert_inputs_ok outputs.ins_ok ret_def Let_def same)
qed

definition sample_spender :: transaction_input_row where
  "sample_spender = \<lparr>in_transaction_id = Hash [9], in_index = 0,
     in_previous_outpoint_hash = Some (Hash [1]), in_previous_outpoint_index = Some 0,
     in_signature_script = None, in_sig_op_count = None, in_block_time = None,
     in_previous_outpoint_script = None, in_previous_outpoint_amount = None,
     in_previous_outpoint_address = None\<rparr>"

definition sample_spent :: transaction_output_row where
  "sample_spent = \<lparr>out_transaction_id = Hash [1], out_index = 0, out_amount = Some 7,
     out_script_public_key = Some [3], out_script_public_key_address = Some ''a'',
     out_block_time = Some 1\<rparr>"

theorem inputs_commute_with_outputs_witness:
  "\<exists>rs n m q. traverse (resolve_from_batch [sample_spent]) [sample_spender] = Inr rs \<and>
    bnd (insert_transaction_inputs True rs)
      (\<lambda>n. bnd (insert_transaction_outputs [sample_spent]) (\<lambda>m. ret (n, m))) (pool_of schema_db)
      = (Inr (n, m), q)
    \<and> bnd (insert_transaction_outputs [sample_spent])
      (\<lambda>m. bnd (insert_transaction_inputs True rs) (\<lambda>n. ret (n, m))) (pool_of schema_db)
      = (Inr (n, m), q)"
proof -
  let ?j = "sample_spender\<lparr>in_previous_outpoint_script := Some [3], in_previous_outpoint_amount := Some 7\<rparr>"
  have "traverse (resolve_from_batch [sample_spent]) [sample_spender] = Inr [?j]"
    by (simp add: sample_spender_def sample_spent_def)
  from inputs_commute_with_outputs [OF this, of "[sample_spent]" "[?j]" "pool_of schema_db"] this
  show ?thesis by (fastforce simp: same_outpoints_def bind_limit_def)
qed

section \<open>Resolving needs the outpoint\<close>

text \<open>With the resolving of inputs enabled and the previous outpoint excluded from the rows, a
  batch that holds an input cannot be committed: every order of the statements ends in a panic.\<close>

lemma resolve_without_outpoint_panics:
  assumes "tc_inputs_resolve cfg" "\<not> tc_disable_inputs cfg" "mrg_ok mrg"
    and "i \<in> set (ts_inputs st)" "in_previous_outpoint_hash i = None"
  shows "\<exists>e p'. commit_batch L sched mrg cfg now st p = (Inl e, p')"
proof -
  have "\<exists>e. resolve_from_batch (ts_outputs st) i = Inl e" using assms(5) by simp
  then have "\<exists>e. traverse (resolve_from_batch (ts_outputs st)) (ts_inputs st) = Inl e"
    using assms(4) traverse_fails_iff [of "resolve_from_batch (ts_outputs st)" "ts_inputs st"] by metis
  then obtain e where "traverse (resolve_from_batch (ts_outputs st)) (ts_inputs st) = Inl e" by blast
  then have t: "throw e \<in> set (mrg (commit_tasks sched cfg st))"
    using assms(1,2) by (simp add: mrg_set [OF assms(3)] commit_tasks_def Let_def)
  have "\<not> (\<exists>n q. run_statements (mrg (commit_tasks sched cfg st)) p = (Inr n, q))"
  proof
    assume "\<exists>n q. run_statements (mrg (commit_tasks sched cfg st)) p = (Inr n, q)"
    then obtain n q where "sum_loop (\<lambda>op. op) (mrg (commit_tasks sched cfg st)) 0 p = (Inr n, q)"
      by (auto simp: run_statements_def)
    from run_visits [where R = "\<lambda>_ _. True", OF this t] show False by auto
  qed
  then obtain e' q where "run_statements (mrg (commit_tasks sched cfg st)) p = (Inl e', q)"
    by (cases "run_statements (mrg (commit_tasks sched cfg st)) p"; cases "fst (run_statements (mrg (commit_tasks sched cfg st)) p)") auto
  then show ?thesis by (simp add: commit_batch_def bnd_def)
qed

end
