(* ===== verification/Success.thy ===== *)
theory Success
  imports Writers
begin

text \<open>
  Total correctness on a healthy connection: \<open>works I m Q\<close> says that from every database
  satisfying \<open>I\<close> the operation ends without an error, with a result satisfying \<open>Q\<close>, and
  leaves a database satisfying \<open>I\<close>. One rule per construct of the programs, as in a
  weakest-precondition calculus; the tables with an insert get theirs from the interface.
\<close>

definition works :: "(db \<Rightarrow> bool) \<Rightarrow> (pool, 'e, 'a) sem \<Rightarrow> ('a \<Rightarrow> bool) \<Rightarrow> bool" where
  "works I m Q \<longleftrightarrow> (\<forall>p. healthy p \<and> I (data p) \<longrightarrow> (\<exists>a p'. m p = (Inr a, p') \<and> healthy p' \<and> I (data p') \<and> Q a))"

lemma works_E:
  assumes "works I m Q" "healthy p" "I (data p)"
  obtains a p' where "m p = (Inr a, p')" "healthy p'" "I (data p')" "Q a"
  using assms unfolding works_def by blast

lemma works_ret: "Q a \<Longrightarrow> works I (ret a) Q"
  by (simp add: works_def ret_def)

lemma works_lift: "r = Inr a \<Longrightarrow> Q a \<Longrightarrow> works I (lift_res r) Q"
  by (simp add: works_def lift_res_def)

lemma works_bnd: "works I m Q \<Longrightarrow> (\<And>a. Q a \<Longrightarrow> works I (f a) R) \<Longrightarrow> works I (bnd m f) R"
  unfolding works_def by (metis bnd_Inr)

lemma works_lift_bnd: "r = Inr a \<Longrightarrow> works I (f a) R \<Longrightarrow> works I (bnd (lift_res r) f) R"
  by (simp add: works_def bnd_def lift_res_def)

lemma works_weaken: "works I m Q \<Longrightarrow> (\<And>a. Q a \<Longrightarrow> R a) \<Longrightarrow> works I m R"
  unfolding works_def by blast

lemma works_or_panic: "works I m Q \<Longrightarrow> works I (or_panic msg m) Q"
  unfolding works_def or_panic_def by fastforce

lemma works_query: "(\<And>d. I d \<Longrightarrow> \<exists>a. q d = Inr a \<and> Q a) \<Longrightarrow> works I (query q) Q"
  by (auto simp: works_def query_healthy)

lemma works_execute: "(\<And>d. I d \<Longrightarrow> \<exists>a d'. stmt d = Inr (a, d') \<and> I d' \<and> Q a) \<Longrightarrow> works I (execute stmt) Q"
  unfolding works_def by (fastforce simp: execute_healthy)

lemma works_sum_loop: "(\<And>x. x \<in> set xs \<Longrightarrow> works I (op x) (\<lambda>_. True)) \<Longrightarrow> works I (sum_loop op xs acc) (\<lambda>_. True)"
  by (induction xs arbitrary: acc) (auto intro!: works_ret works_bnd)

lemma works_run: "(\<And>op. op \<in> set ops \<Longrightarrow> works I op (\<lambda>_. True)) \<Longrightarrow> works I (run_statements ops) (\<lambda>_. True)"
  unfolding run_statements_def by (rule works_sum_loop)

lemma works_merged:
  "mrg_ok mrg \<Longrightarrow> (\<And>op. op \<in> set (concat tasks) \<Longrightarrow> works I op (\<lambda>_. True)) \<Longrightarrow>
     works I (run_statements (mrg tasks)) (\<lambda>_. True)"
  by (rule works_run) (metis mrg_ok_def set_mset_mset)

lemma chunk_task_chunk:
  assumes "op \<in> set (chunk_task sched k msg n ins rs)" "0 < n" "sched_ok sched" "0 < k"
  obtains c where "c \<in> set (chunks_of n rs)" "op = or_panic msg (ins c)"
proof -
  have "set (sched k (length (chunks_of n rs))) = {..<length (chunks_of n rs)}"
    using assms(3,4) by (simp add: sched_ok_def buffered_def)
  with assms(1,2) that show thesis by (force simp: chunk_task_def chunks_def)
qed

lemma loop_task_chunk:
  assumes "op \<in> set (loop_task msg n ins rs)" "0 < n"
  obtains c where "c \<in> set (chunks_of n rs)" "op = or_panic msg (ins c)"
  using assms by (auto simp: loop_task_def chunks_def)

lemma works_chunks:
  assumes "0 < n" "\<And>c. c \<in> set (chunks_of n rs) \<Longrightarrow> works I (ins c) (\<lambda>_. True)"
  shows "works I (write_chunks msg n ins rs) (\<lambda>_. True)"
  unfolding write_chunks_def chunks_def using assms
  by (auto intro!: works_bnd [where Q = "\<lambda>cs. cs = chunks_of n rs"] works_lift works_sum_loop works_or_panic)

lemma works_chunk_task:
  assumes "op \<in> set (chunk_task sched k msg n ins rs)" "0 < n" "sched_ok sched" "0 < k"
    and "\<And>c. c \<in> set (chunks_of n rs) \<Longrightarrow> works I (ins c) (\<lambda>_. True)"
  shows "works I op (\<lambda>_. True)"
  using chunk_task_chunk [OF assms(1-4)] assms(5) works_or_panic by metis

lemma works_loop_task:
  assumes "op \<in> set (loop_task msg n ins rs)" "0 < n" "\<And>c. c \<in> set (chunks_of n rs) \<Longrightarrow> works I (ins c) (\<lambda>_. True)"
  shows "works I op (\<lambda>_. True)"
  using loop_task_chunk [OF assms(1,2)] assms(3) works_or_panic by metis

text \<open>A batch scaled within its bounds is never empty and never exceeds the argument limit.\<close>

lemma batch_u16_pos: "scale_ok s \<Longrightarrow> 100 \<le> c \<Longrightarrow> c \<le> 5000 \<Longrightarrow> 1 \<le> cap \<Longrightarrow> 0 < batch_u16 c cap s"
  using batch_u16_bounds(1) by (metis Suc_le_eq One_nat_def)

lemma batch_u16_fits:
  "scale_ok s \<Longrightarrow> 100 \<le> c \<Longrightarrow> c \<le> 5000 \<Longrightarrow> 1 \<le> cap \<Longrightarrow> min (10 * c) cap * cols \<le> bind_limit \<Longrightarrow>
     batch_u16 c cap s * cols \<le> bind_limit"
  by (rule le_trans [OF mult_le_mono1 [OF batch_u16_bounds(2)]])

lemma batch_usize_pos: "scale_ok s \<Longrightarrow> 100 \<le> c \<Longrightarrow> c \<le> 5000 \<Longrightarrow> 1 \<le> cap \<Longrightarrow> 0 < batch_usize c cap s"
  using batch_usize_bounds(1) by (metis Suc_le_eq One_nat_def)

lemma batch_usize_fits:
  "scale_ok s \<Longrightarrow> 100 \<le> c \<Longrightarrow> c \<le> 5000 \<Longrightarrow> 1 \<le> cap \<Longrightarrow> min (10 * c) cap * cols \<le> bind_limit \<Longrightarrow>
     batch_usize c cap s * cols \<le> bind_limit"
  by (rule le_trans [OF mult_le_mono1 [OF batch_usize_bounds(2)]])

lemma chunk_elements: "c \<in> set (chunks_of n rs) \<Longrightarrow> 0 < n \<Longrightarrow> set c \<subseteq> set rs"
  using concat_chunks_of [of n rs] by (metis UN_upper set_concat)

context skip_conflicts_table
begin

lemma ins_works:
  assumes "c \<in> set (chunks_of n rs)" "n * cols \<le> bind_limit"
    and "\<And>d. I d \<Longrightarrow> I (with_rows (snd (insert_rows key c (rows d))) d)"
  shows "works I (ins c) (\<lambda>_. True)"
  using ins_ok chunk_fits [OF assms(2), of rs] assms(1,3) unfolding works_def by fastforce

lemma chunk_task_works:
  assumes "op \<in> set (chunk_task sched k msg n ins rs)" "0 < n" "n * cols \<le> bind_limit" "sched_ok sched" "0 < k"
    and "\<And>c d. set c \<subseteq> set rs \<Longrightarrow> I d \<Longrightarrow> I (with_rows (snd (insert_rows key c (rows d))) d)"
  shows "works I op (\<lambda>_. True)"
  using works_chunk_task [OF assms(1,2,4,5)] ins_works [OF _ assms(3)] assms(6) chunk_elements [OF _ assms(2)] by metis

lemma write_chunks_works:
  assumes "0 < n" "n * cols \<le> bind_limit"
    and "\<And>c d. set c \<subseteq> set rs \<Longrightarrow> I d \<Longrightarrow> I (with_rows (snd (insert_rows key c (rows d))) d)"
  shows "works I (write_chunks msg n ins rs) (\<lambda>_. True)"
  using works_chunks [OF assms(1)] ins_works [OF _ assms(2)] assms(3) chunk_elements [OF _ assms(1)] by metis

end

end
