(* ===== verification/Process_Tx_Live.thy ===== *)
theory Process_Tx_Live
  imports Process_Tx_Props Success
begin

text \<open>
  The transaction processor makes progress: on a healthy connection, with arguments the start
  accepts, no run of it panics, as long as the node's transactions fit the columns and no output
  in the table lacks the address (or the script) that the relations of the inputs copy.
\<close>

section \<open>What a transaction must look like\<close>

definition fits_columns :: "rpc_transaction \<Rightarrow> bool" where
  "fits_columns t \<longleftrightarrow> length (rt_subnetwork_id t) \<le> 40 \<and> length (rt_inputs t) \<le> 2 ^ 15 \<and> length (rt_outputs t) \<le> 2 ^ 15
     \<and> (case rt_verbose t of None \<Rightarrow> False
        | Some v \<Rightarrow> uint (tv_compute_mass v) < 2 ^ 31 \<and> uint (tv_block_time v) < 2 ^ 63)
     \<and> (\<forall>i\<in>set (rt_inputs t). uint (ri_previous_index i) < 2 ^ 15)
     \<and> (\<forall>r\<in>set (rt_outputs t). ro_address r \<noteq> None \<and> uint (ro_value r) < 2 ^ 63)"

definition times_ok :: "libs \<Rightarrow> u64 \<Rightarrow> bool" where
  "times_ok L t \<longleftrightarrow> millis_ok L (as_i64 t) \<and> millis_ok L (whole_seconds t)"

definition block_ok :: "libs \<Rightarrow> transaction_data \<Rightarrow> bool" where
  "block_ok L td \<longleftrightarrow> times_ok L (td_block_timestamp td) \<and> (\<forall>t\<in>set (td_transactions td). fits_columns t)"

section \<open>What the relations of the inputs need\<close>

text \<open>With \<open>positive\<close> the amounts are asked for as well: those of the node are not negative.\<close>

definition relation_ready :: "bool \<Rightarrow> tx_config \<Rightarrow> transaction_output_row \<Rightarrow> bool" where
  "relation_ready positive cfg r \<longleftrightarrow> (positive \<longrightarrow> (\<forall>x. out_amount r = Some x \<longrightarrow> 0 \<le> x)) \<and> (tc_disable_addresses cfg
     \<or> (if \<not> tc_exclude_address cfg then out_script_public_key_address r \<noteq> None
        else tc_exclude_script cfg \<or> out_script_public_key r \<noteq> None))"

definition outputs_ready :: "bool \<Rightarrow> tx_config \<Rightarrow> db \<Rightarrow> bool" where
  "outputs_ready pos cfg d \<longleftrightarrow> (\<forall>r\<in>set (t_outputs d). relation_ready pos cfg r)"

definition has_outpoint :: "tx_config \<Rightarrow> transaction_input_row \<Rightarrow> bool" where
  "has_outpoint cfg i \<longleftrightarrow> (tc_inputs_resolve cfg \<longrightarrow>
     in_previous_outpoint_hash i \<noteq> None \<and> in_previous_outpoint_index i \<noteq> None)"

definition batch_live :: "bool \<Rightarrow> libs \<Rightarrow> tx_config \<Rightarrow> 'c tx_state \<Rightarrow> bool" where
  "batch_live pos L cfg st \<longleftrightarrow> (\<forall>r\<in>set (ts_outputs st). relation_ready pos cfg r)
     \<and> (\<forall>i\<in>set (ts_inputs st). has_outpoint cfg i) \<and> (\<forall>c\<in>set (ts_checkpoints st). times_ok L (cb_timestamp c))"

text \<open>The switches of the loop and of the mapper come from the same arguments.\<close>

definition config_live :: "tx_config \<Rightarrow> bool" where
  "config_live cfg \<longleftrightarrow> scale_ok (tc_batch_scale cfg) \<and> 1 \<le> tc_batch_concurrency cfg
     \<and> m_tx_out_script_public_key_address (tc_mapper cfg) = (\<not> tc_exclude_address cfg)
     \<and> m_tx_out_script_public_key (tc_mapper cfg) = (\<not> tc_exclude_script cfg)
     \<and> (tc_inputs_resolve cfg \<longrightarrow> m_tx_in_previous_outpoint (tc_mapper cfg))"

section \<open>Mapping\<close>

lemma in_signed_index: "i < 2 ^ 15 \<Longrightarrow> in_signed 16 (int i)"
  by (simp add: in_signed_def)

lemma enumerate_index: "(i, x) \<in> set (enumerate 0 xs) \<Longrightarrow> i < length xs \<and> x \<in> set xs"
  by (auto simp: in_set_enumerate_eq)

lemma inputs_map:
  assumes "fits_columns t"
  shows "\<exists>rows. map_transaction_inputs m t = Inr rows
    \<and> (m_tx_in_previous_outpoint m \<longrightarrow> (\<forall>i\<in>set rows. in_previous_outpoint_hash i \<noteq> None \<and> in_previous_outpoint_index i \<noteq> None))"
proof -
  from assms obtain v where v: "rt_verbose t = Some v" "uint (tv_block_time v) < 2 ^ 63"
    by (auto simp: fits_columns_def split: option.splits)
  have one: "\<exists>r. input_by m v (i, input) = Inr r \<and> (m_tx_in_previous_outpoint m \<longrightarrow>
      in_previous_outpoint_hash r \<noteq> None \<and> in_previous_outpoint_index r \<noteq> None)"
    if "(i, input) \<in> set (enumerate 0 (rt_inputs t))" for i input
    using enumerate_index [OF that] assms v(2)
    by (auto simp: map_input_def fits_columns_def sbind_Inr_iff in_signed_index in_signed_uint)
  have "\<exists>rows. traverse (input_by m v) xs = Inr rows
      \<and> (m_tx_in_previous_outpoint m \<longrightarrow> (\<forall>i\<in>set rows. in_previous_outpoint_hash i \<noteq> None \<and> in_previous_outpoint_index i \<noteq> None))"
    if "set xs \<subseteq> set (enumerate 0 (rt_inputs t))" for xs
    using that
  proof (induction xs)
    case (Cons x xs)
    then show ?case using one [of "fst x" "snd x"] by (auto simp: sbind_Inr_iff)
  qed simp
  from this [OF subset_refl] v show ?thesis by (simp add: mapping_defs sbind_Inr_iff)
qed

lemma outputs_map:
  assumes "fits_columns t"
  shows "\<exists>rows. map_transaction_outputs f m t = Inr rows
    \<and> (\<forall>r\<in>set rows. (\<forall>x. out_amount r = Some x \<longrightarrow> 0 \<le> x) \<and> (m_tx_out_script_public_key_address m \<longrightarrow> out_script_public_key_address r \<noteq> None)
        \<and> (m_tx_out_script_public_key m \<longrightarrow> out_script_public_key r \<noteq> None))"
proof -
  from assms obtain v where v: "rt_verbose t = Some v" "uint (tv_block_time v) < 2 ^ 63"
    by (auto simp: fits_columns_def split: option.splits)
  have one: "\<exists>r. output_by f m v (i, out) = Inr r \<and> (\<forall>x. out_amount r = Some x \<longrightarrow> 0 \<le> x)
      \<and> (m_tx_out_script_public_key_address m \<longrightarrow> out_script_public_key_address r \<noteq> None)
      \<and> (m_tx_out_script_public_key m \<longrightarrow> out_script_public_key r \<noteq> None)"
    if "(i, out) \<in> set (enumerate 0 (rt_outputs t))" for i out
  proof -
    have out: "i < length (rt_outputs t)" "out \<in> set (rt_outputs t)" using enumerate_index [OF that] by blast+
    with assms obtain a where a: "ro_address out = Some a" by (auto simp: fits_columns_def)
    have n: "length (rt_outputs t) \<le> 2 ^ 15" "uint (ro_value out) < 2 ^ 63" using assms out(2) by (auto simp: fits_columns_def)
    then have "output_by f m v (i, out) = Inr \<lparr>out_transaction_id = tv_transaction_id v, out_index = int i,
        out_amount = then_some (m_tx_out_amount m) (uint (ro_value out)),
        out_script_public_key = then_some (m_tx_out_script_public_key m) (ro_script out),
        out_script_public_key_address = then_some (m_tx_out_script_public_key_address m) (f a),
        out_block_time = then_some (m_tx_out_block_time m) (uint (tv_block_time v))\<rparr>"
      using out(1) v(2) a by (simp add: map_output_def sbind_Inr_iff in_signed_index in_signed_uint)
    then show ?thesis by (simp add: then_some_def)
  qed
  have "\<exists>rows. traverse (output_by f m v) xs = Inr rows
      \<and> (\<forall>r\<in>set rows. (\<forall>x. out_amount r = Some x \<longrightarrow> 0 \<le> x) \<and> (m_tx_out_script_public_key_address m \<longrightarrow> out_script_public_key_address r \<noteq> None)
        \<and> (m_tx_out_script_public_key m \<longrightarrow> out_script_public_key r \<noteq> None))"
    if "set xs \<subseteq> set (enumerate 0 (rt_outputs t))" for xs
    using that
  proof (induction xs)
    case (Cons x xs)
    then show ?case using one [of "fst x" "snd x"] by (auto simp: sbind_Inr_iff)
  qed simp
  from this [OF subset_refl] v show ?thesis by (simp add: mapping_defs sbind_Inr_iff)
qed

lemma relations_map:
  assumes "fits_columns t"
  shows "\<exists>rows. map_transaction_outputs_address f t = Inr rows" "\<exists>rows. map_transaction_outputs_script t = Inr rows"
    "\<exists>row. map_transaction m t key = Inr row" "\<exists>row. map_block_transaction t = Inr row"
proof -
  from assms obtain v where v: "rt_verbose t = Some v" "uint (tv_block_time v) < 2 ^ 63" "uint (tv_compute_mass v) < 2 ^ 31"
    "\<forall>r\<in>set (rt_outputs t). ro_address r \<noteq> None"
    by (auto simp: fits_columns_def split: option.splits)
  show "\<exists>row. map_transaction m t key = Inr row" "\<exists>row. map_block_transaction t = Inr row"
    using v by (auto simp: mapping_defs map_block_transaction_def sbind_Inr_iff in_signed_uint)
  have "\<exists>rows. traverse g xs = Inr rows" if "\<And>x. x \<in> set xs \<Longrightarrow> \<exists>y. g x = Inr y" for g :: "rpc_output \<Rightarrow> panic + 'x" and xs
    using that by (induction xs) (auto simp: sbind_Inr_iff)
  note total = this
  show "\<exists>rows. map_transaction_outputs_address f t = Inr rows" "\<exists>rows. map_transaction_outputs_script t = Inr rows"
    using v by (auto simp: map_transaction_outputs_address_def map_transaction_outputs_script_def sbind_Inr_iff in_signed_uint
        intro!: total)
qed

section \<open>Adding transactions\<close>

lemma enter_live:
  assumes "fits_columns t" "config_live cfg" "batch_live pos L cfg st"
  shows "\<exists>st'. enter_transaction L ops cfg t h key st = Inr st' \<and> batch_live pos L cfg st' \<and> ts_checkpoints st' = ts_checkpoints st"
proof -
  let ?m = "tc_mapper cfg"
  from relations_map [OF assms(1)] obtain row aa ss where r: "map_transaction ?m t key = Inr row"
    "map_transaction_outputs_address (payload_to_string L) t = Inr aa" "map_transaction_outputs_script t = Inr ss" by metis
  from inputs_map [OF assms(1)] obtain ins where i: "map_transaction_inputs ?m t = Inr ins"
    "m_tx_in_previous_outpoint ?m \<longrightarrow> (\<forall>i\<in>set ins. in_previous_outpoint_hash i \<noteq> None \<and> in_previous_outpoint_index i \<noteq> None)"
    by blast
  from outputs_map [OF assms(1)] obtain outs where o: "map_transaction_outputs (payload_to_string L) ?m t = Inr outs"
    "\<forall>r\<in>set outs. (\<forall>x. out_amount r = Some x \<longrightarrow> 0 \<le> x) \<and> (m_tx_out_script_public_key_address ?m \<longrightarrow> out_script_public_key_address r \<noteq> None)
        \<and> (m_tx_out_script_public_key ?m \<longrightarrow> out_script_public_key r \<noteq> None)" by blast
  have ok: "\<forall>i\<in>set ins. has_outpoint cfg i" "\<forall>r\<in>set outs. relation_ready pos cfg r"
    using assms(2) i(2) o(2) by (auto simp: has_outpoint_def relation_ready_def config_live_def)
  obtain known cache where c: "cache_contains ops (ts_cache st) h = (known, cache)" by (meson surj_pair)
  show ?thesis
    using assms(3) ok by (auto simp: enter_transaction_def Let_def c map_new_transaction_def r i(1) o(1) batch_live_def)
qed

lemma add_transactions_works:
  assumes "\<forall>t\<in>set ts. fits_columns t" "config_live cfg" "batch_live pos L cfg st"
  shows "works (outputs_ready pos cfg) (add_transactions L ops cfg ts st)
    (\<lambda>st'. batch_live pos L cfg st' \<and> ts_checkpoints st' = ts_checkpoints st)"
  using assms(1,3)
proof (induction ts arbitrary: st)
  case (Cons t ts)
  have f: "fits_columns t" using Cons.prems(1) by simp
  then obtain v where v: "rt_verbose t = Some v" by (auto simp: fits_columns_def split: option.splits)
  from relations_map(4) [OF f] obtain row where row: "map_block_transaction t = Inr row" by blast
  have sub: "works (outputs_ready pos cfg) (subnetwork_key_of (rt_subnetwork_id t) st)
      (\<lambda>(key, st1). batch_live pos L cfg st1 \<and> ts_checkpoints st1 = ts_checkpoints st)"
    unfolding subnetwork_key_of_def insert_subnetwork_def
    using Cons.prems(2) f
    by (auto simp: fits_columns_def batch_live_def outputs_ready_def split: option.splits
        intro!: works_ret works_bnd works_or_panic works_execute)
  have "works (outputs_ready pos cfg) (add_transaction L ops cfg t st)
      (\<lambda>st'. batch_live pos L cfg st' \<and> ts_checkpoints st' = ts_checkpoints st)"
    unfolding add_transaction_def
  proof (rule works_bnd [OF sub], clarify)
    fix key and st1 :: "'a tx_state"
    assume st1: "batch_live pos L cfg st1" "ts_checkpoints st1 = ts_checkpoints st"
    from enter_live [OF f assms(2) st1(1), where ops = ops and h = "tv_transaction_id v" and key = key] obtain st2 where
      st2: "enter_transaction L ops cfg t (tv_transaction_id v) key st1 = Inr st2" "batch_live pos L cfg st2"
      "ts_checkpoints st2 = ts_checkpoints st1" by blast
    show "works (outputs_ready pos cfg) (bnd (lift_res (expect unwrap_msg (rt_verbose t))) (\<lambda>v.
        bnd (lift_res (enter_transaction L ops cfg t (tv_transaction_id v) key st1)) (\<lambda>st2.
        bnd (lift_res (map_block_transaction t)) (\<lambda>row. ret (st2\<lparr>ts_block_tx := ts_block_tx st2 @ [row]\<rparr>)))))
      (\<lambda>st'. batch_live pos L cfg st' \<and> ts_checkpoints st' = ts_checkpoints st)"
      using st1(2) st2 by (simp add: works_def bnd_def lift_res_def ret_def v row batch_live_def)
  qed
  then show ?case
    unfolding add_transactions.simps
  proof (rule works_bnd)
    fix st1 :: "'a tx_state" assume "batch_live pos L cfg st1 \<and> ts_checkpoints st1 = ts_checkpoints st"
    with Cons.IH [of st1] Cons.prems(1) show "works (outputs_ready pos cfg) (add_transactions L ops cfg ts st1)
      (\<lambda>st'. batch_live pos L cfg st' \<and> ts_checkpoints st' = ts_checkpoints st)" by simp
  qed
qed (simp add: works_ret)

text \<open>On any connection, what is added keeps the batch ready.\<close>

lemma subnetwork_key_live:
  "subnetwork_key_of s st p = (Inr (key, st1), p') \<Longrightarrow> batch_live pos L cfg st \<Longrightarrow> batch_live pos L cfg st1"
  by (auto simp: subnetwork_key_of_def bnd_Inr_iff ret_def batch_live_def split: option.splits)

lemma add_transactions_live:
  assumes "add_transactions L ops cfg ts st p = (Inr st', p')" "\<forall>t\<in>set ts. fits_columns t" "config_live cfg" "batch_live pos L cfg st"
  shows "batch_live pos L cfg st'"
  using assms(1,2,4)
proof (induction ts arbitrary: st p)
  case (Cons t ts)
  from Cons.prems(1) obtain st3 p2 where 2: "add_transaction L ops cfg t st p = (Inr st3, p2)"
    "add_transactions L ops cfg ts st3 p2 = (Inr st', p')"
    by (auto simp: bnd_Inr_iff)
  from 2(1) obtain key st1 q where 1: "subnetwork_key_of (rt_subnetwork_id t) st p = (Inr (key, st1), q)" and
    r: "bnd (lift_res (expect unwrap_msg (rt_verbose t))) (\<lambda>v.
        bnd (lift_res (enter_transaction L ops cfg t (tv_transaction_id v) key st1)) (\<lambda>st2.
        bnd (lift_res (map_block_transaction t)) (\<lambda>row. ret (st2\<lparr>ts_block_tx := ts_block_tx st2 @ [row]\<rparr>)))) q = (Inr st3, p2)"
    unfolding add_transaction_def bnd_Inr_iff [where m = "subnetwork_key_of (rt_subnetwork_id t) st"] by auto
  from r obtain h st2 row where e: "enter_transaction L ops cfg t h key st1 = Inr st2"
    "st3 = st2\<lparr>ts_block_tx := ts_block_tx st2 @ [row]\<rparr>"
    by (auto simp: bnd_Inr_iff lift_res_def ret_def)
  have "batch_live pos L cfg st2"
    using enter_live [OF _ assms(3) subnetwork_key_live [OF 1 Cons.prems(3)], of t ops h key] e(1)
      Cons.prems(2) by auto
  then have "batch_live pos L cfg st3" by (simp add: batch_live_def e(2))
  from Cons.IH [OF 2(2) _ this] Cons.prems(2) show ?case by simp
qed (simp add: ret_def)

section \<open>Committing\<close>

lemma resolve_total:
  "\<forall>i\<in>set ins. has_outpoint cfg i \<Longrightarrow> tc_inputs_resolve cfg \<Longrightarrow> \<exists>rs. traverse (resolve_from_batch outs) ins = Inr rs"
  by (induction ins) (auto simp: has_outpoint_def sbind_Inr_iff split: option.splits)

lemma outputs_ready_other [simp]:
  "outputs_ready pos cfg (d\<lparr>t_transactions := a\<rparr>) = outputs_ready pos cfg d"
  "outputs_ready pos cfg (d\<lparr>t_inputs := b\<rparr>) = outputs_ready pos cfg d"
  "outputs_ready pos cfg (d\<lparr>t_addresses_transactions := c\<rparr>) = outputs_ready pos cfg d"
  "outputs_ready pos cfg (d\<lparr>t_scripts_transactions := e\<rparr>) = outputs_ready pos cfg d"
  "outputs_ready pos cfg (d\<lparr>t_blocks_transactions := f\<rparr>) = outputs_ready pos cfg d"
  by (simp_all add: outputs_ready_def)

lemma outputs_ready_insert:
  assumes "outputs_ready pos cfg d" "\<forall>r\<in>set rs. relation_ready pos cfg r"
  shows "outputs_ready pos cfg (d\<lparr>t_outputs := snd (insert_rows key rs (t_outputs d))\<rparr>)"
proof -
  from insert_rows_prefix [of key rs "t_outputs d"] obtain us where
    "snd (insert_rows key rs (t_outputs d)) = t_outputs d @ us" "set us \<subseteq> set rs" by blast
  with assms show ?thesis by (auto simp: outputs_ready_def subset_iff)
qed

lemma inputs_work:
  assumes "c \<in> set (chunks_of n rs)" "n * 9 \<le> bind_limit"
  shows "works (outputs_ready pos cfg) (insert_transaction_inputs b c) (\<lambda>_. True)"
proof -
  have "c \<noteq> []" "length c * 9 \<le> bind_limit"
    using chunks_of_bounds [OF assms(1)] assms(2) by (auto intro: le_trans mult_le_mono1)
  then show ?thesis
    unfolding insert_transaction_inputs_def by (intro works_execute) (auto simp: insert_values_ok)
qed

lemma commit_works:
  assumes "config_live cfg" "batch_live pos L cfg st" "sched_ok sched" "op \<in> set (concat (commit_tasks sched cfg st))"
  shows "works (outputs_ready pos cfg) op (\<lambda>_. True)"
proof -
  have s: "scale_ok (tc_batch_scale cfg)" "0 < nat (tc_batch_concurrency cfg)" using assms(1) by (auto simp: config_live_def)
  note fits = batch_u16_pos [OF s(1)] batch_u16_fits [OF s(1)]
  have n: "0 < batch_u16 250 8000 (tc_batch_scale cfg)" "batch_u16 250 8000 (tc_batch_scale cfg) * 9 \<le> bind_limit"
    by (rule fits; simp add: bind_limit_def)+
  have tx: "works (outputs_ready pos cfg) op (\<lambda>_. True)"
    if "op \<in> set (insert_txs sched (tc_batch_scale cfg) (tc_batch_concurrency cfg) rs)" for rs
    by (rule txs.chunk_task_works [OF that [unfolded insert_txs_def] fits assms(3) s(2)]) (simp_all add: bind_limit_def)
  have addr: "works (outputs_ready pos cfg) op (\<lambda>_. True)"
    if "op \<in> set (insert_output_tx_addr sched (tc_batch_scale cfg) (tc_batch_concurrency cfg) rs)" for rs
    by (rule addr_txs.chunk_task_works [OF that [unfolded insert_output_tx_addr_def] fits assms(3) s(2)]) (simp_all add: bind_limit_def)
  have script: "works (outputs_ready pos cfg) op (\<lambda>_. True)"
    if "op \<in> set (insert_output_tx_script sched (tc_batch_scale cfg) (tc_batch_concurrency cfg) rs)" for rs
    by (rule script_txs.chunk_task_works [OF that [unfolded insert_output_tx_script_def] fits assms(3) s(2)]) (simp_all add: bind_limit_def)
  have outs: "works (outputs_ready pos cfg) op (\<lambda>_. True)"
    if "op \<in> set (insert_tx_outputs sched (tc_batch_scale cfg) (tc_batch_concurrency cfg) (ts_outputs st))"
    by (rule outputs.chunk_task_works [OF that [unfolded insert_tx_outputs_def] fits assms(3) s(2)])
      (use assms(2) in \<open>auto simp: bind_limit_def batch_live_def intro!: outputs_ready_insert\<close>)
  have ins: "works (outputs_ready pos cfg) op (\<lambda>_. True)"
    if "op \<in> set (insert_tx_inputs sched (tc_batch_scale cfg) (tc_batch_concurrency cfg) b rs)" for b rs
    using works_chunk_task [OF that [unfolded insert_tx_inputs_def] n(1) assms(3) s(2)] inputs_work [OF _ n(2)] by blast
  have "\<exists>rs. traverse (resolve_from_batch (ts_outputs st)) (ts_inputs st) = Inr rs" if "tc_inputs_resolve cfg"
    using resolve_total [OF _ that] assms(2) by (simp add: batch_live_def)
  then show ?thesis
    using assms(4) by (auto simp: commit_tasks_def Let_def split: if_splits dest!: tx addr script outs ins)
qed

lemma selected_works:
  assumes "\<And>d. outputs_ready pos cfg d \<Longrightarrow> None \<notin> set (sel d)" "\<And>t d. outputs_ready pos cfg d \<Longrightarrow> outputs_ready pos cfg (with_rows t d)"
  shows "works (outputs_ready pos cfg) (execute (\<lambda>d. insert_selected key (sel d) rows with_rows d)) (\<lambda>_. True)"
  by (rule works_execute) (use assms in \<open>auto simp: insert_selected_def split: prod.splits\<close>)

lemma from_inputs_outputs: "(r, tid, time) \<in> set (from_inputs use_tx ids d) \<Longrightarrow> r \<in> set (t_outputs d)"
  by (auto simp: from_inputs_def split: if_splits)

lemma from_inputs_work:
  assumes "\<not> tc_disable_addresses cfg"
  shows "\<not> tc_exclude_address cfg \<Longrightarrow> works (outputs_ready pos cfg) (insert_address_transactions_from_inputs b ids) (\<lambda>_. True)"
    and "tc_exclude_address cfg \<Longrightarrow> \<not> tc_exclude_script cfg \<Longrightarrow>
      works (outputs_ready pos cfg) (insert_script_transactions_from_inputs b ids) (\<lambda>_. True)"
  unfolding insert_address_transactions_from_inputs_def insert_script_transactions_from_inputs_def
  using assms
  by (intro selected_works; force simp: outputs_ready_def relation_ready_def dest!: from_inputs_outputs)+

lemma relations_work:
  assumes "config_live cfg" "sched_ok sched" "op \<in> set (concat (relation_tasks sched cfg st))"
  shows "works (outputs_ready pos cfg) op (\<lambda>_. True)"
proof -
  have s: "scale_ok (tc_batch_scale cfg)" "0 < nat (tc_batch_concurrency cfg)" using assms(1) by (auto simp: config_live_def)
  note fits = batch_u16_pos [OF s(1)] batch_u16_fits [OF s(1)]
  have n: "0 < batch_u16 250 8000 (tc_batch_scale cfg)" by (rule fits(1)) simp_all
  have rel: "works (outputs_ready pos cfg) op (\<lambda>_. True)"
    if "op \<in> set (insert_block_txs sched (tc_batch_scale cfg) (tc_batch_concurrency cfg) rs)" for rs
    by (rule block_txs.chunk_task_works [OF that [unfolded insert_block_txs_def] fits assms(2) s(2)]) (simp_all add: bind_limit_def)
  show ?thesis
    using assms(3) from_inputs_work [of cfg]
    by (auto simp: relation_tasks_def Let_def insert_input_tx_addr_def insert_input_tx_script_def split: if_splits
        dest!: rel elim!: works_loop_task [OF _ n])
qed

lemma commit_batch_works:
  assumes "config_live cfg" "batch_live pos L cfg st" "sched_ok sched" "mrg_ok mrg" "ts_checkpoints st \<noteq> []"
  shows "works (outputs_ready pos cfg) (commit_batch L sched mrg cfg instant st)
    (\<lambda>(st', mb, pushed). batch_live pos L cfg st' \<and> pushed @ ts_checkpoints st' = ts_checkpoints st)"
proof -
  let ?c = "last (ts_checkpoints st)"
  have "times_ok L (cb_timestamp ?c)" using assms(2,5) by (simp add: batch_live_def)
  then have m: "millis_ok L (as_i64 (cb_timestamp ?c))" "millis_ok L (whole_seconds (cb_timestamp ?c))"
    by (simp_all add: times_ok_def)
  have c: "works (outputs_ready pos cfg) (run_statements (mrg (commit_tasks sched cfg st))) (\<lambda>_. True)"
    by (rule works_merged [OF assms(4) commit_works [OF assms(1-3)]])
  have r: "works (outputs_ready pos cfg) (run_statements (mrg (relation_tasks sched cfg st))) (\<lambda>_. True)"
    by (rule works_merged [OF assms(4) relations_work [OF assms(1,3)]])
  show ?thesis
    unfolding commit_batch_def
    by (rule works_bnd [OF c], rule works_bnd [OF r])
      (simp add: works_def bnd_def lift_res_def ret_def assms(5) metrics_block_of_def m batch_live_def)
qed

lemma step_works:
  assumes "config_live cfg" "batch_live pos L cfg st" "sched_ok sched" "mrg_ok mrg"
    and "\<forall>td\<in>set_option (fst e). block_ok L td"
  shows "works (outputs_ready pos cfg) (process_transactions_step L ops sched mrg cfg e st)
    (\<lambda>(st', mb, pushed). batch_live pos L cfg st' \<and>
       pushed @ ts_checkpoints st' = ts_checkpoints st @ map checkpoint_of (case fst e of None \<Rightarrow> [] | Some td \<Rightarrow> [td]))"
proof (cases "fst e")
  case None
  then show ?thesis using assms(2) by (cases e) (simp add: process_transactions_step_def works_ret)
next
  case (Some td)
  obtain t t' where e: "e = (Some td, t, t')" using Some by (cases e) auto
  let ?st = "st\<lparr>ts_checkpoints := ts_checkpoints st @ [checkpoint_of td]\<rparr>"
  have td: "times_ok L (td_block_timestamp td)" "\<forall>t\<in>set (td_transactions td). fits_columns t"
    using assms(5) by (simp_all add: Some block_ok_def)
  have st: "batch_live pos L cfg ?st" using assms(2) td(1) by (auto simp: batch_live_def checkpoint_of_def)
  define Q where "Q = (\<lambda>(st', mb :: metrics_block option, pushed). batch_live pos L cfg (st' :: 'a tx_state) \<and> pushed @ ts_checkpoints st' = ts_checkpoints ?st)"
  have rest: "works (outputs_ready pos cfg) (if batch_ready cfg t st1 then commit_batch L sched mrg cfg t' st1 else ret (st1, None, [])) Q"
    if "batch_live pos L cfg st1 \<and> ts_checkpoints st1 = ts_checkpoints ?st" for st1
    using commit_batch_works [OF assms(1) _ assms(3,4), where st = st1 and instant = t'] that
    by (auto simp: Q_def intro: works_ret)
  have "works (outputs_ready pos cfg) (bnd (add_transactions L ops cfg (td_transactions td) ?st)
      (\<lambda>st1. if batch_ready cfg t st1 then commit_batch L sched mrg cfg t' st1 else ret (st1, None, []))) Q"
    by (rule works_bnd [OF add_transactions_works [OF td(2) assms(1) st] rest])
  then show ?thesis by (simp add: process_transactions_step_def e checkpoint_of_def Q_def split_beta)
qed

lemma step_live:
  assumes "process_transactions_step L ops sched mrg cfg (popped, t, t') st p = (Inr (st', mb, pushed), p')"
    and "config_live cfg" "batch_live pos L cfg st" "\<forall>td\<in>set_option popped. block_ok L td"
  shows "batch_live pos L cfg st' \<and> (\<forall>c\<in>set pushed. times_ok L (cb_timestamp c))"
proof (cases popped)
  case None
  then show ?thesis using assms(1,3) by (simp add: process_transactions_step_def ret_def)
next
  case (Some td)
  let ?st = "st\<lparr>ts_checkpoints := ts_checkpoints st @ [checkpoint_of td]\<rparr>"
  from assms(1) Some obtain st1 q where
    a: "add_transactions L ops cfg (td_transactions td) ?st p = (Inr st1, q)" and
    c: "(if batch_ready cfg t st1 then commit_batch L sched mrg cfg t' st1 else ret (st1, None, [])) q = (Inr (st', mb, pushed), p')"
    by (auto simp: process_transactions_step_def bnd_Inr_iff checkpoint_of_def)
  have "batch_live pos L cfg ?st"
    using assms(3,4) Some by (auto simp: batch_live_def block_ok_def checkpoint_of_def)
  from add_transactions_live [OF a _ assms(2) this] assms(4) Some have "batch_live pos L cfg st1" by (simp add: block_ok_def)
  then show ?thesis
    using c by (auto simp: commit_batch_def bnd_Inr_iff lift_res_def ret_def batch_live_def split: if_splits)
qed

lemma run_works:
  assumes "config_live cfg" "sched_ok sched" "mrg_ok mrg" "batch_live pos L cfg st"
    and "\<forall>e\<in>set es. \<forall>td\<in>set_option (fst e). block_ok L td"
  shows "works (outputs_ready pos cfg) (process_transactions_run L ops sched mrg cfg es st)
    (\<lambda>(st', pushed). pushed @ ts_checkpoints st' = ts_checkpoints st @ map checkpoint_of (List.map_filter fst es))"
  using assms(4,5)
proof (induction es arbitrary: st)
  case (Cons e es)
  have tds: "\<forall>td\<in>set_option (fst e). block_ok L td" "\<forall>e\<in>set es. \<forall>td\<in>set_option (fst e). block_ok L td"
    using Cons.prems(2) by auto
  have rest: "works (outputs_ready pos cfg) (bnd (process_transactions_run L ops sched mrg cfg es st1) (\<lambda>(st2, more).
        ret (st2, pushed @ more)))
      (\<lambda>(st', out). out @ ts_checkpoints st' = ts_checkpoints st @ map checkpoint_of (List.map_filter fst (e # es)))"
    if "batch_live pos L cfg st1" "pushed @ ts_checkpoints st1 = ts_checkpoints st @ map checkpoint_of (case fst e of None \<Rightarrow> [] | Some td \<Rightarrow> [td])"
    for st1 pushed
    using that(2)
    by (auto intro!: works_bnd [OF Cons.IH [OF that(1) tds(2)]] works_ret simp: map_filter_simps split: option.splits)
  show ?case
    unfolding process_transactions_run.simps
    by (rule works_bnd [OF step_works [OF assms(1) Cons.prems(1) assms(2,3) tds(1)]]) (use rest in auto)
qed (simp add: works_ret map_filter_simps)

section \<open>No run panics\<close>

lemma config_of_live:
  assumes "check_batch_args args = Inr ()" "batch_scale args \<noteq> NaN"
    and "\<not> (is_enabled args TransactionsInputsResolve \<and> is_excluded args TxInPreviousOutpoint)"
  shows "config_live (tx_config_of args (mapper_new args))"
  using assms by (auto simp: config_live_def tx_config_of_def mapper_new_def check_batch_args_Inr)

text \<open>C15: a healthy connection is enough for the transaction processor: with arguments that pass the check of
  the start, a batch scale that is a number, and no resolving of inputs without their outpoints,
  no run of it panics, in whatever order the concurrent statements take effect and whatever the cache
  answers, as long as every transaction of the popped blocks fits the columns and no output in the table
  lacks the address or script the relations need; and no popped block is lost: in order, they
  are those handed on and those still in the batch.\<close>

theorem transaction_run_succeeds:
  assumes "healthy p" "check_batch_args args = Inr ()" "batch_scale args \<noteq> NaN"
    and "\<not> (is_enabled args TransactionsInputsResolve \<and> is_excluded args TxInPreviousOutpoint)"
    and "sched_ok sched" "mrg_ok mrg"
    and "outputs_ready False (tx_config_of args (mapper_new args)) (data p)"
    and "\<forall>e\<in>set es. \<forall>td\<in>set_option (fst e). block_ok L td"
  shows "\<exists>st pushed p'. bnd (tx_start empty_cache t0)
        (process_transactions_run L ops sched mrg (tx_config_of args (mapper_new args)) es) p = (Inr (st, pushed), p')
    \<and> pushed @ ts_checkpoints st = map checkpoint_of (List.map_filter fst es)"
proof -
  let ?cfg = "tx_config_of args (mapper_new args)"
  have "works (outputs_ready False ?cfg) (tx_start empty_cache t0) (\<lambda>st. batch_live False L ?cfg st \<and> ts_checkpoints st = [])"
    unfolding tx_start_def select_subnetworks_def
    by (rule works_bnd [where Q = "\<lambda>_. True", OF works_or_panic [OF works_query]]) (simp_all add: works_ret batch_live_def)
  then have "works (outputs_ready False ?cfg) (bnd (tx_start empty_cache t0) (process_transactions_run L ops sched mrg ?cfg es))
      (\<lambda>(st, pushed). pushed @ ts_checkpoints st = map checkpoint_of (List.map_filter fst es))"
  proof (rule works_bnd)
    fix st :: "'a tx_state" assume "batch_live False L ?cfg st \<and> ts_checkpoints st = []"
    with run_works [OF config_of_live [OF assms(2-4)] assms(5,6) _ assms(8), where st = st and ops = ops and pos = False]
    show "works (outputs_ready False ?cfg) (process_transactions_run L ops sched mrg ?cfg es st)
      (\<lambda>(st, pushed). pushed @ ts_checkpoints st = map checkpoint_of (List.map_filter fst es))" by simp
  qed
  from works_E [OF this assms(1,7)] show ?thesis by fastforce
qed

theorem transaction_run_succeeds_witness:
  "\<exists>st pushed p'. bnd (tx_start [] 0) (process_transactions_run sample_libs list_cache (\<lambda>k n. [0..<n]) concat
        (tx_config_of sample_args (mapper_new sample_args)) [(Some sample_td, 0, 0), (None, 1, 1)]) (pool_of schema_db)
      = (Inr (st, pushed), p')
    \<and> pushed @ ts_checkpoints st = [checkpoint_of sample_td]"
proof -
  have "\<forall>e\<in>set [(Some sample_td, 0 :: nat, 0 :: nat), (None, 1, 1)]. \<forall>td\<in>set_option (fst e). block_ok sample_libs td"
    by (simp add: block_ok_def sample_td_def fits_columns_def times_ok_def sample_libs_def)
  moreover have "check_batch_args sample_args = Inr ()" "batch_scale sample_args \<noteq> NaN"
    "\<not> (is_enabled sample_args TransactionsInputsResolve \<and> is_excluded sample_args TxInPreviousOutpoint)"
    "outputs_ready False (tx_config_of sample_args (mapper_new sample_args)) (data (pool_of schema_db))" "healthy (pool_of schema_db)"
    by (simp_all add: check_batch_args_def sample_args_def lit_0_1_def is_enabled_def outputs_ready_def schema_db_def)
  ultimately show ?thesis
    using transaction_run_succeeds [where p = "pool_of schema_db" and args = sample_args and L = sample_libs and mrg = concat
      and sched = "\<lambda>k n. [0..<n]" and empty_cache = "[]" and ?t0.0 = 0 and ops = list_cache
      and es = "[(Some sample_td, 0, 0), (None, 1, 1)]"] sched_ok_upt mrg_ok_concat
    by (simp add: map_filter_simps)
qed

end
