(* ===== verification/Process_Blocks.thy ===== *)
theory Process_Blocks
  imports Pipeline
begin

text \<open>
  The block processor (\<open>indexer/src/blocks/process_blocks.rs\<close>): a round pops a block into the
  batch and commits the batch when it is large or old enough; before the virtual chain
  processor runs, a commit also clears the acceptances of its blocks, and ten commits in a row
  that find nothing to clear start it.
\<close>

section \<open>Batch writers\<close>

definition insert_blocks_chunked :: "f64 \<Rightarrow> block_row list \<Rightarrow> (pool, panic, nat) sem" where
  "insert_blocks_chunked scale values =
     write_chunks ''Insert blocks FAILED'' (batch_usize 200 3500 scale) insert_blocks values"

definition insert_block_parents_chunked :: "f64 \<Rightarrow> block_parent_row list \<Rightarrow> (pool, panic, nat) sem" where
  "insert_block_parents_chunked scale values =
     write_chunks ''Insert block_parents FAILED'' (batch_usize 400 10000 scale) insert_block_parents values"

definition delete_transaction_acceptances_chunked :: "f64 \<Rightarrow> hash list \<Rightarrow> (pool, panic, nat) sem" where
  "delete_transaction_acceptances_chunked scale block_hashes =
     write_chunks ''Deleting transaction_acceptances FAILED'' (batch_usize 100 50000 scale)
       delete_transaction_acceptances block_hashes"

section \<open>The state\<close>

definition noop_deletes_before_vcp :: nat where
  "noop_deletes_before_vcp = 10"

record block_state =
  b_first :: bool
  b_vcp_started :: bool
  b_blocks :: "block_row list"
  b_parents :: "block_parent_row list"
  b_checkpoints :: "checkpoint_block list"
  b_last_commit :: nat
  b_noop :: nat

record block_config =
  bc_mapper :: mapper
  bc_batch_scale :: f64
  bc_disable_vcp :: bool
  bc_disable_vcp_wait :: bool
  bc_disable_blocks :: bool
  bc_disable_relations :: bool

definition block_config_of :: "settings \<Rightarrow> mapper \<Rightarrow> block_config" where
  "block_config_of s m = \<lparr>bc_mapper = m, bc_batch_scale = batch_scale (s_cli_args s),
     bc_disable_vcp = is_disabled (s_cli_args s) VirtualChainProcessing,
     bc_disable_vcp_wait = s_disable_vcp_wait_for_sync s,
     bc_disable_blocks = is_disabled (s_cli_args s) BlocksTable,
     bc_disable_relations = is_disabled (s_cli_args s) BlockParentTable\<rparr>"

definition block_start :: "nat \<Rightarrow> block_state" where
  "block_start now = \<lparr>b_first = True, b_vcp_started = False, b_blocks = [], b_parents = [],
     b_checkpoints = [], b_last_commit = now, b_noop = 0\<rparr>"

text \<open>The rows of one popped block.\<close>

definition block_checkpoint :: "block_data \<Rightarrow> checkpoint_block" where
  "block_checkpoint bd = (let h = rb_header (bd_block bd) in
     \<lparr>cb_origin = OriginBlocks, cb_hash = h_hash h, cb_timestamp = h_timestamp h,
      cb_daa_score = h_daa_score h, cb_blue_score = h_blue_score h\<rparr>)"

definition add_block :: "libs \<Rightarrow> block_config \<Rightarrow> block_data \<Rightarrow> block_state \<Rightarrow> panic + block_state" where
  "add_block L cfg bd b =
     sbind (if bc_disable_blocks cfg then Inr (b_blocks b)
            else sbind (map_block (blue_work_bytes L) (bc_mapper cfg) (bd_block bd))
                   (\<lambda>row. Inr (b_blocks b @ [row]))) (\<lambda>rows.
     Inr (b\<lparr>b_blocks := rows,
       b_parents := (if bc_disable_relations cfg then b_parents b
                     else b_parents b @ map_block_parents (bd_block bd)),
       b_checkpoints := b_checkpoints b @ [block_checkpoint bd]\<rparr>))"

definition blocks_ready :: "block_config \<Rightarrow> nat \<Rightarrow> block_state \<Rightarrow> bool" where
  "blocks_ready cfg now b \<longleftrightarrow>
     f64_as_unsigned 64 (f64_scale 800 (bc_batch_scale cfg)) \<le> length (b_checkpoints b)
     \<or> (b_checkpoints b \<noteq> [] \<and> secs_since now (b_last_commit b) > 2)"

text \<open>
  Before the virtual chain processor runs: clear, count the commits that cleared nothing, and
  start it after enough of them. The first block of all is not cleared.
\<close>

definition clear_acceptances :: "block_config \<Rightarrow> bool \<Rightarrow> block_state \<Rightarrow> (pool, panic, block_state) sem" where
  "clear_acceptances cfg synced b =
     (if \<not> b_vcp_started b \<and> \<not> bc_disable_vcp cfg then
        bnd (delete_transaction_acceptances_chunked (bc_batch_scale cfg)
               (map cb_hash (drop (if b_first b then 1 else 0) (b_checkpoints b)))) (\<lambda>tas_deleted.
        let n = (if (bc_disable_vcp_wait cfg \<or> synced) \<and> tas_deleted = 0 then b_noop b + 1 else 0) in
        ret (b\<lparr>b_first := False, b_noop := n, b_vcp_started := (n \<ge> noop_deletes_before_vcp)\<rparr>))
      else ret b)"

text \<open>
  A commit hands on the block for the metrics and the checkpoint blocks; the notification
  flag of the virtual chain processor is \<open>b_vcp_started\<close>.
\<close>

definition commit_blocks ::
  "libs \<Rightarrow> block_config \<Rightarrow> bool \<Rightarrow> nat \<Rightarrow> block_state \<Rightarrow>
     (pool, panic, block_state \<times> metrics_block option \<times> checkpoint_block list) sem" where
  "commit_blocks L cfg synced now b =
     bnd (lift_res (if b_checkpoints b = [] then Inl (Panic unwrap_msg) else Inr (last (b_checkpoints b)))) (\<lambda>lc.
     bnd (if bc_disable_blocks cfg then ret 0
          else insert_blocks_chunked (bc_batch_scale cfg) (b_blocks b)) (\<lambda>_.
     bnd (if bc_disable_relations cfg then ret 0
          else insert_block_parents_chunked (bc_batch_scale cfg) (b_parents b)) (\<lambda>_.
     bnd (lift_res (if millis_ok L (as_i64 (cb_timestamp lc)) then Inr () else Inl (Panic unwrap_msg))) (\<lambda>_.
     bnd (clear_acceptances cfg synced b) (\<lambda>b1.
     bnd (lift_res (metrics_block_of L lc)) (\<lambda>mb.
     ret (b1\<lparr>b_blocks := [], b_parents := [], b_checkpoints := [], b_last_commit := now\<rparr>,
          Some mb, b_checkpoints b)))))))"

definition process_blocks_step ::
  "libs \<Rightarrow> block_config \<Rightarrow> block_data option \<times> nat \<times> nat \<Rightarrow> block_state \<Rightarrow>
     (pool, panic, block_state \<times> metrics_block option \<times> checkpoint_block list) sem" where
  "process_blocks_step L cfg = (\<lambda>(popped, now, now') b.
     case popped of
       None \<Rightarrow> ret (b, None, [])
     | Some bd \<Rightarrow>
         bnd (lift_res (add_block L cfg bd b)) (\<lambda>b1.
         if blocks_ready cfg now b1 then commit_blocks L cfg (bd_synced bd) now' b1
         else ret (b1, None, [])))"

fun process_blocks_run ::
  "libs \<Rightarrow> block_config \<Rightarrow> (block_data option \<times> nat \<times> nat) list \<Rightarrow> block_state \<Rightarrow>
     (pool, panic, block_state \<times> checkpoint_block list) sem" where
  "process_blocks_run L cfg [] b = ret (b, [])"
| "process_blocks_run L cfg (e # es) b =
     bnd (process_blocks_step L cfg e b) (\<lambda>(b1, _, pushed).
     bnd (process_blocks_run L cfg es b1) (\<lambda>(b2, more).
     ret (b2, pushed @ more)))"

section \<open>When the virtual chain processor starts\<close>

text \<open>
  The acceptances of a database by block, and the commits of a run: a commit is quiet when it
  may count and finds nothing to clear.
\<close>

definition vcp_start_inv :: "block_state \<Rightarrow> bool" where
  "vcp_start_inv b \<longleftrightarrow> (b_vcp_started b \<longleftrightarrow> b_noop b \<ge> noop_deletes_before_vcp)"

lemma clear_acceptances_Inr:
  assumes "clear_acceptances cfg synced b p = (Inr b1, p')" "vcp_start_inv b"
  shows "vcp_start_inv b1 \<and> b_noop b1 \<le> b_noop b + 1
    \<and> (b_vcp_started b1 \<and> \<not> b_vcp_started b \<longrightarrow> bc_disable_vcp_wait cfg \<or> synced)
    \<and> (b_vcp_started b \<longrightarrow> b1 = b \<and> p' = p)
    \<and> b_checkpoints b1 = b_checkpoints b \<and> b_blocks b1 = b_blocks b \<and> b_parents b1 = b_parents b"
  using assms
  by (auto simp: clear_acceptances_def vcp_start_inv_def bnd_Inr_iff ret_def Let_def
      noop_deletes_before_vcp_def split: if_splits)

lemma step_vcp_start:
  assumes "process_blocks_step L cfg e b p = (Inr (b1, mb, pushed), p')" "vcp_start_inv b"
  shows "vcp_start_inv b1 \<and> b_noop b1 \<le> b_noop b + length pushed
    \<and> (b_vcp_started b \<longrightarrow> b_vcp_started b1)
    \<and> (b_vcp_started b1 \<and> \<not> b_vcp_started b \<longrightarrow>
        bc_disable_vcp_wait cfg \<or> (\<exists>bd now now'. e = (Some bd, now, now') \<and> bd_synced bd))"
proof -
  obtain popped now now' where e: "e = (popped, now, now')" by (cases e) auto
  show ?thesis
  proof (cases popped)
    case None
    then show ?thesis using assms by (auto simp: process_blocks_step_def e ret_def)
  next
    case (Some bd)
    with assms(1) obtain b0 where add: "add_block L cfg bd b = Inr b0" and
      rest: "(if blocks_ready cfg now b0 then commit_blocks L cfg (bd_synced bd) now' b0
         else ret (b0, None, [])) p = (Inr (b1, mb, pushed), p')"
      by (auto simp: process_blocks_step_def e bnd_Inr_iff lift_res_def)
    have b0: "b_vcp_started b0 = b_vcp_started b" "b_noop b0 = b_noop b" "vcp_start_inv b0"
      using add assms(2) by (auto simp: add_block_def sbind_Inr_iff vcp_start_inv_def split: if_splits)
    show ?thesis
    proof (cases "blocks_ready cfg now b0")
      case False
      then show ?thesis using rest b0 by (auto simp: ret_def)
    next
      case True
      then obtain q q' b2 where c: "clear_acceptances cfg (bd_synced bd) b0 q = (Inr b2, q')"
        and b1: "b1 = b2\<lparr>b_blocks := [], b_parents := [], b_checkpoints := [], b_last_commit := now'\<rparr>"
        and pushed: "pushed = b_checkpoints b0" "b_checkpoints b0 \<noteq> []"
        using rest by (auto simp: commit_blocks_def bnd_Inr_iff lift_res_def ret_def split: if_splits)
      from clear_acceptances_Inr [OF c b0(3)] show ?thesis
        using b0 pushed by (cases "b_checkpoints b0") (auto simp: b1 e Some vcp_start_inv_def)
    qed
  qed
qed

text \<open>The virtual chain processor is started exactly when the count of quiet commits in a row
  reaches ten, a count that never exceeds the number of blocks handed on, and only by a block
  fetched in sync (or when waiting for sync is disabled).\<close>

lemma vcp_starts_after_quiet_commits:
  assumes "process_blocks_run L cfg es (block_start t0) p = (Inr (b, pushed), p')"
  shows "(b_vcp_started b \<longleftrightarrow> noop_deletes_before_vcp \<le> b_noop b) \<and> b_noop b \<le> length pushed
    \<and> (b_vcp_started b \<longrightarrow> bc_disable_vcp_wait cfg
        \<or> (\<exists>bd now now'. (Some bd, now, now') \<in> set es \<and> bd_synced bd))"
proof -
  have gen: "vcp_start_inv b \<and> b_noop b \<le> b_noop a + length pushed
    \<and> (b_vcp_started b \<longrightarrow> b_vcp_started a \<or> bc_disable_vcp_wait cfg
        \<or> (\<exists>bd now now'. (Some bd, now, now') \<in> set es \<and> bd_synced bd))"
    if "process_blocks_run L cfg es a p = (Inr (b, pushed), p')" "vcp_start_inv a" for es a p pushed
    using that
  proof (induction es arbitrary: a p pushed)
    case Nil
    then show ?case by (simp add: ret_def)
  next
    case (Cons e es)
    from Cons.prems(1) obtain r p1 where r: "process_blocks_step L cfg e a p = (Inr r, p1)" and
      rest: "(case r of (b1, mb, pushed1) \<Rightarrow> bnd (process_blocks_run L cfg es b1) (\<lambda>(b2, more).
        ret (b2, pushed1 @ more))) p1 = (Inr (b, pushed), p')"
      by (auto simp only: process_blocks_run.simps bnd_Inr_iff)
    obtain b1 mb pushed1 where r3: "r = (b1, mb, pushed1)" by (cases r)
    from rest r3 obtain more where 2: "process_blocks_run L cfg es b1 p1 = (Inr (b, more), p')"
      and p: "pushed = pushed1 @ more" by (auto simp: bnd_Inr_iff ret_def)
    note s = step_vcp_start [OF r [unfolded r3] Cons.prems(2)]
    then have "vcp_start_inv b1" by blast
    from Cons.IH [OF 2 this] s show ?case by (auto simp: p)
  qed
  have "vcp_start_inv (block_start t0)"
    by (simp add: vcp_start_inv_def block_start_def noop_deletes_before_vcp_def)
  from gen [OF assms this] show ?thesis
    by (simp add: vcp_start_inv_def block_start_def)
qed

section \<open>Checkpoints follow the rows\<close>

definition block_stored :: "block_config \<Rightarrow> db \<Rightarrow> block_data \<Rightarrow> bool" where
  "block_stored cfg d bd \<longleftrightarrow>
     (\<not> bc_disable_blocks cfg \<longrightarrow> h_hash (rb_header (bd_block bd)) \<in> blk_hash ` set (t_blocks d))
   \<and> (\<not> bc_disable_relations cfg \<longrightarrow> set (map_block_parents (bd_block bd)) \<subseteq> set (t_block_parent d))"

definition block_pending :: "block_config \<Rightarrow> block_state \<Rightarrow> block_data \<Rightarrow> bool" where
  "block_pending cfg b bd \<longleftrightarrow>
     (\<not> bc_disable_blocks cfg \<longrightarrow> h_hash (rb_header (bd_block bd)) \<in> blk_hash ` set (b_blocks b))
   \<and> (\<not> bc_disable_relations cfg \<longrightarrow> set (map_block_parents (bd_block bd)) \<subseteq> set (b_parents b))"

text \<open>The batch holds the blocks \<open>pend\<close>, in the order popped.\<close>

definition block_batch :: "block_config \<Rightarrow> block_data list \<Rightarrow> block_state \<Rightarrow> bool" where
  "block_batch cfg pend b \<longleftrightarrow> b_checkpoints b = map block_checkpoint pend \<and> (\<forall>bd\<in>set pend. block_pending cfg b bd)"

lemma block_batch_empty: "block_batch cfg [] b \<longleftrightarrow> b_checkpoints b = []"
  by (simp add: block_batch_def)

definition keeps_blocks :: "db \<Rightarrow> db \<Rightarrow> bool" where
  "keeps_blocks d d' \<longleftrightarrow> set (t_blocks d) \<subseteq> set (t_blocks d') \<and> set (t_block_parent d) \<subseteq> set (t_block_parent d')"

lemma keeps_blocks_trans: "keeps_blocks a b \<Longrightarrow> keeps_blocks b c \<Longrightarrow> keeps_blocks a c"
  by (auto simp: keeps_blocks_def)

lemma block_stored_mono: "block_stored cfg d bd \<Longrightarrow> keeps_blocks d d' \<Longrightarrow> block_stored cfg d' bd"
  unfolding block_stored_def keeps_blocks_def by blast

lemma block_parent_row_mem:
  assumes "block_parent_key r \<in> block_parent_key ` set rs"
  shows "r \<in> set rs"
proof -
  from assms obtain x where "x \<in> set rs" "bp_block_hash r = bp_block_hash x"
    "bp_parent_hash r = bp_parent_hash x" by (auto simp: block_parent_key_def)
  then show ?thesis by (metis block_parent_row.equality old.unit.exhaust)
qed

lemma clear_keeps: "clear_acceptances cfg synced b p = (Inr b1, p') \<Longrightarrow> keeps_blocks (data p) (data p')"
  by (auto simp: clear_acceptances_def bnd_Inr_iff ret_def Let_def keeps_blocks_def
      delete_transaction_acceptances_chunked_def split: if_splits dest!: delete_chunks_Inr)

lemma commit_blocks_Inr:
  assumes "commit_blocks L cfg synced now b p = (Inr (b1, mb, pushed), p')"
  shows "pushed = b_checkpoints b \<and> b_checkpoints b1 = [] \<and> keeps_blocks (data p) (data p')
    \<and> (\<forall>bd. block_pending cfg b bd \<longrightarrow> block_stored cfg (data p') bd)"
proof -
  from assms obtain n1 q1 n2 q2 b2 where
    1: "(if bc_disable_blocks cfg then ret 0
         else insert_blocks_chunked (bc_batch_scale cfg) (b_blocks b)) p = (Inr n1, q1)" and
    2: "(if bc_disable_relations cfg then ret 0
         else insert_block_parents_chunked (bc_batch_scale cfg) (b_parents b)) q1 = (Inr n2, q2)" and
    3: "clear_acceptances cfg synced b q2 = (Inr b2, p')" and
    4: "b1 = b2\<lparr>b_blocks := [], b_parents := [], b_checkpoints := [], b_last_commit := now\<rparr>"
      "pushed = b_checkpoints b"
    by (auto simp: commit_blocks_def bnd_Inr_iff lift_res_def ret_def split: if_splits)
  have k1: "keeps_blocks (data p) (data q1) \<and> (\<not> bc_disable_blocks cfg \<longrightarrow>
      block_key ` set (b_blocks b) \<subseteq> block_key ` set (t_blocks (data q1)))"
  proof (cases "bc_disable_blocks cfg")
    case False
    with 1 have w: "write_chunks ''Insert blocks FAILED'' (batch_usize 200 3500 (bc_batch_scale cfg))
        insert_blocks (b_blocks b) p = (Inr n1, q1)" by (simp add: insert_blocks_chunked_def)
    show ?thesis
      using blocks.write_chunks_Inr [OF w] insert_rows_prefix [of block_key "b_blocks b" "t_blocks (data p)"]
        blocks.write_chunks_keys [OF w] by (auto simp: keeps_blocks_def block_key_def)
  qed (use 1 in \<open>simp add: ret_def keeps_blocks_def\<close>)
  have k2: "keeps_blocks (data q1) (data q2) \<and> (\<not> bc_disable_relations cfg \<longrightarrow>
      set (b_parents b) \<subseteq> set (t_block_parent (data q2)))"
  proof (cases "bc_disable_relations cfg")
    case False
    with 2 have w: "write_chunks ''Insert block_parents FAILED'' (batch_usize 400 10000 (bc_batch_scale cfg))
        insert_block_parents (b_parents b) q1 = (Inr n2, q2)" by (simp add: insert_block_parents_chunked_def)
    have "r \<in> set (t_block_parent (data q2))" if "r \<in> set (b_parents b)" for r
      by (rule block_parent_row_mem, rule block_parents.write_chunks_keys [OF w that])
        (simp add: block_parent_key_def)
    then show ?thesis
      using block_parents.write_chunks_Inr [OF w]
        insert_rows_prefix [of block_parent_key "b_parents b" "t_block_parent (data q1)"]
      by (auto simp: keeps_blocks_def)
  qed (use 2 in \<open>simp add: ret_def keeps_blocks_def\<close>)
  note k3 = clear_keeps [OF 3]
  have "block_stored cfg (data p') bd" if "block_pending cfg b bd" for bd
    using that k1 k2 k3 unfolding block_pending_def block_stored_def keeps_blocks_def block_key_def
    by (auto simp: image_iff subset_iff) blast+
  then show ?thesis
    using 4 k1 k2 keeps_blocks_trans [OF keeps_blocks_trans k3] by auto
qed

lemma add_block_batch:
  assumes "add_block L cfg bd b = Inr b0" "block_batch cfg pend b"
  shows "block_batch cfg (pend @ [bd]) b0"
proof -
  have ext: "set (b_blocks b) \<subseteq> set (b_blocks b0)" "set (b_parents b) \<subseteq> set (b_parents b0)"
    "b_checkpoints b0 = b_checkpoints b @ [block_checkpoint bd]" "block_pending cfg b0 bd"
    using assms(1)
    by (auto simp: add_block_def sbind_Inr_iff block_pending_def mapping_defs Let_def split: if_splits)
  have "block_pending cfg b0 x" if "block_pending cfg b x" for x
    using that ext(1,2) unfolding block_pending_def by blast
  then show ?thesis using assms(2) ext(3,4) unfolding block_batch_def by auto
qed

text \<open>A round keeps the order: the popped block joins the batch, or a commit hands on the whole batch.\<close>

lemma blocks_step_ordered:
  assumes "process_blocks_step L cfg e b p = (Inr (b1, mb, pushed), p')" "block_batch cfg pend b"
  defines "pend' \<equiv> pend @ (case fst e of None \<Rightarrow> [] | Some bd \<Rightarrow> [bd])"
  shows "keeps_blocks (data p) (data p')
    \<and> (pushed = [] \<and> block_batch cfg pend' b1
      \<or> pushed = map block_checkpoint pend' \<and> block_batch cfg [] b1 \<and> (\<forall>bd\<in>set pend'. block_stored cfg (data p') bd))"
proof -
  obtain popped now now' where e: "e = (popped, now, now')" by (cases e) auto
  show ?thesis
  proof (cases popped)
    case None
    then show ?thesis using assms
      by (auto simp: process_blocks_step_def e ret_def keeps_blocks_def)
  next
    case (Some bd)
    with assms(1) obtain b0 where add: "add_block L cfg bd b = Inr b0" and
      rest: "(if blocks_ready cfg now b0 then commit_blocks L cfg (bd_synced bd) now' b0
         else ret (b0, None, [])) p = (Inr (b1, mb, pushed), p')"
      by (auto simp: process_blocks_step_def e bnd_Inr_iff lift_res_def)
    have w: "block_batch cfg pend' b0"
      using add_block_batch [OF add assms(2)] by (simp add: pend'_def e Some)
    show ?thesis
    proof (cases "blocks_ready cfg now b0")
      case False
      then show ?thesis using rest w by (auto simp: ret_def keeps_blocks_def)
    next
      case True
      then have "commit_blocks L cfg (bd_synced bd) now' b0 p = (Inr (b1, mb, pushed), p')"
        using rest by simp
      from commit_blocks_Inr [OF this] w show ?thesis by (auto simp: block_batch_def)
    qed
  qed
qed

text \<open>A whole run: what was handed on, then what is still in the batch.\<close>

lemma blocks_run_ordered:
  assumes "process_blocks_run L cfg es b p = (Inr (b', pushed), p')" "block_batch cfg pend b"
  shows "\<exists>done pend'. pend @ List.map_filter fst es = done @ pend' \<and> block_batch cfg pend' b'
    \<and> pushed = map block_checkpoint done \<and> (\<forall>bd\<in>set done. block_stored cfg (data p') bd) \<and> keeps_blocks (data p) (data p')"
  using assms
proof (induction es arbitrary: b p pushed pend)
  case Nil
  then show ?case by (auto simp: ret_def keeps_blocks_def map_filter_simps)
next
  case (Cons e es)
  from Cons.prems(1) obtain r p1 where r: "process_blocks_step L cfg e b p = (Inr r, p1)" and
    rest: "(case r of (b1, mb, pushed1) \<Rightarrow> bnd (process_blocks_run L cfg es b1) (\<lambda>(b2, more).
      ret (b2, pushed1 @ more))) p1 = (Inr (b', pushed), p')"
    by (auto simp only: process_blocks_run.simps bnd_Inr_iff)
  obtain b1 mb pushed1 where r3: "r = (b1, mb, pushed1)" by (cases r)
  from rest r3 obtain more where 2: "process_blocks_run L cfg es b1 p1 = (Inr (b', more), p')"
    and p: "pushed = pushed1 @ more" by (auto simp: bnd_Inr_iff ret_def)
  define pend1 where "pend1 = pend @ (case fst e of None \<Rightarrow> [] | Some bd \<Rightarrow> [bd])"
  have all: "pend @ List.map_filter fst (e # es) = pend1 @ List.map_filter fst es"
    by (simp add: pend1_def map_filter_simps split: option.splits)
  from blocks_step_ordered [OF r [unfolded r3] Cons.prems(2), folded pend1_def] have k: "keeps_blocks (data p) (data p1)"
    and s: "pushed1 = [] \<and> block_batch cfg pend1 b1
      \<or> pushed1 = map block_checkpoint pend1 \<and> block_batch cfg [] b1 \<and> (\<forall>bd\<in>set pend1. block_stored cfg (data p1) bd)" by auto
  from s show ?case
  proof
    assume "pushed1 = [] \<and> block_batch cfg pend1 b1"
    with Cons.IH [OF 2, of pend1] k show ?thesis unfolding all p using keeps_blocks_trans by fastforce
  next
    assume c: "pushed1 = map block_checkpoint pend1 \<and> block_batch cfg [] b1 \<and> (\<forall>bd\<in>set pend1. block_stored cfg (data p1) bd)"
    with Cons.IH [OF 2, of "[]"] obtain dn pend' where i: "List.map_filter fst es = dn @ pend'" "block_batch cfg pend' b'"
      "more = map block_checkpoint dn" "\<forall>bd\<in>set dn. block_stored cfg (data p') bd" "keeps_blocks (data p1) (data p')" by auto
    have "\<forall>bd\<in>set (pend1 @ dn). block_stored cfg (data p') bd" using c i(4,5) block_stored_mono by auto
    moreover have "keeps_blocks (data p) (data p')" using k i(5) keeps_blocks_trans by blast
    ultimately show ?thesis
      unfolding all p using c i(1-3) by (intro exI [of _ "pend1 @ dn"] exI [of _ pend']) simp
  qed
qed

section \<open>A concrete run\<close>

definition sample_block_data :: block_data where
  "sample_block_data = \<lparr>bd_block = \<lparr>rb_header =
     \<lparr>h_hash = Hash [2], h_version = 1, h_parents_by_level = [[Hash [1]]], h_hash_merkle_root = Hash [],
      h_accepted_id_merkle_root = Hash [], h_utxo_commitment = Hash [], h_timestamp = 5, h_bits = 0,
      h_nonce = 0, h_daa_score = 9, h_blue_work = 0, h_blue_score = 9, h_pruning_point = Hash []\<rparr>,
     rb_transactions = [], rb_verbose = Some \<lparr>bv_hash = Hash [2], bv_selected_parent_hash = Hash [1],
       bv_transaction_ids = [], bv_merge_set_blues_hashes = [], bv_merge_set_reds_hashes = []\<rparr>\<rparr>,
     bd_synced = True\<rparr>"

definition sample_block_cfg :: block_config where
  "sample_block_cfg = \<lparr>bc_mapper = sample_mapper, bc_batch_scale = Fin 1, bc_disable_vcp = False,
     bc_disable_vcp_wait = False, bc_disable_blocks = False, bc_disable_relations = False\<rparr>"

lemma sample_block_run:
  "\<exists>b p. process_blocks_run sample_libs sample_block_cfg [(Some sample_block_data, 3000000000, 3000000000)]
     (block_start 0) (pool_of schema_db) = (Inr (b, [block_checkpoint sample_block_data]), p)
   \<and> b_noop b = 1"
proof -
  have chunks: "chunks_of 200 [r] = [[r]]" "chunks_of 400 [s] = [[s]]" for r :: block_row and s :: block_parent_row
    by (simp_all add: chunks_of_small)
  show ?thesis
    by (simp add: process_blocks_step_def sample_block_data_def sample_block_cfg_def add_block_def
        block_start_def mapping_defs map_block_parents_def lift_res_def bnd_def ret_def blocks_ready_def
        secs_since_def commit_blocks_def insert_blocks_chunked_def insert_block_parents_chunked_def
        write_chunks_run chunks or_panic_def blocks.ins_ok block_parents.ins_ok bind_limit_def
        clear_acceptances_def delete_transaction_acceptances_chunked_def sample_libs_def
        metrics_block_of_def Let_def block_checkpoint_def noop_deletes_before_vcp_def)
qed

end
