(* ===== verification/Process_Blocks_Live.thy ===== *)
theory Process_Blocks_Live
  imports Process_Blocks Success
begin

text \<open>
  The block processor makes progress: on a healthy connection, with arguments the start accepts,
  no run of it panics, and every popped block is handed on or still in the batch.
\<close>

definition block_data_ok :: "libs \<Rightarrow> block_data \<Rightarrow> bool" where
  "block_data_ok L bd \<longleftrightarrow> rb_verbose (bd_block bd) \<noteq> None \<and> millis_ok L (as_i64 (h_timestamp (rb_header (bd_block bd))))"

text \<open>An invariant that looks at none of the tables the block processor writes.\<close>

definition ignores_block_tables :: "(db \<Rightarrow> bool) \<Rightarrow> bool" where
  "ignores_block_tables I \<longleftrightarrow> (\<forall>d x. I (d\<lparr>t_blocks := x\<rparr>) = I d) \<and> (\<forall>d x. I (d\<lparr>t_block_parent := x\<rparr>) = I d)
     \<and> (\<forall>d x. I (d\<lparr>t_acceptances := x\<rparr>) = I d)"

definition blocks_live :: "libs \<Rightarrow> block_state \<Rightarrow> bool" where
  "blocks_live L b \<longleftrightarrow> (\<forall>c\<in>set (b_checkpoints b). millis_ok L (as_i64 (cb_timestamp c)))"

lemma add_block_live:
  assumes "block_data_ok L bd" "blocks_live L b"
  shows "\<exists>b1. add_block L cfg bd b = Inr b1 \<and> blocks_live L b1 \<and> b_checkpoints b1 = b_checkpoints b @ [block_checkpoint bd]"
  using assms
  by (auto simp: add_block_def mapping_defs block_data_ok_def blocks_live_def block_checkpoint_def Let_def)

lemma clear_works:
  assumes "scale_ok (bc_batch_scale cfg)" "ignores_block_tables I"
  shows "works I (clear_acceptances cfg synced b) (\<lambda>b'. b_checkpoints b' = b_checkpoints b)"
proof -
  have del: "works I (delete_transaction_acceptances hs) (\<lambda>_. True)" for hs
    unfolding delete_transaction_acceptances_def
    by (rule works_execute) (use assms(2) in \<open>simp add: Let_def ignores_block_tables_def\<close>)
  have n: "0 < batch_usize 100 50000 (bc_batch_scale cfg)" by (rule batch_usize_pos [OF assms(1)]) simp_all
  show ?thesis
    unfolding clear_acceptances_def delete_transaction_acceptances_chunked_def Let_def
    by (auto intro!: works_bnd [OF works_chunks [OF n del]] works_ret)
qed

lemma commit_blocks_works:
  assumes "scale_ok (bc_batch_scale cfg)" "blocks_live L b" "b_checkpoints b \<noteq> []" "ignores_block_tables I"
  shows "works I (commit_blocks L cfg synced instant b)
    (\<lambda>(b', mb, pushed). blocks_live L b' \<and> pushed @ b_checkpoints b' = b_checkpoints b)"
proof -
  have m: "millis_ok L (as_i64 (cb_timestamp (last (b_checkpoints b))))" using assms(2,3) by (simp add: blocks_live_def)
  note fits = batch_usize_pos [OF assms(1)] batch_usize_fits [OF assms(1)]
  have I: "I (d\<lparr>t_blocks := x\<rparr>) = I d" "I (d\<lparr>t_block_parent := y\<rparr>) = I d" for d x y
    using assms(4) by (simp_all add: ignores_block_tables_def)
  have 1: "works I (if bc_disable_blocks cfg then ret 0
      else insert_blocks_chunked (bc_batch_scale cfg) (b_blocks b)) (\<lambda>_. True)"
    unfolding insert_blocks_chunked_def by (auto intro!: works_ret blocks.write_chunks_works fits simp: bind_limit_def I)
  have 2: "works I (if bc_disable_relations cfg then ret 0
      else insert_block_parents_chunked (bc_batch_scale cfg) (b_parents b)) (\<lambda>_. True)"
    unfolding insert_block_parents_chunked_def
    by (auto intro!: works_ret block_parents.write_chunks_works fits simp: bind_limit_def I)
  show ?thesis
    unfolding commit_blocks_def
    by (rule works_lift_bnd [where a = "last (b_checkpoints b)"], simp add: assms(3), rule works_bnd [OF 1],
        rule works_bnd [OF 2], rule works_lift_bnd, simp add: m, rule works_bnd [OF clear_works [OF assms(1,4)]],
        rule works_lift_bnd, simp add: metrics_block_of_def m, rule works_ret, simp add: blocks_live_def)
qed

lemma blocks_step_works:
  assumes "scale_ok (bc_batch_scale cfg)" "blocks_live L b" "\<forall>bd\<in>set_option (fst e). block_data_ok L bd"
    and "ignores_block_tables I"
  shows "works I (process_blocks_step L cfg e b) (\<lambda>(b', mb, pushed). blocks_live L b' \<and>
      pushed @ b_checkpoints b' = b_checkpoints b @ map block_checkpoint (case fst e of None \<Rightarrow> [] | Some bd \<Rightarrow> [bd]))"
proof (cases "fst e")
  case None
  then show ?thesis using assms(2) by (cases e) (simp add: process_blocks_step_def works_ret)
next
  case (Some bd)
  obtain t t' where e: "e = (Some bd, t, t')" using Some by (cases e) auto
  have bd: "block_data_ok L bd" using assms(3) Some by simp
  from add_block_live [OF bd assms(2), of cfg] obtain b1 where
    b1: "add_block L cfg bd b = Inr b1" "blocks_live L b1" "b_checkpoints b1 = b_checkpoints b @ [block_checkpoint bd]" by blast
  have "works I (if blocks_ready cfg t b1 then commit_blocks L cfg (bd_synced bd) t' b1 else ret (b1, None, []))
      (\<lambda>(b', mb, pushed). blocks_live L b' \<and> pushed @ b_checkpoints b' = b_checkpoints b1)"
    using commit_blocks_works [OF assms(1) b1(2) _ assms(4), of "bd_synced bd" t'] b1 by (auto intro: works_ret)
  then have "works I (bnd (lift_res (add_block L cfg bd b)) (\<lambda>b1.
        if blocks_ready cfg t b1 then commit_blocks L cfg (bd_synced bd) t' b1 else ret (b1, None, [])))
      (\<lambda>(b', mb, pushed). blocks_live L b' \<and> pushed @ b_checkpoints b' = b_checkpoints b1)"
    by (rule works_lift_bnd [OF b1(1)])
  then show ?thesis by (simp add: process_blocks_step_def e b1(3))
qed

lemma blocks_run_works:
  assumes "scale_ok (bc_batch_scale cfg)" "blocks_live L b" "\<forall>e\<in>set es. \<forall>bd\<in>set_option (fst e). block_data_ok L bd"
  shows "works (\<lambda>_. True) (process_blocks_run L cfg es b)
    (\<lambda>(b', pushed). pushed @ b_checkpoints b' = b_checkpoints b @ map block_checkpoint (List.map_filter fst es))"
  using assms(2,3)
proof (induction es arbitrary: b)
  case (Cons e es)
  have bds: "\<forall>bd\<in>set_option (fst e). block_data_ok L bd" "\<forall>e\<in>set es. \<forall>bd\<in>set_option (fst e). block_data_ok L bd"
    using Cons.prems(2) by auto
  have rest: "works (\<lambda>_. True) (bnd (process_blocks_run L cfg es b1) (\<lambda>(b2, more). ret (b2, pushed @ more)))
      (\<lambda>(b', out). out @ b_checkpoints b' = b_checkpoints b @ map block_checkpoint (List.map_filter fst (e # es)))"
    if "blocks_live L b1" "pushed @ b_checkpoints b1 = b_checkpoints b @ map block_checkpoint (case fst e of None \<Rightarrow> [] | Some bd \<Rightarrow> [bd])"
    for b1 pushed
    using that(2)
    by (auto intro!: works_bnd [OF Cons.IH [OF that(1) bds(2)]] works_ret simp: map_filter_simps split: option.splits)
  have "ignores_block_tables (\<lambda>_. True)" by (simp add: ignores_block_tables_def)
  note step = blocks_step_works [OF assms(1) Cons.prems(1) bds(1) this]
  show ?case
    unfolding process_blocks_run.simps
    by (rule works_bnd [OF step]) (use rest in auto)
qed (simp add: works_ret map_filter_simps)

text \<open>C18: a healthy connection is enough for the block processor: with arguments that pass the check of the
  start and a batch scale that is a number, no statement of a run exceeds the limit of bound
  arguments and no run panics, as long as the popped blocks carry their verbose data and times chrono can
  hold; and no popped block is lost: in order, they are those handed on, whose rows and parent
  relations are in the database as far as the tables are enabled, and those still in the batch.\<close>

theorem block_run_succeeds:
  assumes "healthy p" "check_batch_args (s_cli_args s) = Inr ()" "batch_scale (s_cli_args s) \<noteq> NaN"
    and "\<forall>e\<in>set es. \<forall>bd\<in>set_option (fst e). block_data_ok L bd"
  shows "\<exists>b pushed p' dn pend. process_blocks_run L (block_config_of s m) es (block_start t0) p = (Inr (b, pushed), p')
    \<and> List.map_filter fst es = dn @ pend \<and> pushed = map block_checkpoint dn \<and> b_checkpoints b = map block_checkpoint pend
    \<and> (\<forall>bd\<in>set dn. block_stored (block_config_of s m) (data p') bd)"
proof -
  have "scale_ok (bc_batch_scale (block_config_of s m))" "blocks_live L (block_start t0)"
    using assms(2,3) by (simp_all add: check_batch_args_Inr block_config_of_def blocks_live_def block_start_def)
  from works_E [OF blocks_run_works [OF this assms(4)] assms(1) TrueI] obtain r p' where
    "process_blocks_run L (block_config_of s m) es (block_start t0) p = (Inr r, p')" .
  then obtain b pushed where run: "process_blocks_run L (block_config_of s m) es (block_start t0) p = (Inr (b, pushed), p')"
    by (cases r) simp
  have "block_batch (block_config_of s m) [] (block_start t0)" by (simp add: block_batch_empty block_start_def)
  from blocks_run_ordered [OF run this] run show ?thesis by (auto simp: block_batch_def)
qed

definition live_settings :: settings where
  "live_settings = \<lparr>s_cli_args = sample_args, s_net_bps = 1, s_net_tps_max = 300, s_checkpoint = Hash [1],
     s_disable_vcp_wait_for_sync = False\<rparr>"

theorem block_run_succeeds_witness:
  "\<exists>b pushed p dn pend. process_blocks_run sample_libs (block_config_of live_settings sample_mapper)
      [(Some sample_block_data, 0, 0), (None, 1, 1)] (block_start 0) (pool_of schema_db) = (Inr (b, pushed), p)
    \<and> [sample_block_data] = dn @ pend \<and> pushed = map block_checkpoint dn"
proof -
  have "check_batch_args (s_cli_args live_settings) = Inr ()" "batch_scale (s_cli_args live_settings) \<noteq> NaN"
    "\<forall>e\<in>set [(Some sample_block_data, 0 :: nat, 0 :: nat), (None, 1, 1)]. \<forall>bd\<in>set_option (fst e). block_data_ok sample_libs bd"
    by (simp_all add: check_batch_args_def sample_args_def live_settings_def lit_0_1_def block_data_ok_def sample_block_data_def
        sample_libs_def)
  from block_run_succeeds [OF _ this, where p = "pool_of schema_db" and m = sample_mapper and ?t0.0 = 0]
  show ?thesis by (fastforce simp: map_filter_simps)
qed

end
