(* ===== verification/Virtual_Chain.thy ===== *)
theory Virtual_Chain
  imports Pipeline "HOL-Library.Option_ord"
begin

text \<open>
  The virtual chain processor (\<open>indexer/src/virtual_chain/\<close>): it follows the node's selected
  chain, deleting the acceptances of blocks that left it and inserting those of the blocks
  that joined, up to the tip distance it keeps from the tip.
\<close>

section \<open>The database steps\<close>

definition remove_chain_blocks :: "f64 \<Rightarrow> hash list \<Rightarrow> (pool, panic, nat) sem" where
  "remove_chain_blocks scale removed_hashes =
     write_chunks unwrap_msg (batch_usize 500 7500 scale) delete_transaction_acceptances removed_hashes"

definition add_chain_blocks :: "f64 \<Rightarrow> hash list \<Rightarrow> (pool, panic, nat) sem" where
  "add_chain_blocks scale added_hashes =
     write_chunks unwrap_msg (batch_usize 500 7500 scale)
       (\<lambda>c. insert_transaction_acceptances
          (map (\<lambda>b. \<lparr>ta_transaction_id = None, ta_block_hash = Some b\<rparr>) c)) added_hashes"

record accepted_ids =
  ai_block :: hash
  ai_txs :: "hash list"

definition acceptance_rows :: "accepted_ids list \<Rightarrow> transaction_acceptance_row list" where
  "acceptance_rows ids = concat (map (\<lambda>a.
     map (\<lambda>t. \<lparr>ta_transaction_id = Some t, ta_block_hash = Some (ai_block a)\<rparr>) (ai_txs a)) ids)"

definition accept_transactions ::
  "(nat \<Rightarrow> nat \<Rightarrow> nat list) \<Rightarrow> f64 \<Rightarrow> int \<Rightarrow> accepted_ids list \<Rightarrow> (pool, panic, nat) sem" where
  "accept_transactions sched scale concurrency accepted_transaction_ids =
     run_statements (chunk_task sched (1 + nat concurrency) ''Insert acceptances FAILED''
       (batch_usize 1000 7500 scale) insert_transaction_acceptances
       (sort_key ta_transaction_id (acceptance_rows accepted_transaction_ids)))"

section \<open>The tip distance\<close>

record vcp_state =
  v_start_hash :: hash
  v_synced :: bool
  v_tip_distance :: nat
  v_tip_timestamp :: nat
  v_history :: "bool list"

record vcp_config =
  vc_batch_scale :: f64
  vc_batch_concurrency :: int
  vc_disable_acceptance :: bool
  vc_dynamic :: bool
  vc_window :: nat
  vc_net_bps :: byte

text \<open>
  \<open>(vcp_window * 1000 / vcp_interval).max(1)\<close>; the build checks for overflow, and a zero
  interval panics.
\<close>

definition tip_distance_window :: "cli_args \<Rightarrow> panic + nat" where
  "tip_distance_window args =
     (if unat (vcp_window args) * 1000 \<ge> 2 ^ 64 then Inl (Panic ''attempt to multiply with overflow'')
      else if vcp_interval args = 0 then Inl (Panic ''attempt to divide by zero'')
      else Inr (max 1 (unat (vcp_window args) * 1000 div unat (vcp_interval args))))"

definition vcp_config_of :: "settings \<Rightarrow> panic + vcp_config" where
  "vcp_config_of s = sbind (tip_distance_window (s_cli_args s)) (\<lambda>w.
     Inr \<lparr>vc_batch_scale = batch_scale (s_cli_args s),
       vc_batch_concurrency = batch_concurrency (s_cli_args s),
       vc_disable_acceptance = is_disabled (s_cli_args s) TransactionAcceptance,
       vc_dynamic = is_enabled (s_cli_args s) DynamicVcpTipDistance, vc_window = w,
       vc_net_bps = s_net_bps s\<rparr>)"

definition vcp_start :: "settings \<Rightarrow> vcp_state" where
  "vcp_start s = \<lparr>v_start_hash = s_checkpoint s, v_synced = False,
     v_tip_distance = (if is_enabled (s_cli_args s) DynamicVcpTipDistance then 10 else 0),
     v_tip_timestamp = 0, v_history = []\<rparr>"

text \<open>The deque's front is the head of the list; \<open>now\<close> is the wall clock in milliseconds.\<close>

definition update_tip_distance :: "vcp_config \<Rightarrow> nat \<Rightarrow> nat \<Rightarrow> vcp_state \<Rightarrow> vcp_state" where
  "update_tip_distance cfg now rows_removed v =
     (if \<not> vc_dynamic cfg then v
      else
        let history = (if length (v_history v) = vc_window cfg then butlast (v_history v) else v_history v);
            history = (rows_removed > 0) # history;
            reorgs_count = length (filter id history) in
        if reorgs_count \<ge> 3 then
          v\<lparr>v_tip_distance := v_tip_distance v + 1, v_tip_timestamp := now,
            v_history := False # tl history\<rparr>
        else if v_synced v \<and> reorgs_count = 0 \<and> v_tip_distance v > 0 then
          v\<lparr>v_tip_distance := v_tip_distance v - 1, v_tip_timestamp := now,
            v_history := (if length history = vc_window cfg then True # tl history else history)\<rparr>
        else v\<lparr>v_history := history\<rparr>)"

section \<open>One round\<close>

record chain_response =
  cr_removed :: "hash list"
  cr_added :: "hash list"
  cr_accepted :: "accepted_ids list"

definition vcp_metrics :: "vcp_config \<Rightarrow> libs \<Rightarrow> vcp_state \<Rightarrow> metrics_block \<Rightarrow> metrics_vcp \<Rightarrow> metrics_vcp" where
  "vcp_metrics cfg L v b mv = (vcp_update_last_block b mv)\<lparr>
     mv_tip_distance := Some (word_of_nat (v_tip_distance v)),
     mv_tip_distance_timestamp := then_some (vc_dynamic cfg) (word_of_nat (v_tip_timestamp v)),
     mv_tip_distance_date_time :=
       (if vc_dynamic cfg \<and> millis_ok L (int (v_tip_timestamp v)) then Some (int (v_tip_timestamp v))
        else None)\<rparr>"

text \<open>
  Waiting for the block processor: the successive values of its last block that the loop
  reads; when they run out without catching up, the loop has seen the shutdown.
\<close>

definition caught_up :: "byte \<Rightarrow> checkpoint_block \<Rightarrow> metrics_block option list \<Rightarrow> bool" where
  "caught_up net_bps c reads \<longleftrightarrow>
     (\<exists>b\<in>set reads. case b of None \<Rightarrow> False
        | Some b \<Rightarrow> saturating_sub (cb_daa_score c) (mb_daa_score b) < 60 * ucast net_bps)"

text \<open>\<open>Advance\<close> carries what a round hands on: the metrics and the checkpoint block it pushes.\<close>

datatype vcp_outcome =
    Waiting vcp_state
  | Stopped
  | Advance vcp_state metrics_vcp checkpoint_block

definition vcp_commit ::
  "libs \<Rightarrow> (nat \<Rightarrow> nat \<Rightarrow> nat list) \<Rightarrow> vcp_config \<Rightarrow> nat \<Rightarrow> chain_response \<Rightarrow> rpc_header \<Rightarrow> metrics_vcp \<Rightarrow>
     vcp_state \<Rightarrow> (pool, panic, vcp_outcome) sem" where
  "vcp_commit L sched cfg now res hdr mv v =
     (let n = length (cr_added res) - v_tip_distance v;
          c = \<lparr>cb_origin = OriginVcp, cb_hash = h_hash hdr, cb_timestamp = h_timestamp hdr,
               cb_daa_score = h_daa_score hdr, cb_blue_score = h_blue_score hdr\<rparr> in
      bnd (remove_chain_blocks (vc_batch_scale cfg) (cr_removed res)) (\<lambda>rows_removed.
      bnd (if \<not> vc_disable_acceptance cfg then
             if length (cr_accepted res) < n then throw (Panic ''range end index out of range'')
             else accept_transactions sched (vc_batch_scale cfg) (vc_batch_concurrency cfg)
                    (take n (cr_accepted res))
           else add_chain_blocks (vc_batch_scale cfg) (take n (cr_added res))) (\<lambda>_.
      bnd (lift_res (if millis_ok L (whole_seconds (cb_timestamp c)) then Inr ()
                     else Inl (Panic unwrap_msg))) (\<lambda>_.
      let v1 = update_tip_distance cfg now rows_removed v in
      bnd (lift_res (metrics_block_of L c)) (\<lambda>b.
      ret (Advance (v1\<lparr>v_start_hash := h_hash hdr\<rparr>) (vcp_metrics cfg L v1 b mv) c))))))"

text \<open>After the response is handled: fewer than 200 added blocks mean the chain is synced.\<close>

definition mark_synced :: "nat \<Rightarrow> vcp_state \<Rightarrow> vcp_state" where
  "mark_synced added_blocks_count v =
     v\<lparr>v_synced := v_synced v \<or> added_blocks_count < 200\<rparr>"

fun after_response :: "nat \<Rightarrow> vcp_outcome \<Rightarrow> vcp_outcome" where
  "after_response n (Advance v mv c) = Advance (mark_synced n v) mv c"
| "after_response n r = r"

text \<open>
  A round: \<open>started\<close> is the notification flag, \<open>response\<close> the node's answer (\<open>None\<close>: no
  connection or an error), \<open>get_block\<close> its header lookup.
\<close>

definition process_virtual_chain_step ::
  "libs \<Rightarrow> (nat \<Rightarrow> nat \<Rightarrow> nat list) \<Rightarrow> vcp_config \<Rightarrow> (hash \<Rightarrow> rpc_header option) \<Rightarrow> bool \<Rightarrow>
     chain_response option \<Rightarrow> metrics_block option list \<Rightarrow> nat \<Rightarrow> metrics_vcp \<Rightarrow> vcp_state \<Rightarrow>
     (pool, panic, vcp_outcome) sem" where
  "process_virtual_chain_step L sched cfg get_block started response reads now mv v =
     (if \<not> started then ret (Waiting v)
      else case response of
        None \<Rightarrow> ret (Waiting v)
      | Some res \<Rightarrow>
          let count = length (cr_added res) in
          if count > v_tip_distance v then
            (case get_block (last (take (count - v_tip_distance v) (cr_added res))) of
               None \<Rightarrow> throw (Panic unwrap_msg)
             | Some hdr \<Rightarrow>
                 if caught_up (vc_net_bps cfg) \<lparr>cb_origin = OriginVcp, cb_hash = h_hash hdr,
                      cb_timestamp = h_timestamp hdr, cb_daa_score = h_daa_score hdr,
                      cb_blue_score = h_blue_score hdr\<rparr> reads
                 then bnd (vcp_commit L sched cfg now res hdr mv v) (\<lambda>r. ret (after_response count r))
                 else ret Stopped)
          else ret (Waiting (mark_synced count v)))"

section \<open>The tip distance adapts slowly\<close>

text \<open>One round moves the tip distance by at most one, up only on at least three reorgs in the
  window, down only when synced and without any; the history never outgrows its window.\<close>

lemma tip_distance_step:
  assumes "length (v_history v) \<le> vc_window cfg" "0 < vc_window cfg"
  shows "length (v_history (update_tip_distance cfg now n v)) \<le> vc_window cfg
    \<and> v_tip_distance (update_tip_distance cfg now n v) \<le> v_tip_distance v + 1
    \<and> v_tip_distance v \<le> v_tip_distance (update_tip_distance cfg now n v) + 1
    \<and> (v_tip_distance (update_tip_distance cfg now n v) > v_tip_distance v \<longrightarrow>
        vc_dynamic cfg \<and> 3 \<le> length (filter id ((n > 0) # v_history v)))
    \<and> (v_tip_distance (update_tip_distance cfg now n v) < v_tip_distance v \<longrightarrow>
        vc_dynamic cfg \<and> v_synced v \<and> n = 0)"
proof -
  have "length (filter id (butlast (v_history v))) \<le> length (filter id (v_history v))"
    by (metis append_butlast_last_id butlast.simps(1) filter_append le_add1 length_append order_refl)
  then show ?thesis
    using assms by (auto simp: update_tip_distance_def Let_def split: if_splits)
qed

section \<open>The acceptances follow the chain\<close>

text \<open>
  The abstract state is the selected chain, a list of accepting blocks with the transactions
  they accept; the database represents it by the pairs of its acceptance rows.
\<close>

definition chain_relation :: "accepted_ids list \<Rightarrow> (hash \<times> hash) set" where
  "chain_relation chain = {(t, ai_block a) | t a. a \<in> set chain \<and> t \<in> set (ai_txs a)}"

definition acceptance_relation :: "db \<Rightarrow> (hash \<times> hash) set" where
  "acceptance_relation d = {(t, b) | t b. \<exists>a\<in>set (t_acceptances d).
     ta_transaction_id a = Some t \<and> ta_block_hash a = Some b}"

definition chain_txs :: "accepted_ids list \<Rightarrow> hash list" where
  "chain_txs chain = concat (map ai_txs chain)"

text \<open>An acceptance row without a block: the UTXO import writes these.\<close>

definition imported :: "db \<Rightarrow> hash set" where
  "imported d = {t. \<exists>a\<in>set (t_acceptances d). ta_transaction_id a = Some t \<and> ta_block_hash a = None}"

lemma acceptance_rows_keys: "map acceptance_key (acceptance_rows ids) = map Some (chain_txs ids)"
  by (induction ids) (simp_all add: acceptance_rows_def chain_txs_def acceptance_key_def o_def)

lemma acceptance_rows_pairs:
  "(\<exists>a\<in>set (acceptance_rows ids). ta_transaction_id a = Some t \<and> ta_block_hash a = Some b)
     \<longleftrightarrow> (t, b) \<in> chain_relation ids"
  by (force simp: acceptance_rows_def chain_relation_def)

lemma accept_transactions_Inr:
  assumes "accept_transactions sched scale k ids p = (Inr n, p')" "sched_ok sched"
    and "distinct (chain_txs ids)"
    and "\<And>a t. a \<in> set (t_acceptances (data p)) \<Longrightarrow> ta_transaction_id a = Some t \<Longrightarrow>
      t \<notin> set (chain_txs ids)"
  shows "\<exists>rs. set rs = set (acceptance_rows ids) \<and> n = length (chain_txs ids)
    \<and> data p' = (data p)\<lparr>t_acceptances := t_acceptances (data p) @ rs\<rparr>"
proof -
  have k: "0 < 1 + nat k" by simp
  from acceptances.run_task_Inr [OF assms(1) [unfolded accept_transactions_def] assms(2) k]
  obtain rs where rs: "mset rs = mset (acceptance_rows ids)"
    "n = fst (insert_rows acceptance_key rs (t_acceptances (data p)))"
    "data p' = (data p)\<lparr>t_acceptances := snd (insert_rows acceptance_key rs (t_acceptances (data p)))\<rparr>"
    by auto
  have keys: "mset (map acceptance_key rs) = mset (map Some (chain_txs ids))"
    using rs(1) acceptance_rows_keys [of ids] by (metis mset_map)
  have "distinct (map acceptance_key rs)"
    using assms(3) keys by (metis distinct_map inj_Some inj_on_subset mset_eq_imp_distinct_iff subset_UNIV)
  moreover have "acceptance_key r \<notin> set (map acceptance_key (t_acceptances (data p)))" if "r \<in> set rs" for r
  proof
    assume "acceptance_key r \<in> set (map acceptance_key (t_acceptances (data p)))"
    then obtain a where a: "a \<in> set (t_acceptances (data p))" "acceptance_key a = acceptance_key r" by auto
    have "acceptance_key r \<in> Some ` set (chain_txs ids)"
      using that keys by (metis image_eqI list.set_map set_mset_mset)
    with a assms(4) show False by (auto simp: acceptance_key_def)
  qed
  ultimately have "insert_rows acceptance_key rs (t_acceptances (data p)) = (length rs, t_acceptances (data p) @ rs)"
    by (rule insert_rows_fresh)
  moreover have "length rs = length (chain_txs ids)"
    using keys by (metis length_map mset_eq_length)
  moreover have "set rs = set (acceptance_rows ids)" using rs(1) by (metis set_mset_mset)
  ultimately show ?thesis using rs(2,3) by auto
qed

text \<open>A successful commit: the removal, then the acceptance of the visible part.\<close>

lemma vcp_commit_Advance:
  assumes "vcp_commit L sched cfg now res hdr mv v p = (Inr r, p')" "\<not> vc_disable_acceptance cfg"
  obtains q m n where
    "remove_chain_blocks (vc_batch_scale cfg) (cr_removed res) p = (Inr m, q)"
    "accept_transactions sched (vc_batch_scale cfg) (vc_batch_concurrency cfg)
       (take (length (cr_added res) - v_tip_distance v) (cr_accepted res)) q = (Inr n, p')"
    "\<exists>v' mv' c. r = Advance v' mv' c \<and> v_start_hash v' = h_hash hdr \<and> cb_hash c = h_hash hdr"
proof -
  from assms obtain m q where 1: "remove_chain_blocks (vc_batch_scale cfg) (cr_removed res) p = (Inr m, q)"
    by (auto simp: vcp_commit_def Let_def bnd_Inr_iff)
  with assms obtain n where 2: "accept_transactions sched (vc_batch_scale cfg) (vc_batch_concurrency cfg)
       (take (length (cr_added res) - v_tip_distance v) (cr_accepted res)) q = (Inr n, p')"
    and 3: "\<exists>v' mv' c. r = Advance v' mv' c \<and> v_start_hash v' = h_hash hdr \<and> cb_hash c = h_hash hdr"
    by (auto simp: vcp_commit_def Let_def bnd_Inr_iff lift_res_def ret_def split: if_splits)
  show thesis by (rule that [OF 1 2 3])
qed

lemma step_Advance:
  assumes "process_virtual_chain_step L sched cfg get_block started (Some res) reads now mv v p
      = (Inr (Advance v' mv' c), p')"
  obtains hdr v1 where "vcp_commit L sched cfg now res hdr mv v p = (Inr (Advance v1 mv' c), p')"
    "v' = mark_synced (length (cr_added res)) v1"
proof -
  from assms obtain hdr r where r: "vcp_commit L sched cfg now res hdr mv v p = (Inr r, p')"
    and o: "after_response (length (cr_added res)) r = Advance v' mv' c"
    by (auto simp: process_virtual_chain_step_def Let_def bnd_Inr_iff ret_def throw_def
        split: if_splits option.splits)
  from o show thesis by (cases r) (use r that in auto)
qed

text \<open>A header, a configuration, a database with block 1 accepting transaction 7, and a block processor
  that has come to the same score.\<close>

definition sample_header :: rpc_header where
  "sample_header = \<lparr>h_hash = Hash [2], h_version = 1, h_parents_by_level = [], h_hash_merkle_root = Hash [],
     h_accepted_id_merkle_root = Hash [], h_utxo_commitment = Hash [], h_timestamp = 5, h_bits = 0,
     h_nonce = 0, h_daa_score = 9, h_blue_work = 0, h_blue_score = 9, h_pruning_point = Hash []\<rparr>"

definition sample_vcp :: vcp_config where
  "sample_vcp = \<lparr>vc_batch_scale = Fin 1, vc_batch_concurrency = 1, vc_disable_acceptance = False,
     vc_dynamic = False, vc_window = 1, vc_net_bps = 1\<rparr>"

definition sample_chain_db :: db where
  "sample_chain_db = schema_db\<lparr>t_acceptances :=
     [\<lparr>ta_transaction_id = Some (Hash [7]), ta_block_hash = Some (Hash [1])\<rparr>]\<rparr>"

definition sample_reads :: "metrics_block option list" where
  "sample_reads = [Some \<lparr>mb_hash = [], mb_timestamp = 5, mb_date_time = 5, mb_daa_score = 9,
     mb_blue_score = 9\<rparr>]"

end
