(* ===== verification/Virtual_Chain_Run.thy ===== *)
theory Virtual_Chain_Run
  imports Virtual_Chain Success "HOL-Library.Sublist"
begin

text \<open>
  The loop of the virtual chain processor over any number of rounds, while the other tasks
  write to the database between them: the acceptances it keeps are those of the selected chain
  of the block it stands at, through every reorganisation the node reports, and with a healthy
  connection no round of it fails.
\<close>

section \<open>The loop\<close>

text \<open>
  What a round meets: the notification flag, the node (\<open>None\<close>: no connection or an error), the
  values of the block processor's last block it reads, the clock, and what the other tasks have
  done to the database since the round before.
\<close>

record vcp_round =
  vr_started :: bool
  vr_node :: "hash \<Rightarrow> chain_response option"
  vr_get_block :: "hash \<Rightarrow> rpc_header option"
  vr_reads :: "metrics_block option list"
  vr_now :: nat
  vr_others :: "pool \<Rightarrow> pool"

fun process_virtual_chain_run ::
  "libs \<Rightarrow> (nat \<Rightarrow> nat \<Rightarrow> nat list) \<Rightarrow> vcp_config \<Rightarrow> vcp_round list \<Rightarrow> metrics_vcp \<Rightarrow> vcp_state \<Rightarrow>
     checkpoint_block list \<Rightarrow> (pool, panic, vcp_state \<times> metrics_vcp \<times> checkpoint_block list) sem" where
  "process_virtual_chain_run L sched cfg [] mv v pushed = ret (v, mv, pushed)"
| "process_virtual_chain_run L sched cfg (r # rs) mv v pushed = (\<lambda>p.
     bnd (process_virtual_chain_step L sched cfg (vr_get_block r) (vr_started r)
            (vr_node r (v_start_hash v)) (vr_reads r) (vr_now r) mv v)
       (\<lambda>x. case x of
          Waiting v' \<Rightarrow> process_virtual_chain_run L sched cfg rs mv v' pushed
        | Stopped \<Rightarrow> ret (v, mv, pushed)
        | Advance v' mv' c \<Rightarrow> process_virtual_chain_run L sched cfg rs mv' v' (pushed @ [c]))
       (vr_others r p))"

section \<open>Selected chains\<close>

text \<open>
  The selected chain of a block, counted from the block the index starts at: a block has one
  selected parent, so a chain is determined by its last block and the chains are closed under
  prefixes; along a chain a transaction is accepted at most once.
\<close>

definition selected_chains :: "(hash \<Rightarrow> accepted_ids list option) \<Rightarrow> bool" where
  "selected_chains chain \<longleftrightarrow> (\<forall>h c. chain h = Some c \<longrightarrow>
     distinct (chain_txs c) \<and> (c \<noteq> [] \<longrightarrow> ai_block (last c) = h
       \<and> (butlast c \<noteq> [] \<longrightarrow> chain (ai_block (last (butlast c))) = Some (butlast c))))"

text \<open>
  The documented answer of \<open>get_virtual_chain_from_block\<close> to a node at the chain \<open>c\<close> when the
  selected chain is \<open>w\<close>: the blocks of \<open>c\<close> down to the last common one, then those of \<open>w\<close> after it.
\<close>

definition chain_change :: "accepted_ids list \<Rightarrow> accepted_ids list \<Rightarrow> chain_response" where
  "chain_change c w = (let k = length (longest_common_prefix c w) in
     \<lparr>cr_removed = rev (map ai_block (drop k c)), cr_added = map ai_block (drop k w), cr_accepted = drop k w\<rparr>)"

text \<open>A round with a node that answers so, if it does, for some selected chain of the moment,
  and with other tasks that leave the acceptances alone, as all do but the pruner and, before the
  first round, the block processor and the UTXO import.\<close>

definition honest_round :: "(hash \<Rightarrow> accepted_ids list option) \<Rightarrow> vcp_round \<Rightarrow> bool" where
  "honest_round chain r \<longleftrightarrow>
     (\<exists>tip w. chain tip = Some w \<and> (\<forall>h c. chain h = Some c \<longrightarrow> vr_node r h \<in> {None, Some (chain_change c w)}))
     \<and> (\<forall>h hdr. vr_get_block r h = Some hdr \<longrightarrow> h_hash hdr = h)
     \<and> (\<forall>p. t_acceptances (data (vr_others r p)) = t_acceptances (data p))"

lemma honest_answer:
  assumes "honest_round chain r" "chain h = Some c" "vr_node r h \<noteq> None"
  obtains tip w where "chain tip = Some w" "vr_node r h = Some (chain_change c w)"
  using assms unfolding honest_round_def by (metis insertE singletonD)

lemma chain_prefix:
  assumes "selected_chains chain" "chain h = Some c" "0 < i" "i \<le> length c"
  shows "chain (ai_block (c ! (i - 1))) = Some (take i c)"
  using assms(4,3)
proof (induction i rule: inc_induct)
  case base
  with assms(1,2) show ?case by (metis last_conv_nth length_greater_0_conv selected_chains_def take_all_iff order_refl)
next
  case (step i)
  then have "chain (ai_block (c ! i)) = Some (take (Suc i) c)" by simp
  moreover have "butlast (take (Suc i) c) = take i c" using step by (simp add: butlast_take)
  moreover have "take i c \<noteq> []" using step by auto
  moreover have "last (take i c) = c ! (i - 1)"
    using step by (cases i) (simp_all add: take_Suc_conv_app_nth)
  moreover have "take (Suc i) c \<noteq> []" using step by auto
  ultimately show ?case using assms(1) by (metis selected_chains_def)
qed

lemma chain_blocks_distinct:
  assumes "selected_chains chain" "chain h = Some c"
  shows "distinct (map ai_block c)"
proof (rule ccontr)
  assume "\<not> distinct (map ai_block c)"
  then obtain i j where ij: "i < length c" "j < length c" "i \<noteq> j" "ai_block (c ! i) = ai_block (c ! j)"
    by (auto simp: distinct_conv_nth)
  have "chain (ai_block (c ! i)) = Some (take (Suc i) c)" "chain (ai_block (c ! j)) = Some (take (Suc j) c)"
    using chain_prefix [OF assms, of "Suc i"] chain_prefix [OF assms, of "Suc j"] ij by auto
  with ij have "length (take (Suc i) c) = length (take (Suc j) c)" by simp
  with ij show False by simp
qed

lemma common_prefix:
  obtains k where "k = length (longest_common_prefix c w)" "k \<le> length c" "k \<le> length w" "take k c = take k w"
  by (metis append_eq_conv_conj longest_common_prefix_prefix1 longest_common_prefix_prefix2 prefix_def prefix_length_le that)

section \<open>One round\<close>

text \<open>When the database represents the chain \<open>base @ old\<close>, the node removes the blocks of \<open>old\<close>
  and adds \<open>new\<close> (as far as the tip distance shows it), the database afterwards represents
  \<open>base @ new\<close>; a transaction of a removed block is accepted again by its new block.\<close>

lemma commit_follows_chain:
  assumes "process_virtual_chain_step L sched cfg get_block started (Some res) reads now mv v p
      = (Inr (Advance v' mv' c), p')"
    and "\<not> vc_disable_acceptance cfg" "sched_ok sched"
    and "new = take (length (cr_added res) - v_tip_distance v) (cr_accepted res)"
    and "acceptance_relation (data p) = chain_relation (base @ old)"
    and "set (cr_removed res) = ai_block ` set old" "ai_block ` set base \<inter> ai_block ` set old = {}"
    and "distinct (chain_txs new)" "set (chain_txs new) \<inter> set (chain_txs base) = {}"
    and "set (chain_txs new) \<inter> imported (data p) = {}"
  shows "acceptance_relation (data p') = chain_relation (base @ new) \<and> imported (data p') = imported (data p)
    \<and> v_start_hash v' = cb_hash c"
proof -
  from assms(1) obtain hdr v1 where
    r: "vcp_commit L sched cfg now res hdr mv v p = (Inr (Advance v1 mv' c), p')" and
    v': "v' = mark_synced (length (cr_added res)) v1" by (rule step_Advance)
  obtain q m n where
    1: "remove_chain_blocks (vc_batch_scale cfg) (cr_removed res) p = (Inr m, q)" and
    2: "accept_transactions sched (vc_batch_scale cfg) (vc_batch_concurrency cfg) new q = (Inr n, p')" and
    3: "v_start_hash v1 = h_hash hdr \<and> cb_hash c = h_hash hdr"
    by (rule vcp_commit_Advance [OF r assms(2)]) (simp add: assms(4))
  have start: "v_start_hash v' = cb_hash c" using 3 by (simp add: v' mark_synced_def)
  have q: "t_acceptances (data q) =
      filter (\<lambda>a. ta_block_hash a \<notin> Some ` set (cr_removed res)) (t_acceptances (data p))"
    using delete_chunks_Inr [OF 1 [unfolded remove_chain_blocks_def]] by simp
  have fresh: "t \<notin> set (chain_txs new)"
    if a: "a \<in> set (t_acceptances (data q))" "ta_transaction_id a = Some t" for a t
  proof (cases "ta_block_hash a")
    case None
    then have "t \<in> imported (data p)" using a by (auto simp: q imported_def)
    then show ?thesis using assms(10) by blast
  next
    case (Some b)
    then have "(t, b) \<in> chain_relation (base @ old)" "b \<notin> ai_block ` set old"
      using a assms(5,6) by (auto simp: q acceptance_relation_def)
    then have "t \<in> set (chain_txs base)" by (auto simp: chain_relation_def chain_txs_def)
    then show ?thesis using assms(9) by blast
  qed
  from accept_transactions_Inr [OF 2 assms(3,8)] fresh obtain rs where rs:
    "set rs = set (acceptance_rows new)" "t_acceptances (data p') = t_acceptances (data q) @ rs" by force
  have imp: "imported (data p') = imported (data p)"
    by (auto simp: imported_def rs q acceptance_rows_def)
  have "acceptance_relation (data p') = acceptance_relation (data q) \<union> chain_relation new"
    by (auto simp: acceptance_relation_def rs bex_Un acceptance_rows_pairs)
  moreover have "acceptance_relation (data q) =
      {(t, b) \<in> acceptance_relation (data p). b \<notin> set (cr_removed res)}"
    by (auto simp: acceptance_relation_def q)
  moreover have "\<dots> = chain_relation base"
    using assms(7) by (auto simp: assms(5,6) chain_relation_def)
  moreover have "chain_relation (base @ new) = chain_relation base \<union> chain_relation new"
    by (auto simp: chain_relation_def)
  ultimately show ?thesis using imp start by simp
qed

text \<open>The ways a round returns.\<close>

lemma commit_Inr:
  assumes "vcp_commit L sched cfg now res hdr mv v p = (Inr x, p')"
  obtains v' mv' c where "x = Advance v' mv' c" "cb_hash c = h_hash hdr"
proof -
  from assms have "\<exists>v' mv' c. x = Advance v' mv' c \<and> cb_hash c = h_hash hdr"
    unfolding vcp_commit_def Let_def bnd_Inr_iff lift_res_def ret_def by (auto split: if_splits)
  with that show thesis by blast
qed

lemma round_Inr:
  assumes "process_virtual_chain_step L sched cfg get_block started res reads now mv v p = (Inr x, p')"
  obtains (waits) v' where "x = Waiting v'" "v_start_hash v' = v_start_hash v" "v_tip_distance v' = v_tip_distance v"
      "\<And>rs. started \<Longrightarrow> res = Some rs \<Longrightarrow> length (cr_added rs) \<le> v_tip_distance v" "p' = p"
  | (stops) "x = Stopped" "p' = p"
  | (advances) rs hdr v' mv' c where "res = Some rs" "v_tip_distance v < length (cr_added rs)"
      "get_block (last (take (length (cr_added rs) - v_tip_distance v) (cr_added rs))) = Some hdr"
      "x = Advance v' mv' c" "cb_hash c = h_hash hdr"
proof (cases "\<not> started \<or> res = None")
  case True
  with assms show thesis
    by (auto simp: process_virtual_chain_step_def ret_def intro: waits split: option.splits)
next
  case False
  then obtain rs where rs: "started" "res = Some rs" by auto
  show thesis
  proof (cases "v_tip_distance v < length (cr_added rs)")
    case f: False
    with assms rs show thesis
      by (auto simp: process_virtual_chain_step_def ret_def mark_synced_def intro: waits)
  next
    case tip: True
    with assms rs obtain hdr where hdr:
      "get_block (last (take (length (cr_added rs) - v_tip_distance v) (cr_added rs))) = Some hdr"
      by (auto simp: process_virtual_chain_step_def throw_def Let_def split: option.splits)
    show thesis
    proof (cases "x = Stopped \<and> p' = p")
      case True
      then show thesis by (auto intro: stops)
    next
      case False
      with assms rs tip hdr obtain y where y: "vcp_commit L sched cfg now rs hdr mv v p = (Inr y, p')"
        "x = after_response (length (cr_added rs)) y"
        by (auto simp: process_virtual_chain_step_def Let_def bnd_Inr_iff ret_def split: if_splits)
      from commit_Inr [OF y(1)] obtain v' mv' c where "y = Advance v' mv' c" "cb_hash c = h_hash hdr" .
      with y(2) show thesis using advances [OF rs(2) tip hdr] by simp
    qed
  qed
qed

lemma step_Waiting:
  assumes "process_virtual_chain_step L sched cfg get_block started res reads now mv v p = (Inr (Waiting v'), p')"
  shows "v_start_hash v' = v_start_hash v \<and> v_tip_distance v' = v_tip_distance v \<and> p' = p
    \<and> (\<forall>rs. started \<longrightarrow> res = Some rs \<longrightarrow> length (cr_added rs) \<le> v_tip_distance v)"
  by (rule round_Inr [OF assms]) auto

lemma step_Stopped:
  assumes "process_virtual_chain_step L sched cfg get_block started res reads now mv v p = (Inr Stopped, p')"
  shows "p' = p"
  by (rule round_Inr [OF assms]) auto

text \<open>A round with an honest node goes from the chain of one block to that of another.\<close>

definition stands_at :: "(hash \<Rightarrow> accepted_ids list option) \<Rightarrow> hash \<Rightarrow> db \<Rightarrow> bool" where
  "stands_at chain h d \<longleftrightarrow> (\<exists>c. chain h = Some c \<and> acceptance_relation d = chain_relation c)
     \<and> (\<forall>g c. chain g = Some c \<longrightarrow> set (chain_txs c) \<inter> imported d = {})"

lemma stands_at_acceptances:
  "t_acceptances d' = t_acceptances d \<Longrightarrow> stands_at chain h d' = stands_at chain h d"
  by (simp add: stands_at_def acceptance_relation_def imported_def)

text \<open>The last block shown at a tip distance, and its chain.\<close>

lemma shown_chain:
  assumes "selected_chains chain" "chain tip = Some w" "d < length (cr_added (chain_change c w))"
  shows "chain (last (take (length (cr_added (chain_change c w)) - d) (cr_added (chain_change c w))))
      = Some (take (length w - d) w)" (is "chain (last (take ?n ?added)) = _")
proof -
  obtain k where k: "k = length (longest_common_prefix c w)" "k \<le> length w" by (rule common_prefix)
  have added: "?added = map ai_block (drop k w)" by (simp add: chain_change_def k(1) Let_def)
  have n: "0 < ?n" "k + ?n = length w - d" using assms(3) k(2) by (auto simp: added)
  have "last (take ?n ?added) = ?added ! (?n - 1)"
    using n(1) by (cases ?n) (simp_all add: take_Suc_conv_app_nth)
  also have "\<dots> = ai_block (w ! (k + ?n - 1))" using n by (simp add: added)
  finally show ?thesis using chain_prefix [OF assms(1,2), of "k + ?n"] n by simp
qed

lemma round_reaches:
  assumes "process_virtual_chain_step L sched cfg (vr_get_block r) started (Some (chain_change c w)) reads now mv v p
      = (Inr (Advance v' mv' cb), p')"
    and "selected_chains chain" "honest_round chain r" "\<not> vc_disable_acceptance cfg" "sched_ok sched"
    and "chain h = Some c" "chain tip = Some w"
    and "acceptance_relation (data p) = chain_relation c"
    and "\<forall>g d. chain g = Some d \<longrightarrow> set (chain_txs d) \<inter> imported (data p) = {}"
  shows "chain (v_start_hash v') = Some (take (length w - v_tip_distance v) w)
    \<and> acceptance_relation (data p') = chain_relation (take (length w - v_tip_distance v) w)
    \<and> imported (data p') = imported (data p) \<and> v_start_hash v' = cb_hash cb"
proof -
  define rs where "rs = chain_change c w"
  from round_Inr [OF assms(1)] obtain hdr where hdr: "v_tip_distance v < length (cr_added rs)"
    "vr_get_block r (last (take (length (cr_added rs) - v_tip_distance v) (cr_added rs))) = Some hdr"
    "cb_hash cb = h_hash hdr" unfolding rs_def by (metis option.inject vcp_outcome.distinct(3,5) vcp_outcome.inject(2))
  obtain k where k: "k = length (longest_common_prefix c w)" "k \<le> length c" "k \<le> length w" "take k c = take k w"
    by (rule common_prefix)
  have parts: "cr_removed rs = rev (map ai_block (drop k c))" "cr_accepted rs = drop k w" "cr_added rs = map ai_block (drop k w)"
    by (simp_all add: rs_def chain_change_def k(1) Let_def)
  define n where "n = length (cr_added rs) - v_tip_distance v"
  have n: "0 < n" "k + n = length w - v_tip_distance v" using hdr(1) k(3) by (auto simp: n_def parts)
  define new where "new = take n (drop k w)"
  have now: "take k c @ new = take (k + n) w" using k(4) by (simp add: new_def take_add)
  have at: "chain (cb_hash cb) = Some (take (k + n) w)"
    using shown_chain [OF assms(2,7) hdr(1) [unfolded rs_def]] hdr(2,3) assms(3)
    by (simp add: n(2) honest_round_def rs_def)
  have blocks: "distinct (map ai_block (take k c) @ map ai_block (drop k c))"
    using chain_blocks_distinct [OF assms(2,6)] by (metis append_take_drop_id map_append)
  have txs: "chain_txs (take (k + n) w) = chain_txs (take k c) @ chain_txs new"
    by (simp add: chain_txs_def flip: now)
  have once: "distinct (chain_txs (take (k + n) w))" using at assms(2) unfolding selected_chains_def by blast
  have "acceptance_relation (data p') = chain_relation (take k c @ new) \<and> imported (data p') = imported (data p)
      \<and> v_start_hash v' = cb_hash cb"
  proof (rule commit_follows_chain [where old = "drop k c", OF assms(1) [folded rs_def] assms(4,5)])
    show "set (chain_txs new) \<inter> imported (data p) = {}" using assms(9) [rule_format, OF at] by (auto simp: txs)
    show "distinct (chain_txs new)" "set (chain_txs new) \<inter> set (chain_txs (take k c)) = {}"
      using once by (auto simp: txs)
  qed (use assms(8) blocks in \<open>auto simp: new_def n_def parts\<close>)
  then show ?thesis using at by (simp add: now n(2))
qed

lemma round_keeps_chain:
  assumes "process_virtual_chain_step L sched cfg (vr_get_block r) started (vr_node r (v_start_hash v)) reads now mv v p
      = (Inr (Advance v' mv' cb), p')"
    and "selected_chains chain" "honest_round chain r" "\<not> vc_disable_acceptance cfg" "sched_ok sched"
    and "stands_at chain (v_start_hash v) (data p)"
  shows "stands_at chain (v_start_hash v') (data p') \<and> v_start_hash v' = cb_hash cb"
proof -
  from assms(6) obtain c where c: "chain (v_start_hash v) = Some c" "acceptance_relation (data p) = chain_relation c"
    and imp: "\<forall>g c. chain g = Some c \<longrightarrow> set (chain_txs c) \<inter> imported (data p) = {}"
    by (auto simp: stands_at_def)
  from round_Inr [OF assms(1)] have "vr_node r (v_start_hash v) \<noteq> None"
    by (metis option.distinct(1) vcp_outcome.distinct(3,5))
  from honest_answer [OF assms(3) c(1) this] obtain tip w where
    w: "chain tip = Some w" "vr_node r (v_start_hash v) = Some (chain_change c w)" .
  define d where "d = take (length w - v_tip_distance v) w"
  have "chain (v_start_hash v') = Some d \<and> acceptance_relation (data p') = chain_relation d
      \<and> imported (data p') = imported (data p) \<and> v_start_hash v' = cb_hash cb"
    unfolding d_def by (rule round_reaches [OF assms(1) [unfolded w(2)] assms(2-5) c(1) w(1) c(2) imp])
  with imp show ?thesis unfolding stands_at_def by auto
qed

section \<open>The run\<close>

lemma run_keeps_chain:
  assumes "process_virtual_chain_run L sched cfg rs mv v pushed p = (Inr (v', mv', pushed'), p')"
    and "selected_chains chain" "\<forall>r\<in>set rs. honest_round chain r" "\<not> vc_disable_acceptance cfg" "sched_ok sched"
    and "stands_at chain (v_start_hash v) (data p)"
  shows "stands_at chain (v_start_hash v') (data p')
    \<and> (\<exists>cs. pushed' = pushed @ cs \<and> v_start_hash v' = last (v_start_hash v # map cb_hash cs))"
  using assms(1,3,6)
proof (induction rs arbitrary: mv v pushed p)
  case Nil
  then show ?case by (simp add: ret_def)
next
  case (Cons r rs)
  let ?p = "vr_others r p"
  have r: "honest_round chain r" "\<forall>r\<in>set rs. honest_round chain r" using Cons.prems(2) by auto
  have at: "stands_at chain (v_start_hash v) (data ?p)"
    using Cons.prems(3) r(1) stands_at_acceptances unfolding honest_round_def by metis
  from Cons.prems(1) obtain x q where x:
    "process_virtual_chain_step L sched cfg (vr_get_block r) (vr_started r) (vr_node r (v_start_hash v))
       (vr_reads r) (vr_now r) mv v ?p = (Inr x, q)"
    and rest: "(case x of Waiting v1 \<Rightarrow> process_virtual_chain_run L sched cfg rs mv v1 pushed
        | Stopped \<Rightarrow> ret (v, mv, pushed)
        | Advance v1 mv1 c \<Rightarrow> process_virtual_chain_run L sched cfg rs mv1 v1 (pushed @ [c])) q
      = (Inr (v', mv', pushed'), p')"
    by (auto simp: bnd_Inr_iff)
  show ?case
  proof (cases x)
    case (Waiting v1)
    have "v_start_hash v1 = v_start_hash v" "q = ?p" using step_Waiting [OF x [unfolded Waiting]] by simp_all
    then show ?thesis using Cons.IH [OF _ r(2), of mv v1 pushed ?p] rest at Waiting by simp
  next
    case Stopped
    have "q = ?p" by (rule step_Stopped [OF x [unfolded Stopped]])
    then show ?thesis using rest at Stopped by (simp add: ret_def)
  next
    case (Advance v1 mv1 c)
    from round_keeps_chain [OF x [unfolded Advance] assms(2) r(1) assms(4,5) at]
    have "stands_at chain (v_start_hash v1) (data q)" "v_start_hash v1 = cb_hash c" by auto
    moreover have "process_virtual_chain_run L sched cfg rs mv1 v1 (pushed @ [c]) q = (Inr (v', mv', pushed'), p')"
      using rest Advance by simp
    ultimately obtain cs where "stands_at chain (v_start_hash v') (data p')" "pushed' = (pushed @ [c]) @ cs"
      "v_start_hash v' = last (v_start_hash v1 # map cb_hash cs)"
      using Cons.IH [OF _ r(2)] by blast
    with \<open>v_start_hash v1 = cb_hash c\<close> show ?thesis
      by (intro conjI exI [of _ "c # cs"]) simp_all
  qed
qed

text \<open>C1: over any rounds, while the node answers for its selected chain of the moment and the other
  tasks write what they want but acceptances, and whatever statements fail: a run that returns
  leaves in the database exactly the acceptances of the selected chain of the block the next
  request starts from, which is the last block handed on to the checkpoint task.\<close>

theorem index_follows_selected_chain:
  assumes "process_virtual_chain_run L sched cfg rs mv v [] p = (Inr (v', mv', pushed), p')"
    and "\<not> vc_disable_acceptance cfg" "sched_ok sched"
    and "selected_chains chain" "\<forall>r\<in>set rs. honest_round chain r"
    and "chain (v_start_hash v) = Some c" "acceptance_relation (data p) = chain_relation c"
    and "\<forall>h d. chain h = Some d \<longrightarrow> set (chain_txs d) \<inter> imported (data p) = {}"
  shows "v_start_hash v' = last (v_start_hash v # map cb_hash pushed)
    \<and> (\<exists>c'. chain (v_start_hash v') = Some c' \<and> acceptance_relation (data p') = chain_relation c')"
proof -
  have "stands_at chain (v_start_hash v) (data p)" using assms(6-8) by (simp add: stands_at_def)
  from run_keeps_chain [OF assms(1,4,5,2,3) this]
  show ?thesis unfolding stands_at_def append_Nil by blast
qed

section \<open>The run succeeds and catches up\<close>

abbreviation vcp_checkpoint :: "rpc_header \<Rightarrow> checkpoint_block" where
  "vcp_checkpoint hdr \<equiv> \<lparr>cb_origin = OriginVcp, cb_hash = h_hash hdr, cb_timestamp = h_timestamp hdr,
     cb_daa_score = h_daa_score hdr, cb_blue_score = h_blue_score hdr\<rparr>"

text \<open>A round in which the node has the header of every chain block, with a time that formats, the
  block processor comes close before a shutdown, and the connection stays healthy.\<close>

definition serving_round :: "libs \<Rightarrow> vcp_config \<Rightarrow> (hash \<Rightarrow> accepted_ids list option) \<Rightarrow> vcp_round \<Rightarrow> bool" where
  "serving_round L cfg chain r \<longleftrightarrow>
     (\<forall>h c. chain h = Some c \<longrightarrow> c \<noteq> [] \<longrightarrow> (\<exists>hdr. vr_get_block r h = Some hdr
        \<and> millis_ok L (whole_seconds (h_timestamp hdr)) \<and> millis_ok L (as_i64 (h_timestamp hdr))
        \<and> caught_up (vc_net_bps cfg) (vcp_checkpoint hdr) (vr_reads r)))
     \<and> (\<forall>p. healthy p \<longrightarrow> healthy (vr_others r p))"

lemma remove_chain_blocks_works: "scale_ok s \<Longrightarrow> works (\<lambda>_. True) (remove_chain_blocks s hs) (\<lambda>_. True)"
  unfolding remove_chain_blocks_def delete_transaction_acceptances_def
  by (intro works_chunks works_execute batch_usize_pos) (simp_all add: Let_def)

lemma accept_transactions_works:
  assumes "scale_ok s" "sched_ok sched"
  shows "works (\<lambda>_. True) (accept_transactions sched s k ids) (\<lambda>_. True)"
  unfolding accept_transactions_def
proof (rule works_run)
  fix op assume op: "op \<in> set (chunk_task sched (1 + nat k) ''Insert acceptances FAILED'' (batch_usize 1000 7500 s)
      insert_transaction_acceptances (sort_key ta_transaction_id (acceptance_rows ids)))"
  have "batch_usize 1000 7500 s * 2 \<le> bind_limit"
    by (rule batch_usize_fits) (simp_all add: assms(1) bind_limit_def)
  from acceptances.chunk_task_works [OF op _ this assms(2)] show "works (\<lambda>_. True) op (\<lambda>_. True)"
    by (simp_all add: assms(1) batch_usize_pos)
qed

lemma vcp_commit_works:
  assumes "scale_ok (vc_batch_scale cfg)" "sched_ok sched" "\<not> vc_disable_acceptance cfg"
    and "length (cr_added res) - v_tip_distance v \<le> length (cr_accepted res)"
    and "millis_ok L (whole_seconds (h_timestamp hdr))" "millis_ok L (as_i64 (h_timestamp hdr))"
  shows "works (\<lambda>_. True) (vcp_commit L sched cfg now res hdr mv v) (\<lambda>x. \<exists>v' mv' c. x = Advance v' mv' c)"
proof -
  have "works (\<lambda>_. True) (accept_transactions sched (vc_batch_scale cfg) (vc_batch_concurrency cfg)
      (take (length (cr_added res) - v_tip_distance v) (cr_accepted res))) (\<lambda>_. True)"
    by (rule accept_transactions_works [OF assms(1,2)])
  then show ?thesis unfolding vcp_commit_def Let_def
    by (intro works_bnd [OF remove_chain_blocks_works [OF assms(1)]] works_bnd [where Q = "\<lambda>_. True"])
      (use assms(3-6) in \<open>auto simp: metrics_block_of_def not_less intro!: works_lift works_ret\<close>)
qed

text \<open>A round with such a node returns, and when the node answers it leaves the processor at most the
  tip distance behind the selected chain.\<close>

definition behind :: "accepted_ids list \<Rightarrow> accepted_ids list \<Rightarrow> nat" where
  "behind c w = length w - length (longest_common_prefix c w)"

lemma behind_prefix: "behind (take n w) w = length w - n"
proof -
  have "longest_common_prefix (take n w) w = take n w"
    by (metis longest_common_prefix_max_prefix longest_common_prefix_prefix1 prefix_order.antisym prefix_order.refl take_is_prefix)
  then show ?thesis by (simp add: behind_def)
qed

lemma update_tip_distance_below:
  "v_tip_distance v \<le> v_tip_distance (update_tip_distance cfg now m v) + (if vc_dynamic cfg then 1 else 0)
    \<and> (\<not> vc_dynamic cfg \<longrightarrow> v_tip_distance (update_tip_distance cfg now m v) = v_tip_distance v)"
  by (auto simp: update_tip_distance_def Let_def)

lemma advance_tip_distance:
  assumes "process_virtual_chain_step L sched cfg get_block started answer reads now mv v p
      = (Inr (Advance v' mv' c), p')"
  shows "v_tip_distance v \<le> v_tip_distance v' + (if vc_dynamic cfg then 1 else 0)
    \<and> (\<not> vc_dynamic cfg \<longrightarrow> v_tip_distance v' = v_tip_distance v)"
proof -
  from round_Inr [OF assms] obtain res where "answer = Some res" by blast
  from step_Advance [OF assms [unfolded this]] obtain hdr v1 where
    commit: "vcp_commit L sched cfg now res hdr mv v p = (Inr (Advance v1 mv' c), p')"
    and v': "v' = mark_synced (length (cr_added res)) v1" .
  from commit obtain m where "v_tip_distance v1 = v_tip_distance (update_tip_distance cfg now m v)"
    unfolding vcp_commit_def Let_def bnd_Inr_iff lift_res_def ret_def by (auto split: if_splits)
  with update_tip_distance_below [of v cfg now m] show ?thesis by (simp add: v' mark_synced_def)
qed

lemma step_commits:
  assumes "v_tip_distance v < length (cr_added rs)"
    and "get_block (last (take (length (cr_added rs) - v_tip_distance v) (cr_added rs))) = Some hdr"
    and "caught_up (vc_net_bps cfg) (vcp_checkpoint hdr) reads"
    and "vcp_commit L sched cfg now rs hdr mv v p = (Inr y, p')"
  shows "process_virtual_chain_step L sched cfg get_block True (Some rs) reads now mv v p
    = (Inr (after_response (length (cr_added rs)) y), p')"
  using assms by (simp add: process_virtual_chain_step_def Let_def bnd_def ret_def)

lemma round_works:
  assumes "healthy p" "scale_ok (vc_batch_scale cfg)" "sched_ok sched" "\<not> vc_disable_acceptance cfg"
    and "selected_chains chain" "honest_round chain r" "serving_round L cfg chain r"
    and "chain (v_start_hash v) = Some c"
  shows "\<exists>x p'. process_virtual_chain_step L sched cfg (vr_get_block r) (vr_started r) (vr_node r (v_start_hash v))
      (vr_reads r) now mv v p = (Inr x, p') \<and> healthy p' \<and> x \<noteq> Stopped"
proof (cases "vr_started r \<and> vr_node r (v_start_hash v) \<noteq> None")
  case False
  then show ?thesis using assms(1) by (auto simp: process_virtual_chain_step_def ret_def split: option.splits)
next
  case True
  with honest_answer [OF assms(6,8)] obtain tip w where
    w: "chain tip = Some w" "vr_node r (v_start_hash v) = Some (chain_change c w)" by metis
  show ?thesis
  proof (cases "v_tip_distance v < length (cr_added (chain_change c w))")
    case f: False
    then show ?thesis using assms(1) True by (simp add: process_virtual_chain_step_def ret_def w(2))
  next
    case tip: True
    let ?h = "last (take (length (cr_added (chain_change c w)) - v_tip_distance v) (cr_added (chain_change c w)))"
    have "chain ?h = Some (take (length w - v_tip_distance v) w)" by (rule shown_chain [OF assms(5) w(1) tip])
    moreover have "take (length w - v_tip_distance v) w \<noteq> []" using tip by (auto simp: chain_change_def Let_def)
    ultimately obtain hdr where hdr: "vr_get_block r ?h = Some hdr" "millis_ok L (whole_seconds (h_timestamp hdr))"
      "millis_ok L (as_i64 (h_timestamp hdr))" "caught_up (vc_net_bps cfg) (vcp_checkpoint hdr) (vr_reads r)"
      using assms(7) unfolding serving_round_def by blast
    have "length (cr_added (chain_change c w)) - v_tip_distance v \<le> length (cr_accepted (chain_change c w))"
      by (simp add: chain_change_def Let_def)
    from vcp_commit_works [OF assms(2-4) this hdr(2,3)] obtain y p' where
      y: "vcp_commit L sched cfg now (chain_change c w) hdr mv v p = (Inr y, p')" "healthy p'"
        "\<exists>v' mv' c. y = Advance v' mv' c"
      by (rule works_E [OF _ assms(1)]) simp_all
    have "vr_started r = True" using True by simp
    moreover have "after_response n y \<noteq> Stopped" for n using y(3) by auto
    ultimately show ?thesis using step_commits [where get_block = "vr_get_block r", OF tip hdr(1,4) y(1)] y(2) unfolding w(2) by auto
  qed
qed

lemma chain_run_works:
  assumes "healthy p" "scale_ok (vc_batch_scale cfg)" "sched_ok sched" "\<not> vc_disable_acceptance cfg"
    and "selected_chains chain" "\<forall>r\<in>set rs. honest_round chain r \<and> serving_round L cfg chain r"
    and "stands_at chain (v_start_hash v) (data p)"
  shows "\<exists>v' mv' pushed' p'. healthy p' \<and> stands_at chain (v_start_hash v') (data p')
    \<and> (\<not> vc_dynamic cfg \<longrightarrow> v_tip_distance v' = v_tip_distance v)
    \<and> (\<forall>rs'. process_virtual_chain_run L sched cfg (rs @ rs') mv v pushed p
          = process_virtual_chain_run L sched cfg rs' mv' v' pushed' p')"
  using assms(1,6,7)
proof (induction rs arbitrary: mv v pushed p)
  case Nil
  then show ?case by auto
next
  case (Cons r rs)
  let ?p = "vr_others r p"
  have r: "honest_round chain r" "serving_round L cfg chain r"
    "\<forall>r\<in>set rs. honest_round chain r \<and> serving_round L cfg chain r" using Cons.prems(2) by auto
  have p: "healthy ?p" using r(2) Cons.prems(1) unfolding serving_round_def by blast
  have at: "stands_at chain (v_start_hash v) (data ?p)"
    using Cons.prems(3) r(1) stands_at_acceptances unfolding honest_round_def by metis
  then obtain c where "chain (v_start_hash v) = Some c" by (auto simp: stands_at_def)
  from round_works [OF p assms(2-5) r(1,2) this] obtain x q where
    x: "process_virtual_chain_step L sched cfg (vr_get_block r) (vr_started r) (vr_node r (v_start_hash v))
       (vr_reads r) (vr_now r) mv v ?p = (Inr x, q)" and q: "healthy q" "x \<noteq> Stopped" by blast
  have run: "process_virtual_chain_run L sched cfg ((r # rs) @ rs') mv v pushed p =
      (case x of Waiting v1 \<Rightarrow> process_virtual_chain_run L sched cfg (rs @ rs') mv v1 pushed
        | Stopped \<Rightarrow> ret (v, mv, pushed)
        | Advance v1 mv1 c \<Rightarrow> process_virtual_chain_run L sched cfg (rs @ rs') mv1 v1 (pushed @ [c])) q" for rs'
    by (simp add: bnd_def x)
  show ?case
  proof (cases x)
    case (Waiting v1)
    have "v_start_hash v1 = v_start_hash v" "v_tip_distance v1 = v_tip_distance v" "q = ?p"
      using step_Waiting [OF x [unfolded Waiting]] by simp_all
    with Cons.IH [OF p r(3), of v1 mv pushed] at show ?thesis unfolding run Waiting by simp
  next
    case Stopped
    with q(2) show ?thesis by simp
  next
    case (Advance v1 mv1 c)
    from round_keeps_chain [OF x [unfolded Advance] assms(5) r(1) assms(4,3) at]
    have "stands_at chain (v_start_hash v1) (data q)" ..
    moreover have "\<not> vc_dynamic cfg \<longrightarrow> v_tip_distance v1 = v_tip_distance v"
      using advance_tip_distance [OF x [unfolded Advance]] by simp
    ultimately show ?thesis
      using Cons.IH [OF q(1) r(3), of v1 mv1 "pushed @ [c]"] unfolding run Advance by simp
  qed
qed

lemma answered_round_catches_up:
  assumes "process_virtual_chain_step L sched cfg (vr_get_block r) True (Some (chain_change c w)) (vr_reads r) now mv v p
      = (Inr x, p')" "x \<noteq> Stopped"
    and "selected_chains chain" "honest_round chain r" "\<not> vc_disable_acceptance cfg" "sched_ok sched"
    and "chain (v_start_hash v) = Some c" "chain tip = Some w" "acceptance_relation (data p) = chain_relation c"
    and "\<forall>g d. chain g = Some d \<longrightarrow> set (chain_txs d) \<inter> imported (data p) = {}"
  shows "\<exists>v' c'. (x = Waiting v' \<or> (\<exists>mv' cb. x = Advance v' mv' cb)) \<and> chain (v_start_hash v') = Some c'
    \<and> acceptance_relation (data p') = chain_relation c'
    \<and> behind c' w \<le> v_tip_distance v' + (if vc_dynamic cfg then 1 else 0)
    \<and> (\<not> vc_dynamic cfg \<longrightarrow> v_tip_distance v' = v_tip_distance v)"
proof (cases x)
  case Stopped
  with assms(2) show ?thesis by simp
next
  case (Waiting v1)
  note v1 = step_Waiting [OF assms(1) [unfolded Waiting]]
  then have "behind c w \<le> v_tip_distance v1" by (auto simp add: behind_def chain_change_def Let_def)
  with v1 assms(7,9) Waiting show ?thesis by auto
next
  case (Advance v1 mv1 cb)
  define d where "d = take (length w - v_tip_distance v) w"
  have "chain (v_start_hash v1) = Some d \<and> acceptance_relation (data p') = chain_relation d
      \<and> imported (data p') = imported (data p) \<and> v_start_hash v1 = cb_hash cb"
    unfolding d_def by (rule round_reaches [OF assms(1) [unfolded Advance] assms(3-10)])
  moreover have "behind d w \<le> v_tip_distance v" by (simp add: d_def behind_prefix)
  ultimately show ?thesis using advance_tip_distance [OF assms(1) [unfolded Advance]] Advance by auto
qed

text \<open>C2: with a healthy connection, a node that answers for its selected chain and has the headers of
  its blocks, and a block processor that comes close, no round of the virtual chain processor
  fails; and after a round in which the node answers at the chain \<open>w\<close>, the acceptances in the
  database are those of a chain that shares with \<open>w\<close> all but its last blocks, at most the tip
  distance of them (which a dynamic one may lower by one at the end of the round). A distance
  that is not dynamic stays as it starts, at zero, so that the index has all of \<open>w\<close>.\<close>

theorem index_catches_up:
  assumes "healthy p" "check_batch_args (s_cli_args s) = Inr ()" "batch_scale (s_cli_args s) \<noteq> NaN"
    and "vcp_config_of s = Inr cfg" "\<not> is_disabled (s_cli_args s) TransactionAcceptance" "sched_ok sched"
    and "selected_chains chain" "\<forall>r\<in>set (rs @ [r]). honest_round chain r \<and> serving_round L cfg chain r"
    and "chain (v_start_hash v) = Some c" "acceptance_relation (data p) = chain_relation c"
    and "\<forall>h d. chain h = Some d \<longrightarrow> set (chain_txs d) \<inter> imported (data p) = {}"
    and "vr_started r" "chain tip = Some w" "\<forall>h d. chain h = Some d \<longrightarrow> vr_node r h = Some (chain_change d w)"
  shows "\<exists>v' mv' pushed p' c'. process_virtual_chain_run L sched cfg (rs @ [r]) mv v [] p = (Inr (v', mv', pushed), p')
    \<and> chain (v_start_hash v') = Some c' \<and> acceptance_relation (data p') = chain_relation c'
    \<and> behind c' w \<le> v_tip_distance v' + (if vc_dynamic cfg then 1 else 0)
    \<and> (\<not> vc_dynamic cfg \<longrightarrow> v_tip_distance v' = v_tip_distance v)"
proof -
  have cfg: "scale_ok (vc_batch_scale cfg)" "\<not> vc_disable_acceptance cfg"
    using assms(2-5) by (auto simp: vcp_config_of_def check_batch_args_Inr sbind_Inr_iff)
  have r: "honest_round chain r" "serving_round L cfg chain r" using assms(8) by simp_all
  have "\<forall>r\<in>set rs. honest_round chain r \<and> serving_round L cfg chain r" using assms(8) by simp
  moreover have "stands_at chain (v_start_hash v) (data p)" using assms(9-11) by (simp add: stands_at_def)
  ultimately obtain v1 mv1 pushed1 q where q: "healthy q" "stands_at chain (v_start_hash v1) (data q)"
      "\<not> vc_dynamic cfg \<longrightarrow> v_tip_distance v1 = v_tip_distance v"
    and run: "process_virtual_chain_run L sched cfg (rs @ [r]) mv v [] p
      = process_virtual_chain_run L sched cfg [r] mv1 v1 pushed1 q"
    using chain_run_works [OF assms(1) cfg(1) assms(6) cfg(2) assms(7)] by blast
  let ?q = "vr_others r q"
  have at: "stands_at chain (v_start_hash v1) (data ?q)"
    using q(2) r(1) stands_at_acceptances unfolding honest_round_def by metis
  then obtain d where d: "chain (v_start_hash v1) = Some d" "acceptance_relation (data ?q) = chain_relation d"
    and imp: "\<forall>g c. chain g = Some c \<longrightarrow> set (chain_txs c) \<inter> imported (data ?q) = {}"
    by (auto simp: stands_at_def)
  have "healthy ?q" using r(2) q(1) unfolding serving_round_def by blast
  from round_works [where now = "vr_now r" and mv = mv1, OF this cfg(1) assms(6) cfg(2) assms(7) r d(1)] obtain x p' where
    x: "process_virtual_chain_step L sched cfg (vr_get_block r) True (Some (chain_change d w))
       (vr_reads r) (vr_now r) mv1 v1 ?q = (Inr x, p')" "x \<noteq> Stopped"
    using assms(12,14) d(1) by auto
  from answered_round_catches_up [OF x assms(7) r(1) cfg(2) assms(6) d(1) assms(13) d(2) imp]
  obtain v' c' where "x = Waiting v' \<or> (\<exists>mv' cb. x = Advance v' mv' cb)" "chain (v_start_hash v') = Some c'"
    "acceptance_relation (data p') = chain_relation c'"
    "behind c' w \<le> v_tip_distance v' + (if vc_dynamic cfg then 1 else 0)"
    "\<not> vc_dynamic cfg \<longrightarrow> v_tip_distance v' = v_tip_distance v1" by blast
  then show ?thesis using q(3) x assms(12,14) d(1) unfolding run by (auto simp: bnd_def ret_def)
qed

section \<open>A reorganisation\<close>

text \<open>Blocks 1 and 2 compete at the same height, both accepting transaction 7; the index has block 1,
  the node has moved to block 2.\<close>

definition fork_chain :: "hash \<Rightarrow> accepted_ids list option" where
  "fork_chain h = (if h = Hash [1] then Some [\<lparr>ai_block = Hash [1], ai_txs = [Hash [7]]\<rparr>]
     else if h = Hash [2] then Some [\<lparr>ai_block = Hash [2], ai_txs = [Hash [7]]\<rparr>] else None)"

definition fork_round :: vcp_round where
  "fork_round = \<lparr>vr_started = True,
     vr_node = (\<lambda>h. map_option (\<lambda>c. chain_change c [\<lparr>ai_block = Hash [2], ai_txs = [Hash [7]]\<rparr>]) (fork_chain h)),
     vr_get_block = (\<lambda>h. Some (sample_header\<lparr>h_hash := h\<rparr>)), vr_reads = sample_reads, vr_now = 0,
     vr_others = (\<lambda>p. p)\<rparr>"

definition fork_settings :: settings where
  "fork_settings = \<lparr>s_cli_args = sample_args, s_net_bps = 1, s_net_tps_max = 300, s_checkpoint = Hash [1],
     s_disable_vcp_wait_for_sync = False\<rparr>"

definition fork_config :: vcp_config where
  "fork_config = sample_vcp\<lparr>vc_batch_concurrency := 2, vc_window := 600\<rparr>"

lemma fork_facts:
  "selected_chains fork_chain" "fork_chain (Hash [1]) = Some [\<lparr>ai_block = Hash [1], ai_txs = [Hash [7]]\<rparr>]"
  "fork_chain (Hash [2]) = Some [\<lparr>ai_block = Hash [2], ai_txs = [Hash [7]]\<rparr>]"
  "honest_round fork_chain fork_round" "serving_round sample_libs fork_config fork_chain fork_round"
proof -
  show "selected_chains fork_chain" by (simp add: selected_chains_def fork_chain_def chain_txs_def)
  show one: "fork_chain (Hash [1]) = Some [\<lparr>ai_block = Hash [1], ai_txs = [Hash [7]]\<rparr>]"
    and two: "fork_chain (Hash [2]) = Some [\<lparr>ai_block = Hash [2], ai_txs = [Hash [7]]\<rparr>]"
    by (simp_all add: fork_chain_def)
  show "honest_round fork_chain fork_round"
    unfolding honest_round_def using two by (auto simp: fork_round_def sample_header_def)
  show "serving_round sample_libs fork_config fork_chain fork_round"
    by (simp add: serving_round_def fork_round_def sample_header_def sample_libs_def caught_up_def sample_reads_def
        fork_config_def sample_vcp_def saturating_sub_def)
qed

lemma fork_database:
  "acceptance_relation sample_chain_db = chain_relation [\<lparr>ai_block = Hash [1], ai_txs = [Hash [7]]\<rparr>]"
  "imported sample_chain_db = {}" "healthy (pool_of sample_chain_db)" "data (pool_of sample_chain_db) = sample_chain_db"
  by (auto simp: acceptance_relation_def chain_relation_def sample_chain_db_def imported_def)

lemma fork_settings_facts:
  "check_batch_args (s_cli_args fork_settings) = Inr ()" "batch_scale (s_cli_args fork_settings) \<noteq> NaN"
  "vcp_config_of fork_settings = Inr fork_config" "\<not> is_disabled (s_cli_args fork_settings) TransactionAcceptance"
  "\<not> vc_disable_acceptance fork_config" "scale_ok (vc_batch_scale fork_config)"
  by (simp_all add: check_batch_args_def sample_args_def fork_settings_def lit_0_1_def vcp_config_of_def
      tip_distance_window_def fork_config_def sample_vcp_def is_enabled_def is_disabled_def scale_ok_def)

lemma fork_run:
  "\<exists>v' mv' pushed p'. process_virtual_chain_run sample_libs (\<lambda>k n. [0..<n]) fork_config [fork_round]
     (me_vcp metrics_new) (vcp_start fork_settings) [] (pool_of sample_chain_db) = (Inr (v', mv', pushed), p')"
proof -
  have "stands_at fork_chain (v_start_hash (vcp_start fork_settings)) (data (pool_of sample_chain_db))"
    unfolding stands_at_def fork_database
    by (simp add: vcp_start_def fork_settings_def fork_facts)
  moreover have "\<forall>r\<in>set [fork_round]. honest_round fork_chain r \<and> serving_round sample_libs fork_config fork_chain r"
    by (simp add: fork_facts)
  ultimately obtain v' mv' pushed p' where
    "\<forall>rs'. process_virtual_chain_run sample_libs (\<lambda>k n. [0..<n]) fork_config ([fork_round] @ rs')
       (me_vcp metrics_new) (vcp_start fork_settings) [] (pool_of sample_chain_db)
     = process_virtual_chain_run sample_libs (\<lambda>k n. [0..<n]) fork_config rs' mv' v' pushed p'"
    using chain_run_works [OF fork_database(3) fork_settings_facts(6) sched_ok_upt fork_settings_facts(5) fork_facts(1)]
    by blast
  from spec [OF this, of "[]"] show ?thesis by (auto simp: ret_def)
qed

theorem index_follows_selected_chain_witness:
  "\<exists>v' mv' pushed p'. process_virtual_chain_run sample_libs (\<lambda>k n. [0..<n]) fork_config [fork_round]
     (me_vcp metrics_new) (vcp_start fork_settings) [] (pool_of sample_chain_db) = (Inr (v', mv', pushed), p')
   \<and> v_start_hash v' = last (Hash [1] # map cb_hash pushed)
   \<and> (\<exists>c'. fork_chain (v_start_hash v') = Some c' \<and> acceptance_relation (data p') = chain_relation c')"
proof -
  from fork_run obtain v' mv' pushed p' where run:
    "process_virtual_chain_run sample_libs (\<lambda>k n. [0..<n]) fork_config [fork_round]
       (me_vcp metrics_new) (vcp_start fork_settings) [] (pool_of sample_chain_db) = (Inr (v', mv', pushed), p')" by blast
  have h: "v_start_hash (vcp_start fork_settings) = Hash [1]" by (simp add: vcp_start_def fork_settings_def)
  have "\<forall>r\<in>set [fork_round]. honest_round fork_chain r" by (simp add: fork_facts)
  from index_follows_selected_chain [OF run fork_settings_facts(5) sched_ok_upt fork_facts(1) this,
      unfolded h fork_database, OF fork_facts(2) refl] run
  show ?thesis by blast
qed

theorem index_catches_up_witness:
  "\<exists>v' mv' pushed p'. process_virtual_chain_run sample_libs (\<lambda>k n. [0..<n]) fork_config [fork_round]
     (me_vcp metrics_new) (vcp_start fork_settings) [] (pool_of sample_chain_db) = (Inr (v', mv', pushed), p')
   \<and> acceptance_relation (data p') = {(Hash [7], Hash [2])}"
proof -
  have h: "v_start_hash (vcp_start fork_settings) = Hash [1]" by (simp add: vcp_start_def fork_settings_def)
  have r: "\<forall>r\<in>set ([] @ [fork_round]). honest_round fork_chain r \<and> serving_round sample_libs fork_config fork_chain r"
    "vr_started fork_round" "\<forall>h d. fork_chain h = Some d \<longrightarrow>
      vr_node fork_round h = Some (chain_change d [\<lparr>ai_block = Hash [2], ai_txs = [Hash [7]]\<rparr>])"
    by (simp_all add: fork_facts) (simp_all add: fork_round_def)
  have "fork_chain (v_start_hash (vcp_start fork_settings)) = Some [\<lparr>ai_block = Hash [1], ai_txs = [Hash [7]]\<rparr>]"
    by (simp add: h fork_facts)
  from index_catches_up [OF fork_database(3) fork_settings_facts(1-4) sched_ok_upt fork_facts(1) r(1) this
      _ _ r(2) fork_facts(3) r(3), of "me_vcp metrics_new"]
  obtain v' mv' pushed p' c' where
    run: "process_virtual_chain_run sample_libs (\<lambda>k n. [0..<n]) fork_config [fork_round]
       (me_vcp metrics_new) (vcp_start fork_settings) [] (pool_of sample_chain_db) = (Inr (v', mv', pushed), p')"
    and c': "fork_chain (v_start_hash v') = Some c'" "acceptance_relation (data p') = chain_relation c'"
      "behind c' [\<lparr>ai_block = Hash [2], ai_txs = [Hash [7]]\<rparr>] = 0"
    by (auto simp: fork_database fork_config_def sample_vcp_def vcp_start_def fork_settings_def sample_args_def is_enabled_def)
  from c'(1,3) have "c' = [\<lparr>ai_block = Hash [2], ai_txs = [Hash [7]]\<rparr>]"
    by (auto simp: fork_chain_def behind_def split: if_splits)
  with run c'(2) show ?thesis by (auto simp: chain_relation_def)
qed

end
