(* ===== verification/Balances.thy ===== *)
theory Balances
  imports Pipeline "HOL-Library.AList"
begin

text \<open>
  Address balances: the two batch updates of the database crate
  (\<open>database/src/query/insert.rs\<close>, \<open>update_balances_incremental\<close> and \<open>..._absolute\<close>) and the
  live update between two checkpoints (\<open>indexer/src/utxo_import/balance_updater.rs\<close>), with the
  abstract balance they refine: what an address received up to a blue score less what it
  spent. The iteration order of a hash map is the parameter \<open>perm\<close>, the order of the groups
  of a query \<open>grp\<close>.
\<close>

datatype failure = Crash panic | DbFailed sql_error

definition db_call :: "'a db_op \<Rightarrow> (pool, failure, 'a) sem" where
  [sem_simps]: "db_call m p =
     (case m p of (Inl e, p') \<Rightarrow> (Inl (DbFailed e), p') | (Inr a, p') \<Rightarrow> (Inr a, p'))"

lemma db_call_Inr_iff [simp]: "db_call m p = (Inr a, p') \<longleftrightarrow> m p = (Inr a, p')"
  by (auto simp: db_call_def split: prod.splits sum.splits)

abbreviation overflow :: failure where
  "overflow \<equiv> Crash (Panic ''attempt to add with overflow'')"

section \<open>Batch updates\<close>

text \<open>
  \<open>INSERT INTO balances ... ON CONFLICT DO UPDATE\<close>: an address beyond 100 characters, a
  balance beyond BIGINT or an address twice in the statement fails it.
\<close>

definition upsert_balances :: "(string \<times> int) list \<Rightarrow> db \<Rightarrow> sql_error + nat \<times> db" where
  "upsert_balances rows d =
     (if \<exists>r\<in>set rows. \<not> in_signed 64 (snd r) then Inl OutOfRange
      else if \<exists>r\<in>set rows. 100 < length (fst r) then Inl ValueTooLong
      else if \<not> distinct (map fst rows) then Inl CardinalityViolation
      else Inr (length rows, d\<lparr>t_balances := t_balances d ++ map_of rows\<rparr>))"

definition balance_of :: "db \<Rightarrow> string \<Rightarrow> int" where
  "balance_of d a = (case t_balances d a of None \<Rightarrow> 0 | Some b \<Rightarrow> b)"

definition add_deltas :: "(string \<times> int) list \<Rightarrow> db \<Rightarrow> sql_error + nat \<times> db" where
  "add_deltas chunk d = upsert_balances (map (\<lambda>(a, delta). (a, balance_of d a + delta)) chunk) d"

text \<open>\<open>*aggregated.entry(address).or_default() += balance\<close>, with the overflow check of the build.\<close>

fun aggregate :: "(string \<times> int) list \<Rightarrow> balance list \<Rightarrow> failure + (string \<times> int) list" where
  "aggregate agg [] = Inr agg"
| "aggregate agg (b # bs) =
     (let s = (case map_of agg (bal_address b) of None \<Rightarrow> 0 | Some v \<Rightarrow> v) + bal_balance b in
      if in_signed 64 s then aggregate (AList.update (bal_address b) s agg) bs else Inl overflow)"

definition balance_chunk_size :: nat where
  "balance_chunk_size = 25000"

definition update_balances_incremental ::
  "((string \<times> int) list \<Rightarrow> (string \<times> int) list) \<Rightarrow> balance list \<Rightarrow> (pool, failure, nat) sem" where
  "update_balances_incremental perm balance_deltas =
     (if balance_deltas = [] then ret 0
      else bnd (lift_res (aggregate [] balance_deltas)) (\<lambda>agg.
        let agg = filter (\<lambda>(_, v). v \<noteq> 0) agg in
        if agg = [] then ret 0
        else sum_loop (\<lambda>c. db_call (execute (add_deltas c))) (chunks_of balance_chunk_size (perm agg)) 0))"

definition update_balances_absolute :: "balance list \<Rightarrow> (pool, failure, nat) sem" where
  "update_balances_absolute absolute_balances =
     (if absolute_balances = [] then ret 0
      else sum_loop (\<lambda>c. db_call (execute (upsert_balances
               (map (\<lambda>b. (bal_address b, bal_balance b)) c))))
             (chunks_of balance_chunk_size absolute_balances) 0)"

section \<open>Changes between two checkpoints\<close>

text \<open>The blue scores of the blocks that accept a transaction, one per joined row.\<close>

definition accepting_scores :: "hash \<Rightarrow> db \<Rightarrow> int list" where
  "accepting_scores transaction_id d =
     [s. a \<leftarrow> t_acceptances d, ta_transaction_id a = Some transaction_id,
         b \<leftarrow> t_blocks d, ta_block_hash a = Some (blk_hash b), Some s \<leftarrow> [blk_blue_score b]]"

text \<open>\<open>WITH from_score AS (SELECT blue_score FROM blocks WHERE hash = decode($1, 'hex'))\<close>.\<close>

definition checkpoint_scores :: "byte list \<Rightarrow> db \<Rightarrow> int list" where
  "checkpoint_scores h d = [s. b \<leftarrow> t_blocks d, as_bytes (blk_hash b) = h, Some s \<leftarrow> [blk_blue_score b]]"

definition window :: "int list \<Rightarrow> int list \<Rightarrow> int list \<Rightarrow> int list" where
  "window from_scores to_scores scores =
     [s. f \<leftarrow> from_scores, t \<leftarrow> to_scores, s \<leftarrow> scores, f < s \<and> s \<le> t]"

definition created_rows :: "(int list \<Rightarrow> int list) \<Rightarrow> db \<Rightarrow> (string \<times> int option) list" where
  "created_rows win d =
     [(addr, out_amount r). r \<leftarrow> t_outputs d, Some addr \<leftarrow> [out_script_public_key_address r],
        _ \<leftarrow> win (accepting_scores (out_transaction_id r) d)]"

definition spent_rows :: "(int list \<Rightarrow> int list) \<Rightarrow> db \<Rightarrow> (string \<times> int option) list" where
  "spent_rows win d =
     [(addr, out_amount r). i \<leftarrow> t_inputs d, _ \<leftarrow> win (accepting_scores (in_transaction_id i) d),
        r \<leftarrow> t_outputs d, spends i r, Some addr \<leftarrow> [out_script_public_key_address r]]"

text \<open>\<open>COALESCE(SUM(amount), 0)\<close>: NULL amounts do not count.\<close>

definition total_of :: "string \<Rightarrow> (string \<times> int option) list \<Rightarrow> int" where
  "total_of a rows = sum_list (map (\<lambda>(b, x). if a = b then (case x of None \<Rightarrow> 0 | Some x \<Rightarrow> x) else 0) rows)"

definition group_sums ::
  "(string list \<Rightarrow> string list) \<Rightarrow> (string \<times> int option) list \<Rightarrow> sql_error + (string \<times> int) list" where
  "group_sums grp rows =
     (let totals = map (\<lambda>a. (a, total_of a rows)) (grp (remdups (map fst rows))) in
      if \<exists>s\<in>set totals. \<not> in_signed 64 (snd s) then Inl OutOfRange else Inr totals)"

definition select_changes ::
  "libs \<Rightarrow> (string list \<Rightarrow> string list) \<Rightarrow> ((int list \<Rightarrow> int list) \<Rightarrow> db \<Rightarrow> (string \<times> int option) list) \<Rightarrow>
     string \<Rightarrow> string \<Rightarrow> (string \<times> int) list db_op" where
  "select_changes L grp rows from_checkpoint to_checkpoint = query (\<lambda>d.
     case (hex_decode L from_checkpoint, hex_decode L to_checkpoint) of
       (Some f, Some t) \<Rightarrow>
         group_sums grp (rows (window (checkpoint_scores f d) (checkpoint_scores t d)) d)
     | _ \<Rightarrow> Inl SyntaxError)"

text \<open>The lowest BIGINT has no negation: \<open>-amount\<close> and \<open>abs\<close> in the log would panic.\<close>

definition changes_of ::
  "(string \<times> int) list \<Rightarrow> (string \<times> int) list \<Rightarrow> failure + balance list" where
  "changes_of created spent =
     (if (\<exists>r\<in>set spent. snd r = - (2 ^ 63)) then Inl (Crash (Panic ''attempt to negate with overflow''))
      else Inr (map (\<lambda>(a, x). balance_new a x) (filter (\<lambda>(_, x). x \<noteq> 0) created)
              @ map (\<lambda>(a, x). balance_new a (- x)) (filter (\<lambda>(_, x). x \<noteq> 0) spent)))"

definition update_balances_from_utxo_changes ::
  "libs \<Rightarrow> (string list \<Rightarrow> string list) \<Rightarrow> ((string \<times> int) list \<Rightarrow> (string \<times> int) list) \<Rightarrow>
     string \<Rightarrow> string \<Rightarrow> (pool, failure, unit) sem" where
  "update_balances_from_utxo_changes L grp perm from_checkpoint to_checkpoint =
     bnd (db_call (select_changes L grp created_rows from_checkpoint to_checkpoint)) (\<lambda>created.
     bnd (db_call (select_changes L grp spent_rows from_checkpoint to_checkpoint)) (\<lambda>spent.
     bnd (lift_res (changes_of created spent)) (\<lambda>deltas.
     if deltas = [] then ret ()
     else if 1 < length deltas \<and> (\<exists>b\<in>set deltas. bal_balance b = - (2 ^ 63))
     then throw (Crash (Panic ''attempt to negate with overflow''))
     else bnd (update_balances_incremental perm deltas) (\<lambda>_. ret ()))))"

end
