(* ===== verification/Balances_Props.thy ===== *)
theory Balances_Props
  imports Balances
begin

text \<open>
  What the balance updates do: the incremental update adds the sum of each address's deltas,
  and the live update what its queries count between the blue scores of two checkpoints.
\<close>

definition permuting :: "('a list \<Rightarrow> 'a list) \<Rightarrow> bool" where
  "permuting f \<longleftrightarrow> (\<forall>xs. mset (f xs) = mset xs)"

lemma permuting_id: "permuting (\<lambda>xs. xs)"
  by (simp add: permuting_def)

lemma permuting_set: "permuting f \<Longrightarrow> set (f xs) = set xs"
  unfolding permuting_def by (metis set_mset_mset)

lemma permuting_distinct: "permuting f \<Longrightarrow> distinct (map g (f xs)) \<longleftrightarrow> distinct (map g xs)"
  unfolding permuting_def by (metis mset_eq_imp_distinct_iff mset_map)

section \<open>Aggregation\<close>

definition lookup0 :: "(string \<times> int) list \<Rightarrow> string \<Rightarrow> int" where
  "lookup0 al a = (case map_of al a of None \<Rightarrow> 0 | Some v \<Rightarrow> v)"

definition delta_sum :: "string \<Rightarrow> balance list \<Rightarrow> int" where
  "delta_sum a bs = sum_list (map (\<lambda>b. if bal_address b = a then bal_balance b else 0) bs)"

lemma delta_sum_simps [simp]:
  "delta_sum a [] = 0"
  "delta_sum a (b # bs) = (if bal_address b = a then bal_balance b else 0) + delta_sum a bs"
  "delta_sum a (bs @ cs) = delta_sum a bs + delta_sum a cs"
  by (simp_all add: delta_sum_def)

lemma lookup0_update: "lookup0 (AList.update k v al) a = (if a = k then v else lookup0 al a)"
  by (simp add: lookup0_def update_conv')

lemma aggregate_Inr:
  "aggregate agg bs = Inr agg' \<Longrightarrow> distinct (map fst agg) \<Longrightarrow>
     distinct (map fst agg') \<and> (\<forall>a. lookup0 agg' a = lookup0 agg a + delta_sum a bs)"
proof (induction bs arbitrary: agg)
  case (Cons b bs)
  let ?s = "lookup0 agg (bal_address b) + bal_balance b"
  have "aggregate (AList.update (bal_address b) ?s agg) bs = Inr agg'"
    using Cons.prems(1) by (auto simp: lookup0_def Let_def split: if_splits)
  from Cons.IH [OF this] Cons.prems(2) show ?case
    by (auto simp: lookup0_update distinct_update)
qed simp

lemma lookup0_filter:
  "distinct (map fst al) \<Longrightarrow> lookup0 (filter (\<lambda>(_, v). v \<noteq> 0) al) a = lookup0 al a"
proof (induction al)
  case (Cons x al)
  have "lookup0 al (fst x) = 0"
    using Cons.prems by (simp add: lookup0_def map_of_eq_None_iff [THEN iffD2])
  then show ?case using Cons by (cases x) (auto simp: lookup0_def split: if_splits)
qed (simp add: lookup0_def)

lemma lookup0_perm:
  assumes "permuting perm" "distinct (map fst al)"
  shows "lookup0 (perm al) a = lookup0 al a"
proof -
  have "map_of (perm al) = map_of al"
    using assms by (metis map_of_inject_set permuting_distinct permuting_set)
  then show ?thesis by (simp add: lookup0_def)
qed

section \<open>The statements\<close>

lemma upsert_Inr:
  "upsert_balances rows d = Inr (n, d') \<Longrightarrow>
     distinct (map fst rows) \<and> n = length rows \<and> d' = d\<lparr>t_balances := t_balances d ++ map_of rows\<rparr>"
  by (auto simp: upsert_balances_def split: if_splits)

lemma add_deltas_Inr:
  assumes "add_deltas chunk d = Inr (n, d')"
  shows "n = length chunk \<and> (\<forall>a. balance_of d' a = balance_of d a + lookup0 chunk a)
    \<and> (\<exists>t. d' = d\<lparr>t_balances := t\<rparr>)"
proof -
  let ?rows = "map (\<lambda>(a, delta). (a, balance_of d a + delta)) chunk"
  have u: "n = length chunk" "d' = d\<lparr>t_balances := t_balances d ++ map_of ?rows\<rparr>"
    using upsert_Inr [OF assms [unfolded add_deltas_def]] by simp_all
  have "map_of ?rows a = map_option (\<lambda>x. balance_of d a + x) (map_of chunk a)" for a
    by (induction chunk) auto
  then show ?thesis using u
    by (auto simp: balance_of_def lookup0_def map_add_def split: option.splits)
qed

lemma add_loop_Inr:
  assumes "sum_loop (\<lambda>c. db_call (execute (add_deltas c))) cs acc p = (Inr n, p')"
    and "distinct (map fst (concat cs))"
  shows "n = acc + length (concat cs)
    \<and> (\<forall>a. balance_of (data p') a = balance_of (data p) a + lookup0 (concat cs) a)
    \<and> (\<exists>t. data p' = (data p)\<lparr>t_balances := t\<rparr>)"
  using assms
proof (induction cs arbitrary: acc p)
  case Nil
  then show ?case by (auto simp: ret_def lookup0_def intro: exI [of _ "t_balances (data p)"])
next
  case (Cons c cs)
  then obtain k q where 1: "execute (add_deltas c) p = (Inr k, q)"
    and 2: "sum_loop (\<lambda>c. db_call (execute (add_deltas c))) cs (acc + k) q = (Inr n, p')"
    by (auto simp: bnd_Inr_iff)
  note a = add_deltas_Inr [OF execute_Inr [OF 1]]
  have d: "distinct (map fst (concat cs))" "fst ` set c \<inter> fst ` set (concat cs) = {}"
    using Cons.prems(2) by auto
  note b = Cons.IH [OF 2 d(1)]
  have "lookup0 (concat (c # cs)) x = lookup0 c x + lookup0 (concat cs) x" for x
  proof (cases "map_of c x")
    case None
    then show ?thesis by (simp add: lookup0_def map_add_def split: option.splits)
  next
    case (Some v)
    then have "x \<notin> fst ` set (concat cs)" using d(2) map_of_SomeD [OF Some] by force
    then have "map_of (concat cs) x = None" by (simp only: map_of_eq_None_iff not_False_eq_True)
    then show ?thesis using Some by (simp add: lookup0_def map_add_def)
  qed
  moreover have "\<exists>t. data p' = (data p)\<lparr>t_balances := t\<rparr>"
  proof -
    from a b obtain t u where "data q = (data p)\<lparr>t_balances := t\<rparr>" "data p' = (data q)\<lparr>t_balances := u\<rparr>"
      by blast
    then show ?thesis by (intro exI [of _ u]) simp
  qed
  ultimately show ?case using a b by simp
qed

section \<open>The incremental update\<close>

lemma incremental_Inr:
  assumes "update_balances_incremental perm deltas p = (Inr n, p')" "permuting perm"
  shows "(\<forall>a. balance_of (data p') a = balance_of (data p) a + delta_sum a deltas)
    \<and> (\<exists>t. data p' = (data p)\<lparr>t_balances := t\<rparr>)"
proof (cases "deltas = []")
  case True
  then have "p' = p" using assms(1) by (simp add: update_balances_incremental_def ret_def)
  then show ?thesis using True by (auto intro: exI [of _ "t_balances (data p)"])
next
  case False
  from assms(1) False obtain agg where agg: "aggregate [] deltas = Inr agg" and
    rest: "(if filter (\<lambda>(_, v). v \<noteq> 0) agg = [] then ret 0
      else sum_loop (\<lambda>c. db_call (execute (add_deltas c)))
        (chunks_of balance_chunk_size (perm (filter (\<lambda>(_, v). v \<noteq> 0) agg))) 0) p = (Inr n, p')"
    by (auto simp: update_balances_incremental_def bnd_Inr_iff lift_res_def Let_def)
  let ?agg = "filter (\<lambda>(_, v). v \<noteq> 0) agg"
  note a = aggregate_Inr [OF agg]
  then have d: "distinct (map fst agg)" by simp
  then have d': "distinct (map fst ?agg)" by (simp add: distinct_map_filter)
  have sum: "lookup0 ?agg x = delta_sum x deltas" for x
    using a lookup0_filter [OF d] by (simp add: lookup0_def [of "[]"])
  show ?thesis
  proof (cases "?agg = []")
    case True
    then have "p' = p" using rest by (simp add: ret_def)
    moreover have "delta_sum x deltas = 0" for x using sum [of x] True by (simp add: lookup0_def)
    ultimately show ?thesis by (auto intro: exI [of _ "t_balances (data p)"])
  next
    case False
    have c: "concat (chunks_of balance_chunk_size (perm ?agg)) = perm ?agg"
      by (rule concat_chunks_of) (simp add: balance_chunk_size_def)
    have "sum_loop (\<lambda>c. db_call (execute (add_deltas c)))
        (chunks_of balance_chunk_size (perm ?agg)) 0 p = (Inr n, p')"
      using rest False by simp
    note loop = add_loop_Inr [OF this, unfolded c permuting_distinct [OF assms(2)] lookup0_perm [OF assms(2) d']]
    from loop [OF d'] show ?thesis by (simp add: sum)
  qed
qed

text \<open>C30: a successful incremental update adds to every address the sum of its deltas and nothing
  else, however the deltas are split over rows, in whatever order the hash map iterates; no
  other column of the database changes.\<close>

theorem incremental_adds_deltas:
  assumes "update_balances_incremental perm deltas p = (Inr n, p')" "permuting perm"
  shows "(\<forall>a. balance_of (data p') a = balance_of (data p) a + delta_sum a deltas)
    \<and> data p' = (data p)\<lparr>t_balances := t_balances (data p')\<rparr>"
  using incremental_Inr [OF assms] by auto

theorem incremental_adds_deltas_witness:
  "\<exists>n p'. update_balances_incremental (\<lambda>xs. xs) [balance_new ''a'' 3, balance_new ''b'' 1, balance_new ''a'' 4]
      (pool_of schema_db) = (Inr n, p') \<and> balance_of (data p') ''a'' = 7"
proof -
  let ?ds = "[balance_new ''a'' 3, balance_new ''b'' 1, balance_new ''a'' 4]"
  have "\<exists>n p'. update_balances_incremental (\<lambda>xs. xs) ?ds (pool_of schema_db) = (Inr n, p')"
    using chunks_of_small [of "[(''a'', 7 :: int), (''b'', 1)]" balance_chunk_size]
    by (simp add: update_balances_incremental_def balance_new_def lift_res_def bnd_def in_signed_def
        balance_chunk_size_def ret_def db_call_def execute_healthy add_deltas_def upsert_balances_def
        schema_db_def balance_of_def)
  then obtain n p' where r: "update_balances_incremental (\<lambda>xs. xs) ?ds (pool_of schema_db) = (Inr n, p')"
    by blast
  from incremental_adds_deltas [OF r permuting_id] r show ?thesis
    by (auto simp: balance_new_def balance_of_def schema_db_def)
qed

section \<open>Sums over the joins\<close>

definition amount_to :: "string \<Rightarrow> transaction_output_row \<Rightarrow> int" where
  "amount_to a r = (if out_script_public_key_address r = Some a
     then (case out_amount r of None \<Rightarrow> 0 | Some x \<Rightarrow> x) else 0)"

lemma total_of_simps [simp]:
  "total_of a [] = 0"
  "total_of a (r # rs) = (if a = fst r then (case snd r of None \<Rightarrow> 0 | Some x \<Rightarrow> x) else 0) + total_of a rs"
  "total_of a (rs @ ss) = total_of a rs + total_of a ss"
  by (simp_all add: total_of_def split_beta)

lemma total_of_concat: "total_of a (concat xss) = sum_list (map (total_of a) xss)"
  by (induction xss) simp_all

lemma total_of_const: "total_of a (map (\<lambda>_. r) xs) = int (length xs) * total_of a [r]"
  by (induction xs) (simp_all add: distrib_right)

lemma created_total:
  "total_of a (created_rows win d) = sum_list (map (\<lambda>r. int (length (win (accepting_scores (out_transaction_id r) d)))
     * amount_to a r) (t_outputs d))"
proof -
  have "total_of a (concat (map (\<lambda>x. case x of None \<Rightarrow> [] | Some addr \<Rightarrow> map (\<lambda>_. (addr, out_amount r)) ws)
      [out_script_public_key_address r])) = int (length ws) * amount_to a r" for r and ws :: "int list"
    by (cases "out_script_public_key_address r")
      (simp_all add: amount_to_def total_of_const del: map_replicate_const)
  then show ?thesis by (simp add: created_rows_def total_of_concat o_def)
qed

lemma total_of_if:
  "total_of a (concat (map (\<lambda>r. if P r then concat (map (\<lambda>x. case x of None \<Rightarrow> [] | Some addr \<Rightarrow> [(addr, out_amount r)])
     [out_script_public_key_address r]) else []) rs))
   = sum_list (map (\<lambda>r. if P r then amount_to a r else 0) rs)"
  by (induction rs) (simp_all add: amount_to_def split: option.splits)

lemma spent_total:
  "total_of a (spent_rows win d) = sum_list (map (\<lambda>i. int (length (win (accepting_scores (in_transaction_id i) d)))
     * sum_list (map (\<lambda>r. if spends i r then amount_to a r else 0) (t_outputs d))) (t_inputs d))"
proof -
  have rep: "total_of a (concat (map (\<lambda>_. rows) ws)) = int (length ws) * total_of a rows"
    for rows and ws :: "int list"
    by (induction ws) (simp_all add: distrib_right)
  show ?thesis
    by (simp only: spent_rows_def total_of_concat [of a "map _ (t_inputs d)"] map_map o_def rep total_of_if)
qed

lemma window_one:
  assumes "f \<le> t"
  shows "int (length (window [f] [t] xs)) =
    int (length (filter (\<lambda>s. s \<le> t) xs)) - int (length (filter (\<lambda>s. s \<le> f) xs))"
proof -
  have "window [f] [t] xs = filter (\<lambda>s. f < s \<and> s \<le> t) xs"
    unfolding window_def by (induction xs) simp_all
  moreover have "length (filter (\<lambda>s. s \<le> t) xs) =
      length (filter (\<lambda>s. s \<le> f) xs) + length (filter (\<lambda>s. f < s \<and> s \<le> t) xs)"
    using assms by (induction xs) auto
  ultimately show ?thesis by simp
qed

text \<open>What the queries of the live update count up to a blue score: received less spent, over the
  joins.\<close>

definition joined_balance :: "db \<Rightarrow> string \<Rightarrow> int \<Rightarrow> int" where
  "joined_balance d a s = total_of a (created_rows (filter (\<lambda>x. x \<le> s)) d)
     - total_of a (spent_rows (filter (\<lambda>x. x \<le> s)) d)"

lemma window_total:
  assumes "f \<le> t"
  shows "total_of a (created_rows (window [f] [t]) d) - total_of a (spent_rows (window [f] [t]) d)
    = joined_balance d a t - joined_balance d a f"
proof -
  have "total_of a (created_rows (window [f] [t]) d) =
      total_of a (created_rows (filter (\<lambda>x. x \<le> t)) d) - total_of a (created_rows (filter (\<lambda>x. x \<le> f)) d)"
    by (simp add: created_total window_one [OF assms] left_diff_distrib sum_list_subtractf)
  moreover have "total_of a (spent_rows (window [f] [t]) d) =
      total_of a (spent_rows (filter (\<lambda>x. x \<le> t)) d) - total_of a (spent_rows (filter (\<lambda>x. x \<le> f)) d)"
    by (simp add: spent_total window_one [OF assms] left_diff_distrib sum_list_subtractf)
  ultimately show ?thesis by (simp add: joined_balance_def)
qed

section \<open>The live update\<close>

lemma group_sums_delta:
  assumes "group_sums grp rows = Inr totals" "permuting grp"
  shows "delta_sum a (map (\<lambda>(a, x). balance_new a (k * x)) (filter (\<lambda>(_, x). x \<noteq> 0) totals)) = k * total_of a rows"
proof -
  have zero: "a \<notin> fst ` set rows \<Longrightarrow> total_of a rows = 0"
    by (induction rows) auto
  have one: "delta_sum a (map (\<lambda>(a, x). balance_new a (k * x)) (filter (\<lambda>(_, x). x \<noteq> 0)
      (map (\<lambda>b. (b, total_of b rows)) as))) = (if a \<in> set as then k * total_of a rows else 0)"
    if "distinct as" for as
    using that by (induction as) (auto simp: balance_new_def)
  have g: "totals = map (\<lambda>b. (b, total_of b rows)) (grp (remdups (map fst rows)))"
    using assms(1) by (auto simp: group_sums_def Let_def split: if_splits)
  have "distinct (grp (remdups (map fst rows)))"
    using permuting_distinct [OF assms(2), of id "remdups (map fst rows)"] by simp
  from one [OF this] show ?thesis
    using zero by (auto simp: g permuting_set [OF assms(2)])
qed

lemma changes_delta:
  assumes "changes_of created spent = Inr deltas" "permuting grp"
    "group_sums grp rc = Inr created" "group_sums grp rs = Inr spent"
  shows "delta_sum a deltas = total_of a rc - total_of a rs"
proof -
  have d: "deltas = map (\<lambda>(a, x). balance_new a (1 * x)) (filter (\<lambda>(_, x). x \<noteq> 0) created)
      @ map (\<lambda>(a, x). balance_new a (- 1 * x)) (filter (\<lambda>(_, x). x \<noteq> 0) spent)"
    using assms(1) by (auto simp: changes_of_def split: if_splits)
  show ?thesis
    by (simp add: d group_sums_delta [OF assms(3,2), of _ 1, simplified]
        group_sums_delta [OF assms(4,2), of _ "- 1", simplified])
qed

lemma update_Inr:
  assumes "update_balances_from_utxo_changes L grp perm x y p = (Inr (), p')"
    and ok: "permuting grp" "permuting perm"
    and cp: "hex_decode L x = Some fb" "hex_decode L y = Some tb"
  defines "win \<equiv> window (checkpoint_scores fb (data p)) (checkpoint_scores tb (data p))"
  shows "(\<forall>a. balance_of (data p') a = balance_of (data p) a
      + (total_of a (created_rows win (data p)) - total_of a (spent_rows win (data p))))
    \<and> (\<exists>t. data p' = (data p)\<lparr>t_balances := t\<rparr>)"
proof -
  from assms(1) obtain created q1 spent q2 deltas where
    1: "select_changes L grp created_rows x y p = (Inr created, q1)" and
    2: "select_changes L grp spent_rows x y q1 = (Inr spent, q2)" and
    3: "changes_of created spent = Inr deltas" and
    4: "(if deltas = [] then ret ()
      else if 1 < length deltas \<and> (\<exists>b\<in>set deltas. bal_balance b = - (2 ^ 63))
      then throw (Crash (Panic ''attempt to negate with overflow''))
      else bnd (update_balances_incremental perm deltas) (\<lambda>_. ret ())) q2 = (Inr (), p')"
    by (auto simp: update_balances_from_utxo_changes_def bnd_Inr_iff lift_res_def)
  have c: "group_sums grp (created_rows win (data p)) = Inr created" "data q1 = data p"
    using query_Inr [OF 1 [unfolded select_changes_def]] cp by (simp_all add: win_def)
  have s: "group_sums grp (spent_rows win (data p)) = Inr spent" "data q2 = data p"
    using query_Inr [OF 2 [unfolded select_changes_def]] cp c(2) by (simp_all add: win_def)
  have delta: "delta_sum a deltas =
      total_of a (created_rows win (data p)) - total_of a (spent_rows win (data p))" for a
    by (rule changes_delta [OF 3 ok(1) c(1) s(1)])
  show ?thesis
  proof (cases "deltas = []")
    case True
    then have "p' = q2" using 4 by (simp add: ret_def)
    then show ?thesis using delta s(2) True by (auto intro: exI [of _ "t_balances (data p)"])
  next
    case False
    with 4 obtain n where "update_balances_incremental perm deltas q2 = (Inr n, p')"
      by (auto simp: bnd_Inr_iff ret_def split: if_splits)
    from incremental_Inr [OF this ok(2)] show ?thesis by (simp add: s(2) delta)
  qed
qed

lemma accepting_scores_frame [simp]: "accepting_scores h (d\<lparr>t_balances := t\<rparr>) = accepting_scores h d"
  by (simp add: accepting_scores_def cong: if_cong)

lemma joined_balance_frame [simp]: "joined_balance (d\<lparr>t_balances := t\<rparr>) a s = joined_balance d a s"
  by (simp add: joined_balance_def created_total spent_total)

text \<open>C37: when either checkpoint's block is not in the blocks table (pruned, not written yet, or the
  table is disabled), the update succeeds and changes nothing: the balance changes between the
  checkpoints are lost without an error.\<close>

theorem missing_checkpoint_block_loses_changes:
  assumes "healthy p" "permuting grp"
    and "hex_decode L from_checkpoint = Some fb" "hex_decode L to_checkpoint = Some tb"
    and "checkpoint_scores fb (data p) = [] \<or> checkpoint_scores tb (data p) = []"
  shows "update_balances_from_utxo_changes L grp perm from_checkpoint to_checkpoint p = (Inr (), p)"
proof -
  have w: "window (checkpoint_scores fb (data p)) (checkpoint_scores tb (data p)) = (\<lambda>_. [])"
    using assms(5) by (auto simp: window_def fun_eq_iff)
  have "created_rows (\<lambda>_. []) (data p) = []" "spent_rows (\<lambda>_. []) (data p) = []"
    by (simp_all add: created_rows_def spent_rows_def concat_eq_Nil_conv split: option.splits)
  moreover have "grp [] = []" using assms(2) unfolding permuting_def by (metis mset_zero_iff mset.simps(1))
  ultimately show ?thesis
    using assms(1,3,4)
    by (simp add: update_balances_from_utxo_changes_def select_changes_def query_healthy w group_sums_def
        db_call_def bnd_def lift_res_def changes_of_def ret_def)
qed

section \<open>Concrete updates\<close>

text \<open>Checkpoint blocks 1 and 2 at scores 1 and 5; one output of 7 for address a, accepted by block 2.\<close>

definition sample_block :: "byte \<Rightarrow> int \<Rightarrow> block_row" where
  "sample_block h s = \<lparr>blk_hash = Hash [h], blk_accepted_id_merkle_root = None,
     blk_merge_set_blues_hashes = None, blk_merge_set_reds_hashes = None,
     blk_selected_parent_hash = None, blk_bits = None, blk_blue_score = Some s,
     blk_blue_work = None, blk_daa_score = None, blk_hash_merkle_root = None, blk_nonce = None,
     blk_pruning_point = None, blk_timestamp = None, blk_utxo_commitment = None, blk_version = None\<rparr>"

definition sample_balances_db :: db where
  "sample_balances_db = schema_db\<lparr>t_blocks := [sample_block 1 1, sample_block 2 5],
     t_outputs := [\<lparr>out_transaction_id = Hash [7], out_index = 0, out_amount = Some 7,
       out_script_public_key = None, out_script_public_key_address = Some ''a'', out_block_time = None\<rparr>],
     t_acceptances := [\<lparr>ta_transaction_id = Some (Hash [7]), ta_block_hash = Some (Hash [2])\<rparr>]\<rparr>"

lemma sample_update:
  "\<exists>p'. update_balances_from_utxo_changes sample_libs (\<lambda>xs. xs) (\<lambda>xs. xs) [CHR 0x01] [CHR 0x02]
     (pool_of sample_balances_db) = (Inr (), p')"
proof -
  have w: "window [1] [5] = filter (\<lambda>s. 1 < s \<and> s \<le> 5)"
    by (simp add: window_def fun_eq_iff) (rule allI, induct_tac x, simp_all)
  have "checkpoint_scores [1] sample_balances_db = [1]" "checkpoint_scores [2] sample_balances_db = [5]"
    by (simp_all add: checkpoint_scores_def sample_balances_db_def sample_block_def)
  moreover have "created_rows (filter (\<lambda>s. 1 < s \<and> s \<le> 5)) sample_balances_db = [(''a'', Some 7)]"
    "spent_rows (filter (\<lambda>s. 1 < s \<and> s \<le> 5)) sample_balances_db = []"
    by (simp_all add: created_rows_def spent_rows_def accepting_scores_def sample_balances_db_def
        sample_block_def schema_db_def)
  ultimately show ?thesis
    using chunks_of_small [of "[(''a'', 7 :: int)]" balance_chunk_size]
    by (simp add: update_balances_from_utxo_changes_def select_changes_def query_healthy group_sums_def
        db_call_def bnd_def lift_res_def changes_of_def ret_def sample_libs_def w in_signed_def
        update_balances_incremental_def balance_new_def balance_chunk_size_def execute_healthy
        add_deltas_def upsert_balances_def balance_of_def sample_balances_db_def schema_db_def)
qed

theorem missing_checkpoint_block_loses_changes_witness:
  "update_balances_from_utxo_changes sample_libs (\<lambda>xs. xs) (\<lambda>xs. xs) [CHR 0x01] [CHR 0x03]
     (pool_of sample_balances_db) = (Inr (), pool_of sample_balances_db)"
  by (rule missing_checkpoint_block_loses_changes [OF _ permuting_id, of _ _ _ "[1]" _ "[3]"])
    (simp_all add: sample_libs_def checkpoint_scores_def sample_balances_db_def sample_block_def)

end
