(* ===== verification/Ledger.thy ===== *)
theory Ledger
  imports Balances_Props
begin

text \<open>
  The ledger the tables stand for, independent of the queries of the live update: the unspent
  outputs at a blue score, those of the imported UTXO set among them, and the balance they
  make; and the live update as a refinement of it.
\<close>

section \<open>The unspent outputs at a blue score\<close>

text \<open>A transaction counts as accepted at a score when the UTXO import brought it (no block) or a block
  up to that score accepts it.\<close>

definition accepted_at :: "db \<Rightarrow> int \<Rightarrow> hash \<Rightarrow> bool" where
  "accepted_at d s h \<longleftrightarrow> (\<exists>a\<in>set (t_acceptances d). ta_transaction_id a = Some h
     \<and> (ta_block_hash a = None
        \<or> (\<exists>b\<in>set (t_blocks d). ta_block_hash a = Some (blk_hash b) \<and> (\<exists>x. blk_blue_score b = Some x \<and> x \<le> s))))"

definition spent_at :: "db \<Rightarrow> int \<Rightarrow> transaction_output_row \<Rightarrow> bool" where
  "spent_at d s r \<longleftrightarrow> (\<exists>i\<in>set (t_inputs d). spends i r \<and> accepted_at d s (in_transaction_id i))"

definition unspent_at :: "db \<Rightarrow> int \<Rightarrow> transaction_output_row list" where
  "unspent_at d s = filter (\<lambda>r. accepted_at d s (out_transaction_id r) \<and> \<not> spent_at d s r) (t_outputs d)"

definition utxo_balance :: "db \<Rightarrow> string \<Rightarrow> int \<Rightarrow> int" where
  "utxo_balance d a s = sum_list (map (amount_to a) (unspent_at d s))"

text \<open>
  What makes the tables a ledger: the primary keys of the acceptances and the blocks; no output
  has two accepted spenders, and none is spent before it is there.
\<close>

definition ledger_ok :: "db \<Rightarrow> bool" where
  "ledger_ok d \<longleftrightarrow> unique_keys ta_transaction_id (t_acceptances d) \<and> distinct (map blk_hash (t_blocks d))
     \<and> (\<forall>r\<in>set (t_outputs d). \<forall>s. length (filter (\<lambda>i. spends i r \<and> accepted_at d s (in_transaction_id i)) (t_inputs d)) \<le> 1
          \<and> (spent_at d s r \<longrightarrow> accepted_at d s (out_transaction_id r)))"

text \<open>One for a fact that holds.\<close>

abbreviation one_if :: "bool \<Rightarrow> int" where
  "one_if b \<equiv> (if b then 1 else 0)"

section \<open>The window of the queries\<close>

lemma concat_map_if: "concat (map (\<lambda>x. if P x then f x else []) xs) = concat (map f (filter P xs))"
  by (induction xs) simp_all

lemma unique_filter:
  assumes "distinct (filter (\<lambda>k. k \<noteq> None) (map key xs))" "k \<noteq> None"
  shows "length (filter (\<lambda>x. key x = k) xs) \<le> 1"
  using assms
proof (induction xs)
  case (Cons x xs)
  show ?case
  proof (cases "key x = k")
    case True
    then have "k \<notin> set (filter (\<lambda>k. k \<noteq> None) (map key xs))" using Cons.prems by simp
    then have "filter (\<lambda>x. key x = k) xs = []" using Cons.prems(2) by (force simp: filter_empty_conv)
    then show ?thesis using True by simp
  next
    case False
    then show ?thesis using Cons by (auto split: if_splits)
  qed
qed simp

lemma distinct_filter_one: "distinct (map f xs) \<Longrightarrow> length (filter (\<lambda>x. f x = y) xs) \<le> 1"
proof (induction xs)
  case (Cons x xs)
  then show ?case by (auto simp: filter_empty_conv image_iff)
qed simp

lemma at_most_one: "length xs \<le> 1 \<longleftrightarrow> xs = [] \<or> (\<exists>x. xs = [x])"
  by (cases xs) (auto simp: Suc_le_eq)

lemma accepting_scores_filter:
  "accepting_scores h d = concat (map (\<lambda>a. concat (map (\<lambda>b. case blk_blue_score b of None \<Rightarrow> [] | Some s \<Rightarrow> [s])
     (filter (\<lambda>b. ta_block_hash a = Some (blk_hash b)) (t_blocks d)))) (filter (\<lambda>a. ta_transaction_id a = Some h) (t_acceptances d)))"
  by (simp add: accepting_scores_def concat_map_if cong: if_cong)

lemma window_scores: "window [f] [t] xs = filter (\<lambda>s. f < s \<and> s \<le> t) xs"
  unfolding window_def by (induction xs) simp_all

text \<open>A transaction is in the window when it is accepted at its end and not at its start.\<close>

lemma window_accepted:
  assumes "unique_keys ta_transaction_id (t_acceptances d)" "distinct (map blk_hash (t_blocks d))" "f \<le> t"
  shows "int (length (window [f] [t] (accepting_scores h d))) = one_if (accepted_at d t h) - one_if (accepted_at d f h)"
proof -
  let ?as = "filter (\<lambda>a. ta_transaction_id a = Some h) (t_acceptances d)"
  have at: "accepted_at d s h \<longleftrightarrow> (\<exists>a\<in>set ?as. ta_block_hash a = None
      \<or> (\<exists>b\<in>set (filter (\<lambda>b. ta_block_hash a = Some (blk_hash b)) (t_blocks d)). \<exists>x. blk_blue_score b = Some x \<and> x \<le> s))" for s
    by (auto simp: accepted_at_def)
  have "length ?as \<le> 1"
    using unique_filter [of ta_transaction_id "t_acceptances d" "Some h"] assms(1) by (simp add: unique_keys_def)
  then consider "?as = []" | a where "?as = [a]" unfolding at_most_one by blast
  then show ?thesis
  proof cases
    case 1
    then show ?thesis by (simp add: at accepting_scores_filter window_scores)
  next
    case (2 a)
    show ?thesis
    proof (cases "ta_block_hash a")
      case None
      then show ?thesis by (simp add: at 2 accepting_scores_filter window_scores)
    next
      case (Some bh)
      let ?bs = "filter (\<lambda>b. bh = blk_hash b) (t_blocks d)"
      have "length ?bs \<le> 1" using distinct_filter_one [OF assms(2), of bh] by (simp add: eq_commute)
      then consider "?bs = []" | b where "?bs = [b]" unfolding at_most_one by blast
      then show ?thesis
      proof cases
        case 1
        then show ?thesis by (simp add: at 2 Some accepting_scores_filter window_scores)
      next
        case (2 b)
        then show ?thesis
          using \<open>?as = [a]\<close> assms(3)
          by (cases "blk_blue_score b") (auto simp: at Some accepting_scores_filter window_scores)
      qed
    qed
  qed
qed

lemma sum_list_swap:
  fixes g :: "'a \<Rightarrow> 'b \<Rightarrow> int"
  shows "sum_list (map (\<lambda>i. sum_list (map (\<lambda>r. g i r) ys)) xs) = sum_list (map (\<lambda>r. sum_list (map (\<lambda>i. g i r) xs)) ys)"
  by (induction xs) (simp_all add: sum_list_addf)

lemma sum_one_if: "sum_list (map (\<lambda>x. one_if (P x)) xs) = int (length (filter P xs))"
  by (induction xs) simp_all

lemma spent_count:
  assumes "length (filter (\<lambda>i. spends i r \<and> accepted_at d s (in_transaction_id i)) (t_inputs d)) \<le> 1"
  shows "sum_list (map (\<lambda>i. one_if (spends i r \<and> accepted_at d s (in_transaction_id i))) (t_inputs d)) = one_if (spent_at d s r)"
proof -
  have "filter (\<lambda>i. spends i r \<and> accepted_at d s (in_transaction_id i)) (t_inputs d) = [] \<longleftrightarrow> \<not> spent_at d s r"
    by (auto simp: filter_empty_conv spent_at_def)
  with assms show ?thesis unfolding sum_one_if at_most_one by auto
qed

text \<open>So the queries count the change of the ledger's balance.\<close>

lemma utxo_balance_sum:
  assumes "ledger_ok d"
  shows "utxo_balance d a s = sum_list (map (\<lambda>r. amount_to a r
    * (one_if (accepted_at d s (out_transaction_id r)) - one_if (spent_at d s r))) (t_outputs d))"
proof -
  have "sum_list (map (amount_to a) (filter (\<lambda>r. accepted_at d s (out_transaction_id r) \<and> \<not> spent_at d s r) rs))
      = sum_list (map (\<lambda>r. amount_to a r * (one_if (accepted_at d s (out_transaction_id r)) - one_if (spent_at d s r))) rs)"
    if "\<forall>r\<in>set rs. spent_at d s r \<longrightarrow> accepted_at d s (out_transaction_id r)" for rs
    using that by (induction rs) auto
  with assms show ?thesis by (simp add: utxo_balance_def unspent_at_def ledger_ok_def)
qed

lemma window_ledger:
  assumes "ledger_ok d" "f \<le> t"
  shows "total_of a (created_rows (window [f] [t]) d) - total_of a (spent_rows (window [f] [t]) d)
    = utxo_balance d a t - utxo_balance d a f"
proof -
  have keys: "unique_keys ta_transaction_id (t_acceptances d)" "distinct (map blk_hash (t_blocks d))"
    using assms(1) by (simp_all add: ledger_ok_def)
  note w = window_accepted [OF keys assms(2)]
  let ?A = "\<lambda>s r. one_if (accepted_at d s (out_transaction_id r))" and ?S = "\<lambda>s r. one_if (spent_at d s r)"
  let ?I = "\<lambda>s i r. one_if (spends i r \<and> accepted_at d s (in_transaction_id i))"
  have c: "total_of a (created_rows (window [f] [t]) d) = sum_list (map (\<lambda>r. amount_to a r * (?A t r - ?A f r)) (t_outputs d))"
    by (simp add: created_total w mult.commute)
  have "total_of a (spent_rows (window [f] [t]) d)
      = sum_list (map (\<lambda>i. sum_list (map (\<lambda>r. amount_to a r * (?I t i r - ?I f i r)) (t_outputs d))) (t_inputs d))"
    by (simp add: spent_total w sum_list_const_mult [symmetric])
      (rule arg_cong [where f = sum_list], rule map_cong, rule refl, rule arg_cong [where f = sum_list], auto)
  also have "\<dots> = sum_list (map (\<lambda>r. sum_list (map (\<lambda>i. amount_to a r * (?I t i r - ?I f i r)) (t_inputs d))) (t_outputs d))"
    by (rule sum_list_swap)
  also have "\<dots> = sum_list (map (\<lambda>r. amount_to a r * (?S t r - ?S f r)) (t_outputs d))"
  proof (rule arg_cong [where f = sum_list], rule map_cong [OF refl])
    fix r assume r: "r \<in> set (t_outputs d)"
    have "sum_list (map (\<lambda>i. ?I s i r) (t_inputs d)) = ?S s r" for s
      by (rule spent_count) (use assms(1) r in \<open>simp add: ledger_ok_def\<close>)
    then show "sum_list (map (\<lambda>i. amount_to a r * (?I t i r - ?I f i r)) (t_inputs d)) = amount_to a r * (?S t r - ?S f r)"
      by (simp only: sum_list_const_mult sum_list_subtractf)
  qed
  finally have sp: "total_of a (spent_rows (window [f] [t]) d) = sum_list (map (\<lambda>r. amount_to a r * (?S t r - ?S f r)) (t_outputs d))" .
  show ?thesis
    unfolding c sp utxo_balance_sum [OF assms(1)] sum_list_subtractf [symmetric]
    by (rule arg_cong [where f = sum_list], rule map_cong [OF refl]) (simp add: algebra_simps)
qed

section \<open>The live update refines the ledger\<close>

lemma accepted_at_frame [simp]:
  "accepted_at (d\<lparr>t_balances := t\<rparr>) s h = accepted_at d s h" "accepted_at (d\<lparr>t_vars := v\<rparr>) s h = accepted_at d s h"
  by (simp_all add: accepted_at_def)

lemma utxo_balance_frame [simp]:
  "utxo_balance (d\<lparr>t_balances := t\<rparr>) a s = utxo_balance d a s" "utxo_balance (d\<lparr>t_vars := v\<rparr>) a s = utxo_balance d a s"
  by (simp_all add: utxo_balance_def unspent_at_def spent_at_def)

lemma live_update_ledger:
  assumes "update_balances_from_utxo_changes L grp perm from_checkpoint to_checkpoint p = (Inr (), p')"
    and "permuting grp" "permuting perm"
    and "hex_decode L from_checkpoint = Some fb" "hex_decode L to_checkpoint = Some tb"
    and "checkpoint_scores fb (data p) = [f]" "checkpoint_scores tb (data p) = [t]" "f \<le> t"
    and "ledger_ok (data p)" "\<forall>a. balance_of (data p) a = utxo_balance (data p) a f"
  shows "(\<exists>b. data p' = (data p)\<lparr>t_balances := b\<rparr>) \<and> (\<forall>a. balance_of (data p') a = utxo_balance (data p) a t)"
  using update_Inr [OF assms(1-5), unfolded assms(6,7)] assms(10) window_ledger [OF assms(9,8)] by simp

text \<open>C8: the live update refines the ledger: when the block of each of the two checkpoints is stored once,
  with blue scores in order, and the tables are a ledger, an update that succeeds takes the
  balances table from the balances of the outputs unspent at the old checkpoint's blue score,
  imported ones included, to those at the new one's; no other table changes.\<close>

theorem live_balances_track_utxo:
  assumes "update_balances_from_utxo_changes L grp perm from_checkpoint to_checkpoint p = (Inr (), p')"
    and "permuting grp" "permuting perm"
    and "hex_decode L from_checkpoint = Some fb" "hex_decode L to_checkpoint = Some tb"
    and "checkpoint_scores fb (data p) = [f]" "checkpoint_scores tb (data p) = [t]" "f \<le> t"
    and "ledger_ok (data p)" "\<forall>a. balance_of (data p) a = utxo_balance (data p) a f"
  shows "(\<forall>a. balance_of (data p') a = utxo_balance (data p') a t)
    \<and> data p' = (data p)\<lparr>t_balances := t_balances (data p')\<rparr>"
  using live_update_ledger [OF assms] by auto

section \<open>A concrete update\<close>

text \<open>The import brought an output of 4 for address b; block 2, at score 5, accepts a transaction that
  spends it and pays 3 to address a.\<close>

definition sample_spend :: transaction_input_row where
  "sample_spend = \<lparr>in_transaction_id = Hash [7], in_index = 0, in_previous_outpoint_hash = Some (Hash [9]),
     in_previous_outpoint_index = Some 0, in_signature_script = None, in_sig_op_count = None, in_block_time = None,
     in_previous_outpoint_script = None, in_previous_outpoint_amount = None, in_previous_outpoint_address = None\<rparr>"

definition sample_paid :: "byte \<Rightarrow> int \<Rightarrow> string \<Rightarrow> transaction_output_row" where
  "sample_paid h x a = \<lparr>out_transaction_id = Hash [h], out_index = 0, out_amount = Some x,
     out_script_public_key = None, out_script_public_key_address = Some a, out_block_time = None\<rparr>"

definition sample_ledger :: db where
  "sample_ledger = schema_db\<lparr>t_blocks := [sample_block 1 1, sample_block 2 5], t_inputs := [sample_spend],
     t_outputs := [sample_paid 9 4 ''b'', sample_paid 7 3 ''a''],
     t_acceptances := [\<lparr>ta_transaction_id = Some (Hash [9]), ta_block_hash = None\<rparr>,
       \<lparr>ta_transaction_id = Some (Hash [7]), ta_block_hash = Some (Hash [2])\<rparr>],
     t_balances := [''b'' \<mapsto> 4], t_vars := [''block_checkpoint'' \<mapsto> [CHR 0x01]]\<rparr>"

lemma sample_ledger_accepted: "accepted_at sample_ledger s h \<longleftrightarrow> h = Hash [9] \<or> h = Hash [7] \<and> 5 \<le> s"
  by (auto simp: accepted_at_def sample_ledger_def sample_block_def)

lemma sample_spends: "spends sample_spend (sample_paid h x a) \<longleftrightarrow> h = 9"
  by (simp add: spends_def sample_spend_def sample_paid_def)

lemma sample_ledger_spent: "spent_at sample_ledger s (sample_paid h x a) \<longleftrightarrow> h = 9 \<and> 5 \<le> s"
proof -
  have "t_inputs sample_ledger = [sample_spend]" "in_transaction_id sample_spend = Hash [7]"
    by (simp_all add: sample_ledger_def sample_spend_def)
  then show ?thesis by (simp add: spent_at_def sample_ledger_accepted sample_spends)
qed

lemma sample_ledger_tables:
  "t_outputs sample_ledger = [sample_paid 9 4 ''b'', sample_paid 7 3 ''a'']" "t_inputs sample_ledger = [sample_spend]"
  "out_transaction_id (sample_paid h x a) = Hash [h]" "in_transaction_id sample_spend = Hash [7]"
  "checkpoint_scores [1] sample_ledger = [1]" "checkpoint_scores [2] sample_ledger = [5]"
  by (simp_all add: sample_ledger_def sample_paid_def sample_spend_def checkpoint_scores_def sample_block_def)

lemma sample_ledger_ok: "ledger_ok sample_ledger"
proof -
  have "unique_keys ta_transaction_id (t_acceptances sample_ledger)" "distinct (map blk_hash (t_blocks sample_ledger))"
    by (simp_all add: sample_ledger_def unique_keys_def sample_block_def)
  then show ?thesis
    by (simp add: ledger_ok_def sample_ledger_tables sample_ledger_spent sample_ledger_accepted sample_spends)
qed

lemma sample_ledger_balance:
  "utxo_balance sample_ledger a s = (if a = ''b'' \<and> s < 5 then 4 else if a = ''a'' \<and> 5 \<le> s then 3 else 0)"
  by (simp add: utxo_balance_def unspent_at_def sample_ledger_tables sample_ledger_spent sample_ledger_accepted)
    (simp add: amount_to_def sample_paid_def)

lemma sample_ledger_update:
  "\<exists>p'. update_balances_from_utxo_changes sample_libs (\<lambda>xs. xs) (\<lambda>xs. xs) [CHR 0x01] [CHR 0x02]
     (pool_of sample_ledger) = (Inr (), p') \<and> healthy p'"
proof -
  have scores: "accepting_scores (Hash [9]) sample_ledger = []" "accepting_scores (Hash [7]) sample_ledger = [5]"
    by (simp_all add: accepting_scores_def sample_ledger_def sample_block_def)
  have "out_script_public_key_address (sample_paid h x a) = Some a" "out_amount (sample_paid h x a) = Some x" for h x a
    by (simp_all add: sample_paid_def)
  then have "created_rows (window [1] [5]) sample_ledger = [(''a'', Some 3)]" "spent_rows (window [1] [5]) sample_ledger = [(''b'', Some 4)]"
    by (simp_all add: created_rows_def spent_rows_def sample_ledger_tables sample_spends window_scores scores)
  then show ?thesis
    using chunks_of_small [of "[(''a'', 3 :: int), (''b'', - 4)]" balance_chunk_size]
    by (simp add: update_balances_from_utxo_changes_def select_changes_def query_healthy group_sums_def
        db_call_def bnd_def lift_res_def changes_of_def ret_def sample_libs_def sample_ledger_tables in_signed_def
        update_balances_incremental_def balance_new_def balance_chunk_size_def execute_healthy
        add_deltas_def upsert_balances_def balance_of_def)
      (simp add: sample_ledger_def)
qed

theorem live_balances_track_utxo_witness:
  "\<exists>p'. update_balances_from_utxo_changes sample_libs (\<lambda>xs. xs) (\<lambda>xs. xs) [CHR 0x01] [CHR 0x02]
     (pool_of sample_ledger) = (Inr (), p')
   \<and> (\<forall>a. balance_of (data p') a = utxo_balance (data p') a 5)"
proof -
  from sample_ledger_update obtain p' where u: "update_balances_from_utxo_changes sample_libs (\<lambda>xs. xs)
     (\<lambda>xs. xs) [CHR 0x01] [CHR 0x02] (pool_of sample_ledger) = (Inr (), p')" by blast
  have "hex_decode sample_libs [CHR 0x01] = Some [1]" "hex_decode sample_libs [CHR 0x02] = Some [2]"
    by (simp_all add: sample_libs_def)
  moreover have "\<forall>a. balance_of sample_ledger a = utxo_balance sample_ledger a 1"
    by (simp add: sample_ledger_balance) (simp add: sample_ledger_def balance_of_def)
  ultimately show ?thesis
    using live_balances_track_utxo [OF u permuting_id permuting_id, of "[1]" "[2]" 1 5] u
    by (simp add: sample_ledger_tables sample_ledger_ok)
qed

end
