(* ===== verification/Checkpoint.thy ===== *)
theory Checkpoint
  imports Ledger
begin

text \<open>
  Checkpoints: loading and saving the variable (\<open>indexer/src/vars.rs\<close>) and the checkpoint
  processor (\<open>indexer/src/checkpoint.rs\<close>), one round of its loop per step. The clock is an
  input: the instants a round reads, in nanoseconds.
\<close>

section \<open>The variable\<close>

definition var_key_block_checkpoint :: string where
  "var_key_block_checkpoint = ''block_checkpoint''"

definition var_key_legacy_checkpoint :: string where
  "var_key_legacy_checkpoint = ''vspc_last_start_hash''"

definition load_block_checkpoint :: "(pool, unit, string) sem" where
  "load_block_checkpoint p =
     (case select_var var_key_block_checkpoint p of
        (Inr h, p') \<Rightarrow> (Inr h, p')
      | (Inl _, p') \<Rightarrow>
          (case select_var var_key_legacy_checkpoint p' of
             (Inr h, p'') \<Rightarrow> (Inr h, p'')
           | (Inl _, p'') \<Rightarrow> (Inl (), p'')))"

definition save_checkpoint :: "string \<Rightarrow> (pool, unit, nat) sem" where
  "save_checkpoint block_hash p =
     (case upsert_var var_key_block_checkpoint block_hash p of
        (Inr n, p') \<Rightarrow> (Inr n, p') | (Inl _, p') \<Rightarrow> (Inl (), p'))"

lemma upsert_var_Inr:
  "upsert_var key v p = (Inr n, p') \<Longrightarrow> data p' = (data p)\<lparr>t_vars := (t_vars (data p))(key \<mapsto> v)\<rparr>"
  unfolding upsert_var_def by (drule execute_Inr) auto

text \<open>C31: what is saved is what is loaded: after a successful save, a load on a healthy connection
  returns the saved hash, and the legacy variable is not looked at.\<close>

theorem save_then_load:
  assumes "save_checkpoint h p = (Inr n, p')" "healthy p'"
  shows "load_block_checkpoint p' = (Inr h, p')"
proof -
  have "upsert_var var_key_block_checkpoint h p = (Inr n, p')"
    using assms(1) by (auto simp: save_checkpoint_def split: prod.splits sum.splits)
  then have "t_vars (data p') var_key_block_checkpoint = Some h"
    by (simp add: upsert_var_Inr)
  then show ?thesis
    using assms(2) by (simp add: load_block_checkpoint_def select_var_def query_healthy)
qed

theorem save_then_load_witness:
  "\<exists>p'. save_checkpoint ''ab'' (pool_of schema_db) = (Inr 1, p') \<and> load_block_checkpoint p' = (Inr ''ab'', p')"
proof -
  let ?p = "pool_of (schema_db\<lparr>t_vars := (t_vars schema_db)(var_key_block_checkpoint \<mapsto> ''ab'')\<rparr>)"
  have "save_checkpoint ''ab'' (pool_of schema_db) = (Inr 1, ?p)"
    by (simp add: save_checkpoint_def upsert_var_def execute_healthy)
  with save_then_load [OF this] show ?thesis by simp
qed

section \<open>The processor\<close>

record cp_config =
  cc_disable_vcp :: bool
  cc_disable_tx :: bool

definition cp_config_of :: "cli_args \<Rightarrow> cp_config" where
  "cp_config_of args = \<lparr>cc_disable_vcp = is_disabled args VirtualChainProcessing,
     cc_disable_tx = is_disabled args TransactionProcessing\<rparr>"

record cp_state =
  k_last_saved :: nat
  k_last_warned :: nat
  k_candidate :: "checkpoint_block option"
  k_blocks :: "hash set"
  k_txs :: "hash set"
  k_ok_blocks :: bool
  k_ok_txs :: bool
  k_previous :: "string option"

definition checkpoint_save_interval :: nat where
  "checkpoint_save_interval = 30"

definition checkpoint_warn_interval :: nat where
  "checkpoint_warn_interval = 30"

definition max_time_without_save :: nat where
  "max_time_without_save = 120"

definition cp_start :: "nat \<Rightarrow> string option \<Rightarrow> cp_state" where
  "cp_start now previous_checkpoint = \<lparr>k_last_saved = now, k_last_warned = now, k_candidate = None,
     k_blocks = {}, k_txs = {}, k_ok_blocks = False, k_ok_txs = False,
     k_previous = previous_checkpoint\<rparr>"

definition propose :: "nat \<Rightarrow> checkpoint_block \<Rightarrow> cp_state \<Rightarrow> cp_state" where
  "propose now c k =
     (if k_candidate k = None \<and> secs_since now (k_last_saved k) > checkpoint_save_interval
      then k\<lparr>k_candidate := Some c, k_ok_blocks := True, k_ok_txs := False\<rparr> else k)"

definition receive :: "cp_config \<Rightarrow> nat \<Rightarrow> checkpoint_block \<Rightarrow> cp_state \<Rightarrow> cp_state" where
  "receive cfg now c k =
     (case cb_origin c of
        OriginBlocks \<Rightarrow>
          if cc_disable_vcp cfg then propose now c k else k\<lparr>k_blocks := insert (cb_hash c) (k_blocks k)\<rparr>
      | OriginTransactions \<Rightarrow> k\<lparr>k_txs := insert (cb_hash c) (k_txs k)\<rparr>
      | OriginVcp \<Rightarrow> propose now c k
      | OriginInitial \<Rightarrow> k)"

text \<open>The two tests of a pending candidate; both sets are emptied.\<close>

definition test_candidate :: "cp_config \<Rightarrow> checkpoint_block \<Rightarrow> cp_state \<Rightarrow> cp_state" where
  "test_candidate cfg c k = k\<lparr>
     k_ok_blocks := k_ok_blocks k \<or> cb_hash c \<in> k_blocks k, k_blocks := {},
     k_ok_txs := k_ok_txs k \<or> cc_disable_tx cfg \<or> cb_hash c \<in> k_txs k, k_txs := {}\<rparr>"

text \<open>The balance update: its database error is a warning, its panic ends the process.\<close>

definition try_update_balances ::
  "libs \<Rightarrow> (string list \<Rightarrow> string list) \<Rightarrow> ((string \<times> int) list \<Rightarrow> (string \<times> int) list) \<Rightarrow>
     string option \<Rightarrow> string \<Rightarrow> (pool, panic, unit) sem" where
  "try_update_balances L grp perm previous h p =
     (case previous of
        None \<Rightarrow> (Inr (), p)
      | Some prev \<Rightarrow>
          (case update_balances_from_utxo_changes L grp perm prev h p of
             (Inl (Crash e), p') \<Rightarrow> (Inl e, p')
           | (_, p') \<Rightarrow> (Inr (), p')))"

definition try_save :: "string \<Rightarrow> (pool, panic, bool) sem" where
  "try_save h p = (case save_checkpoint h p of (Inr _, p') \<Rightarrow> (Inr True, p') | (Inl _, p') \<Rightarrow> (Inr False, p'))"

definition save_candidate ::
  "libs \<Rightarrow> (string list \<Rightarrow> string list) \<Rightarrow> ((string \<times> int) list \<Rightarrow> (string \<times> int) list) \<Rightarrow>
     bool \<Rightarrow> nat \<Rightarrow> checkpoint_block \<Rightarrow> cp_state \<Rightarrow> (pool, panic, cp_state \<times> metrics_checkpoint) sem" where
  "save_candidate L grp perm force_save now c k =
     (let h = hex_encode L (as_bytes (cb_hash c)) in
      bnd (try_update_balances L grp perm (k_previous k) h) (\<lambda>_.
      bnd (try_save h) (\<lambda>saved.
      bnd (lift_res (metrics_block_of L c)) (\<lambda>b.
      ret (k\<lparr>k_ok_blocks := k_ok_blocks k \<or> force_save, k_ok_txs := k_ok_txs k \<or> force_save,
             k_previous := (if saved then Some h else k_previous k),
             k_last_saved := now, k_candidate := None\<rparr>,
           \<lparr>mc_origin = Some (cb_origin c), mc_block = Some b\<rparr>)))))"

text \<open>The instants of one round: at the pop, at the test, after the save or at the warning.\<close>

record cp_times =
  at_pop :: nat
  at_test :: nat
  at_end :: nat
  at_warned :: nat

definition process_checkpoints_step ::
  "libs \<Rightarrow> (string list \<Rightarrow> string list) \<Rightarrow> ((string \<times> int) list \<Rightarrow> (string \<times> int) list) \<Rightarrow> cp_config \<Rightarrow>
     checkpoint_block option \<times> cp_times \<Rightarrow> cp_state \<Rightarrow>
     (pool, panic, cp_state \<times> metrics_checkpoint option) sem" where
  "process_checkpoints_step L grp perm cfg = (\<lambda>(popped, ts) k.
     let k1 = (case popped of None \<Rightarrow> k | Some c \<Rightarrow> receive cfg (at_pop ts) c k) in
     case k_candidate k1 of
       None \<Rightarrow> ret (k1, None)
     | Some c \<Rightarrow>
         let k2 = test_candidate cfg c k1;
             force_save = secs_since (at_test ts) (k_last_saved k2) > max_time_without_save in
         if (k_ok_blocks k2 \<and> k_ok_txs k2) \<or> force_save then
           bnd (save_candidate L grp perm force_save (at_end ts) c k2) (\<lambda>(k3, m). ret (k3, Some m))
         else if secs_since (at_end ts) (k_last_warned k2) > checkpoint_warn_interval then
           ret (k2\<lparr>k_last_warned := at_warned ts, k_candidate := Some c\<rparr>, None)
         else ret (k2\<lparr>k_candidate := Some c\<rparr>, None))"

fun process_checkpoints_run ::
  "libs \<Rightarrow> (string list \<Rightarrow> string list) \<Rightarrow> ((string \<times> int) list \<Rightarrow> (string \<times> int) list) \<Rightarrow> cp_config \<Rightarrow>
     (checkpoint_block option \<times> cp_times) list \<Rightarrow> cp_state \<Rightarrow> (pool, panic, cp_state) sem" where
  "process_checkpoints_run L grp perm cfg [] k = ret k"
| "process_checkpoints_run L grp perm cfg (e # es) k =
     bnd (process_checkpoints_step L grp perm cfg e k)
       (\<lambda>(k', _). process_checkpoints_run L grp perm cfg es k')"

section \<open>A checkpoint waits for its transactions\<close>

definition received :: "(checkpoint_block option \<times> 't) list \<Rightarrow> hash set" where
  "received es = {cb_hash c | c. Some c \<in> fst ` set es \<and> cb_origin c = OriginTransactions}"

definition cp_inv :: "cp_config \<Rightarrow> hash set \<Rightarrow> cp_state \<Rightarrow> bool" where
  "cp_inv cfg H k \<longleftrightarrow> k_txs k \<subseteq> H
     \<and> (\<forall>c. k_candidate k = Some c \<longrightarrow> k_ok_blocks k \<and> (k_ok_txs k \<longrightarrow> cc_disable_tx cfg \<or> cb_hash c \<in> H))"

lemma cp_inv_start: "cp_inv cfg {} (cp_start now prev)"
  by (simp add: cp_inv_def cp_start_def)

lemma receive_inv:
  "cp_inv cfg H k \<Longrightarrow> cp_inv cfg (H \<union> (if cb_origin c = OriginTransactions then {cb_hash c} else {})) (receive cfg now c k)"
  by (auto simp: receive_def propose_def cp_inv_def split: checkpoint_origin.splits)

lemma test_candidate_inv:
  "cp_inv cfg H k \<Longrightarrow> k_candidate k = Some c \<Longrightarrow>
     cp_inv cfg H (test_candidate cfg c k) \<and> k_candidate (test_candidate cfg c k) = Some c
     \<and> k_last_saved (test_candidate cfg c k) = k_last_saved k"
  by (auto simp: test_candidate_def cp_inv_def)

lemma popped_inv:
  "cp_inv cfg H k \<Longrightarrow>
     cp_inv cfg (H \<union> received [(popped, ts)]) (case popped of None \<Rightarrow> k | Some c \<Rightarrow> receive cfg now c k)"
proof (cases popped)
  case (Some c)
  assume "cp_inv cfg H k"
  from receive_inv [OF this, of c now]
  show ?thesis using Some by (auto simp: received_def Collect_conv_if split: if_splits)
qed (simp add: received_def)

lemma receive_last_saved [simp]: "k_last_saved (receive cfg now c k) = k_last_saved k"
  by (simp add: receive_def propose_def split: checkpoint_origin.splits)

lemma save_candidate_Inr:
  assumes "save_candidate L grp perm force now c k p = (Inr (k', m), p')"
  shows "k_candidate k' = None \<and> k_txs k' = k_txs k \<and> mc_origin m = Some (cb_origin c)
    \<and> (\<exists>b. mc_block m = Some b \<and> metrics_block_of L c = Inr b)"
  using assms by (auto simp: save_candidate_def Let_def bnd_Inr_iff lift_res_def ret_def)

lemma cp_step_inv:
  assumes "process_checkpoints_step L grp perm cfg (popped, ts) k p = (Inr (k', out), p')"
    and "cp_inv cfg H k"
  shows "cp_inv cfg (H \<union> received [(popped, ts)]) k'"
    and "out = Some m \<Longrightarrow> secs_since (at_test ts) (k_last_saved k) \<le> max_time_without_save \<Longrightarrow>
      \<exists>c b. mc_origin m = Some (cb_origin c) \<and> mc_block m = Some b \<and> metrics_block_of L c = Inr b
        \<and> (cc_disable_tx cfg \<or> cb_hash c \<in> H \<union> received [(popped, ts)])"
proof -
  define k1 where "k1 = (case popped of None \<Rightarrow> k | Some c \<Rightarrow> receive cfg (at_pop ts) c k)"
  have i1: "cp_inv cfg (H \<union> received [(popped, ts)]) k1"
    unfolding k1_def by (rule popped_inv [OF assms(2)])
  have saved1: "k_last_saved k1 = k_last_saved k" by (simp add: k1_def split: option.splits)
  have "cp_inv cfg (H \<union> received [(popped, ts)]) k' \<and>
    (out = Some m \<longrightarrow> secs_since (at_test ts) (k_last_saved k) \<le> max_time_without_save \<longrightarrow>
      (\<exists>c b. mc_origin m = Some (cb_origin c) \<and> mc_block m = Some b \<and> metrics_block_of L c = Inr b
        \<and> (cc_disable_tx cfg \<or> cb_hash c \<in> H \<union> received [(popped, ts)])))"
  proof (cases "k_candidate k1")
    case None
    then have "k' = k1" "out = None"
      using assms(1) by (auto simp: process_checkpoints_step_def k1_def [symmetric] ret_def)
    then show ?thesis using i1 by simp
  next
    case (Some c)
    define k2 where "k2 = test_candidate cfg c k1"
    note i2 = test_candidate_inv [OF i1 Some, folded k2_def]
    let ?force = "secs_since (at_test ts) (k_last_saved k2) > max_time_without_save"
    show ?thesis
    proof (cases "(k_ok_blocks k2 \<and> k_ok_txs k2) \<or> ?force")
      case True
      then obtain m' where s: "save_candidate L grp perm ?force (at_end ts) c k2 p = (Inr (k', m'), p')"
        and out: "out = Some m'"
        using assms(1) Some
        by (auto simp: process_checkpoints_step_def k1_def [symmetric] k2_def [symmetric] Let_def bnd_Inr_iff ret_def)
      note r = save_candidate_Inr [OF s]
      have "cp_inv cfg (H \<union> received [(popped, ts)]) k'"
        using i2 r by (simp add: cp_inv_def)
      moreover have "cc_disable_tx cfg \<or> cb_hash c \<in> H \<union> received [(popped, ts)]"
        if "secs_since (at_test ts) (k_last_saved k) \<le> max_time_without_save"
        using True that i2 saved1 unfolding cp_inv_def by auto
      ultimately show ?thesis using r out by auto
    next
      case False
      then have "out = None \<and> (k' = k2\<lparr>k_last_warned := at_warned ts, k_candidate := Some c\<rparr>
          \<or> k' = k2\<lparr>k_candidate := Some c\<rparr>)"
        using assms(1) Some
        by (auto simp: process_checkpoints_step_def k1_def [symmetric] k2_def [symmetric] Let_def ret_def
            split: if_splits)
      then show ?thesis using i2 by (auto simp: cp_inv_def)
    qed
  qed
  then show "cp_inv cfg (H \<union> received [(popped, ts)]) k'"
    and "out = Some m \<Longrightarrow> secs_since (at_test ts) (k_last_saved k) \<le> max_time_without_save \<Longrightarrow>
      \<exists>c b. mc_origin m = Some (cb_origin c) \<and> mc_block m = Some b \<and> metrics_block_of L c = Inr b
        \<and> (cc_disable_tx cfg \<or> cb_hash c \<in> H \<union> received [(popped, ts)])" by blast+
qed

lemma received_Cons: "received (e # es) = received [e] \<union> received es"
  by (auto simp: received_def)

lemma received_append: "received (es @ fs) = received es \<union> received fs"
  by (auto simp: received_def)

lemma cp_run_inv:
  "process_checkpoints_run L grp perm cfg es k p = (Inr k', p') \<Longrightarrow> cp_inv cfg H k \<Longrightarrow>
     cp_inv cfg (H \<union> received es) k'"
proof (induction es arbitrary: k p H)
  case Nil
  then show ?case by (simp add: ret_def received_def)
next
  case (Cons e es)
  obtain popped ts where e: "e = (popped, ts)" by (cases e)
  from Cons.prems(1) obtain k1 out p1 where
    1: "process_checkpoints_step L grp perm cfg (popped, ts) k p = (Inr (k1, out), p1)" and
    2: "process_checkpoints_run L grp perm cfg es k1 p1 = (Inr k', p')"
    by (auto simp: bnd_Inr_iff e split_beta)
  from Cons.IH [OF 2 cp_step_inv(1) [OF 1 Cons.prems(2)]]
  show ?case using received_Cons [of e es] by (simp add: e Un_assoc)
qed

text \<open>A save empties the sets and drops the candidate.\<close>

lemma saved_forgets:
  assumes "process_checkpoints_step L grp perm cfg e k p = (Inr (k', Some m), p')"
  shows "cp_inv cfg {} k'"
proof -
  obtain popped ts where e: "e = (popped, ts)" by (cases e)
  define k1 where "k1 = (case popped of None \<Rightarrow> k | Some c \<Rightarrow> receive cfg (at_pop ts) c k)"
  from assms obtain c force m' where "save_candidate L grp perm force (at_end ts) c (test_candidate cfg c k1) p = (Inr (k', m'), p')"
    by (auto simp: e process_checkpoints_step_def k1_def [symmetric] Let_def bnd_Inr_iff ret_def
        split: option.splits if_splits)
  from save_candidate_Inr [OF this] show ?thesis by (simp add: cp_inv_def test_candidate_def)
qed

text \<open>C35: a report counts for one save only: unless 120 seconds have passed since the last save, a round saves
  a checkpoint only when its transactions were reported committed after the previous save. A
  report that arrived before is forgotten, although the transactions are stored; a virtual chain
  that is more than a save interval behind the transactions saves by force only.\<close>

theorem save_needs_new_report:
  assumes "process_checkpoints_step L grp perm cfg e k0 p0 = (Inr (k1, Some m1), p1)"
    and "process_checkpoints_run L grp perm cfg es k1 p1 = (Inr k, p)"
    and "process_checkpoints_step L grp perm cfg (popped, ts) k p = (Inr (k', Some m), p')"
    and "\<not> cc_disable_tx cfg" "secs_since (at_test ts) (k_last_saved k) \<le> max_time_without_save"
  shows "\<exists>c b. mc_block m = Some b \<and> metrics_block_of L c = Inr b
    \<and> cb_hash c \<in> received (es @ [(popped, ts)])"
proof -
  have "cp_inv cfg (received es) k"
    using cp_run_inv [OF assms(2) saved_forgets [OF assms(1)]] by simp
  from cp_step_inv(2) [OF assms(3) this refl assms(5)] assms(4) show ?thesis
    by (auto simp: received_append)
qed

text \<open>The block condition of the processor is vacuous: whenever a candidate is pending, its flag for
  processed blocks is already set, so the recorded block hashes never decide anything.\<close>

lemma block_condition_vacuous:
  assumes "process_checkpoints_run L grp perm cfg es (cp_start now prev) p0 = (Inr k, p)"
    and "k_candidate k = Some c"
  shows "k_ok_blocks k"
  using cp_run_inv [OF assms(1) cp_inv_start] assms(2) by (simp add: cp_inv_def)

definition sample_cp :: "checkpoint_origin \<Rightarrow> byte \<Rightarrow> checkpoint_block" where
  "sample_cp origin h = \<lparr>cb_origin = origin, cb_hash = Hash [h], cb_timestamp = 3, cb_daa_score = 4, cb_blue_score = 4\<rparr>"

definition sample_times :: cp_times where
  "sample_times = \<lparr>at_pop = 31000000000, at_test = 31000000000, at_end = 31000000000, at_warned = 31000000000\<rparr>"

definition sample_cc :: cp_config where
  "sample_cc = \<lparr>cc_disable_vcp = False, cc_disable_tx = False\<rparr>"

text \<open>A second save, 31 seconds after the first; the first one fails to reach the database.\<close>

definition later_times :: cp_times where
  "later_times = \<lparr>at_pop = 62000000000, at_test = 62000000000, at_end = 62000000000, at_warned = 62000000000\<rparr>"

definition failing_pool :: pool where
  "failing_pool = \<lparr>data = schema_db, faults = [True]\<rparr>"

lemmas sample_cp_defs = process_checkpoints_step_def receive_def propose_def sample_cp_def cp_start_def ret_def
  bnd_def secs_since_def sample_times_def later_times_def checkpoint_save_interval_def test_candidate_def
  save_candidate_def try_update_balances_def try_save_def save_checkpoint_def upsert_var_def execute_def
  lift_res_def metrics_block_of_def sample_libs_def Let_def failing_pool_def

lemma sample_first_save:
  "\<exists>k m p. process_checkpoints_step sample_libs (\<lambda>xs. xs) (\<lambda>xs. xs) sample_cc
     (Some (sample_cp OriginVcp 2), sample_times) ((cp_start 0 None)\<lparr>k_txs := {Hash [2], Hash [3]}\<rparr>) failing_pool
   = (Inr (k, Some m), p) \<and> k_candidate k = None \<and> k_txs k = {} \<and> k_previous k = None \<and> k_last_saved k = 31000000000
     \<and> faults p = []"
  by (simp add: sample_cp_defs)

lemma sample_second_save:
  assumes "k_candidate k = None" "k_txs k = {}" "k_previous k = None" "k_last_saved k = 31000000000" "healthy p"
  shows "\<exists>k1 k' m p'. process_checkpoints_run sample_libs (\<lambda>xs. xs) (\<lambda>xs. xs) sample_cc
       [(Some (sample_cp OriginTransactions 3), later_times)] k p = (Inr k1, p)
     \<and> process_checkpoints_step sample_libs (\<lambda>xs. xs) (\<lambda>xs. xs) sample_cc
         (Some (sample_cp OriginVcp 3), later_times) k1 p = (Inr (k', Some m), p')
     \<and> k_last_saved k1 = 31000000000"
  using assms by (simp add: sample_cp_defs)

theorem save_needs_new_report_witness:
  "\<exists>k p k' m p' c b. process_checkpoints_step sample_libs (\<lambda>xs. xs) (\<lambda>xs. xs) sample_cc
       (Some (sample_cp OriginVcp 3), later_times) k p = (Inr (k', Some m), p')
     \<and> mc_block m = Some b \<and> metrics_block_of sample_libs c = Inr b
     \<and> cb_hash c \<in> received [(Some (sample_cp OriginTransactions 3), later_times), (Some (sample_cp OriginVcp 3), later_times)]"
proof -
  from sample_first_save obtain k m1 p where 1: "process_checkpoints_step sample_libs (\<lambda>xs. xs) (\<lambda>xs. xs) sample_cc
     (Some (sample_cp OriginVcp 2), sample_times) ((cp_start 0 None)\<lparr>k_txs := {Hash [2], Hash [3]}\<rparr>) failing_pool
     = (Inr (k, Some m1), p)" and k: "k_candidate k = None" "k_txs k = {}" "k_previous k = None"
     "k_last_saved k = 31000000000" "healthy p" by blast
  from sample_second_save [OF k] obtain k1 k' m p' where 2: "process_checkpoints_run sample_libs (\<lambda>xs. xs) (\<lambda>xs. xs) sample_cc
       [(Some (sample_cp OriginTransactions 3), later_times)] k p = (Inr k1, p)"
    "process_checkpoints_step sample_libs (\<lambda>xs. xs) (\<lambda>xs. xs) sample_cc
         (Some (sample_cp OriginVcp 3), later_times) k1 p = (Inr (k', Some m), p')"
    "k_last_saved k1 = 31000000000" by blast
  have "\<not> cc_disable_tx sample_cc" "secs_since (at_test later_times) (k_last_saved k1) \<le> max_time_without_save"
    using 2(3) by (simp_all add: sample_cc_def later_times_def secs_since_def max_time_without_save_def)
  from save_needs_new_report [OF 1 2(1,2) this] 2(2) show ?thesis by fastforce
qed

section \<open>Balances and checkpoints must move together\<close>

text \<open>The state between saves: the balances stand at the blue score of the previous checkpoint.\<close>

definition balances_at :: "db \<Rightarrow> int \<Rightarrow> bool" where
  "balances_at d s \<longleftrightarrow> (\<forall>a. balance_of d a = utxo_balance d a s)"

lemma save_checkpoint_data:
  "save_checkpoint h p = (r, p') \<Longrightarrow>
     data p' = (case r of Inl _ \<Rightarrow> data p | Inr _ \<Rightarrow> (data p)\<lparr>t_vars := (t_vars (data p))(var_key_block_checkpoint \<mapsto> h)\<rparr>)"
  by (auto simp: save_checkpoint_def upsert_var_def split: prod.splits sum.splits
      dest: execute_error dest!: execute_Inr)

lemma frame_vars [simp]:
  "accepting_scores h (d\<lparr>t_vars := v\<rparr>) = accepting_scores h d"
  "balance_of (d\<lparr>t_vars := v\<rparr>) a = balance_of d a"
  "checkpoint_scores c (d\<lparr>t_vars := v\<rparr>) = checkpoint_scores c d"
  "checkpoint_scores c (d\<lparr>t_balances := b\<rparr>) = checkpoint_scores c d"
  by (simp_all add: accepting_scores_def balance_of_def checkpoint_scores_def cong: if_cong)

lemma joined_balance_vars [simp]: "joined_balance (d\<lparr>t_vars := v\<rparr>) a s = joined_balance d a s"
  by (simp add: joined_balance_def created_total spent_total)

lemma save_candidate_clean:
  assumes "save_candidate L grp perm force_save now c k p = (Inr (k', m), p')"
    and "k_previous k = Some prev" "h = hex_encode L (as_bytes (cb_hash c))"
    and "update_balances_from_utxo_changes L grp perm prev h p = (Inr (), q)"
    and "save_checkpoint h q = (Inr n, q')"
  shows "p' = q' \<and> k_previous k' = Some h"
  using assms
  by (auto simp: save_candidate_def Let_def bnd_Inr_iff lift_res_def ret_def try_update_balances_def
      try_save_def)

text \<open>The invariant: the processor's previous checkpoint is the saved one, its block is stored once,
  and every balance is that of the ledger at its blue score.\<close>

definition at_checkpoint :: "libs \<Rightarrow> cp_state \<Rightarrow> db \<Rightarrow> bool" where
  "at_checkpoint L k d \<longleftrightarrow> (\<exists>h b s. k_previous k = Some h \<and> t_vars d var_key_block_checkpoint = Some h
     \<and> hex_decode L h = Some b \<and> checkpoint_scores b d = [s] \<and> balances_at d s)"

text \<open>The candidate a round tests.\<close>

definition pending :: "cp_config \<Rightarrow> checkpoint_block option \<times> cp_times \<Rightarrow> cp_state \<Rightarrow> checkpoint_block option" where
  "pending cfg = (\<lambda>(popped, ts) k. k_candidate (case popped of None \<Rightarrow> k | Some c \<Rightarrow> receive cfg (at_pop ts) c k))"

text \<open>A save whose update and write succeed, between two stored checkpoints in order, on a ledger.\<close>

definition clean_save ::
  "libs \<Rightarrow> (string list \<Rightarrow> string list) \<Rightarrow> ((string \<times> int) list \<Rightarrow> (string \<times> int) list) \<Rightarrow> string \<Rightarrow> string \<Rightarrow> pool \<Rightarrow> bool" where
  "clean_save L grp perm prev h p \<longleftrightarrow> (\<exists>q n q' fb tb f t.
     update_balances_from_utxo_changes L grp perm prev h p = (Inr (), q) \<and> save_checkpoint h q = (Inr n, q')
     \<and> hex_decode L prev = Some fb \<and> hex_decode L h = Some tb
     \<and> checkpoint_scores fb (data p) = [f] \<and> checkpoint_scores tb (data p) = [t] \<and> f \<le> t \<and> ledger_ok (data p))"

text \<open>What the other tasks may do in between: anything but to the balances, the saved checkpoint, its
  block, and the unspent outputs at its score.\<close>

definition past_kept :: "libs \<Rightarrow> cp_state \<Rightarrow> db \<Rightarrow> db \<Rightarrow> bool" where
  "past_kept L k d d' \<longleftrightarrow> t_balances d' = t_balances d
     \<and> t_vars d' var_key_block_checkpoint = t_vars d var_key_block_checkpoint
     \<and> (\<forall>h b. k_previous k = Some h \<longrightarrow> hex_decode L h = Some b \<longrightarrow> checkpoint_scores b d' = checkpoint_scores b d
          \<and> (\<forall>s\<in>set (checkpoint_scores b d). \<forall>a. utxo_balance d' a s = utxo_balance d a s))"

text \<open>Rounds of the checkpoint task with writes of the other tasks in between.\<close>

inductive checkpoint_life ::
  "libs \<Rightarrow> (string list \<Rightarrow> string list) \<Rightarrow> ((string \<times> int) list \<Rightarrow> (string \<times> int) list) \<Rightarrow> cp_config \<Rightarrow>
     cp_state \<Rightarrow> pool \<Rightarrow> cp_state \<Rightarrow> pool \<Rightarrow> bool" for L grp perm cfg k0 p0 where
  begins: "checkpoint_life L grp perm cfg k0 p0 k0 p0"
| waits: "checkpoint_life L grp perm cfg k0 p0 k p \<Longrightarrow>
    process_checkpoints_step L grp perm cfg e k p = (Inr (k', None), p') \<Longrightarrow> checkpoint_life L grp perm cfg k0 p0 k' p'"
| saves: "checkpoint_life L grp perm cfg k0 p0 k p \<Longrightarrow>
    process_checkpoints_step L grp perm cfg e k p = (Inr (k', Some m), p') \<Longrightarrow>
    pending cfg e k = Some c \<Longrightarrow> k_previous k = Some prev \<Longrightarrow>
    clean_save L grp perm prev (hex_encode L (as_bytes (cb_hash c))) p \<Longrightarrow> checkpoint_life L grp perm cfg k0 p0 k' p'"
| others: "checkpoint_life L grp perm cfg k0 p0 k p \<Longrightarrow> past_kept L k (data p) (data p') \<Longrightarrow>
    checkpoint_life L grp perm cfg k0 p0 k p'"

lemma receive_previous [simp]: "k_previous (receive cfg now c k) = k_previous k"
  by (simp add: receive_def propose_def split: checkpoint_origin.splits)

lemma waiting_round:
  assumes "process_checkpoints_step L grp perm cfg e k p = (Inr (k', None), p')"
  shows "p' = p \<and> k_previous k' = k_previous k"
proof -
  obtain popped ts where e: "e = (popped, ts)" by (cases e)
  define k1 where "k1 = (case popped of None \<Rightarrow> k | Some c \<Rightarrow> receive cfg (at_pop ts) c k)"
  have "k_previous k1 = k_previous k" by (simp add: k1_def split: option.splits)
  with assms show ?thesis
    by (auto simp: e process_checkpoints_step_def k1_def [symmetric] Let_def bnd_Inr_iff ret_def test_candidate_def
        split: option.splits if_splits)
qed

lemma saving_round:
  assumes "process_checkpoints_step L grp perm cfg e k p = (Inr (k', Some m), p')" "pending cfg e k = Some c"
  obtains force now k2 m' where "save_candidate L grp perm force now c k2 p = (Inr (k', m'), p')"
    "k_previous k2 = k_previous k"
proof -
  obtain popped ts where e: "e = (popped, ts)" by (cases e)
  define k1 where "k1 = (case popped of None \<Rightarrow> k | Some c \<Rightarrow> receive cfg (at_pop ts) c k)"
  have c: "k_candidate k1 = Some c" using assms(2) by (simp add: pending_def e k1_def)
  have "k_previous (test_candidate cfg c k1) = k_previous k"
    by (simp add: k1_def test_candidate_def split: option.splits)
  moreover obtain force m' where
    "save_candidate L grp perm force (at_end ts) c (test_candidate cfg c k1) p = (Inr (k', m'), p')"
    using assms(1) c
    by (auto simp: e process_checkpoints_step_def k1_def [symmetric] Let_def bnd_Inr_iff ret_def split: if_splits)
  ultimately show thesis using that by blast
qed

lemma balances_at_kept:
  assumes "balances_at d s" "t_balances d' = t_balances d" "\<forall>a. utxo_balance d' a s = utxo_balance d a s"
  shows "balances_at d' s"
  using assms by (simp add: balances_at_def balance_of_def)

text \<open>C9: the balances follow the saved checkpoint through a whole life of the checkpoint task: however
  its rounds and the writes of the other tasks alternate, as long as every round that saves
  is a clean one (its balance update and its write succeed, the blocks of the old and the new checkpoint
  are stored once with scores in order, the tables are a ledger) and no other write touches the
  ledger at the saved checkpoint's score, the saved checkpoint is the one the task starts
  its next update from, and every balance is that of the outputs unspent at its score.\<close>

theorem balances_follow_checkpoint:
  assumes "checkpoint_life L grp perm cfg k0 p0 k p" "permuting grp" "permuting perm" "at_checkpoint L k0 (data p0)"
  shows "at_checkpoint L k (data p)"
  using assms(1)
proof induction
  case begins
  then show ?case by (rule assms(4))
next
  case (waits k p e k' p')
  from waiting_round [OF waits.hyps(2)] waits.IH show ?case by (simp add: at_checkpoint_def)
next
  case (saves k p e k' m p' c prev)
  let ?h = "hex_encode L (as_bytes (cb_hash c))"
  obtain force now k2 m' where s: "save_candidate L grp perm force now c k2 p = (Inr (k', m'), p')"
    and k2: "k_previous k2 = k_previous k" by (rule saving_round [OF saves.hyps(2,3)])
  obtain q n q' fb tb f t where u: "update_balances_from_utxo_changes L grp perm prev ?h p = (Inr (), q)"
    and w: "save_checkpoint ?h q = (Inr n, q')"
    and h: "hex_decode L prev = Some fb" "hex_decode L ?h = Some tb"
    and sc: "checkpoint_scores fb (data p) = [f]" "checkpoint_scores tb (data p) = [t]" "f \<le> t" "ledger_ok (data p)"
    using saves.hyps(5) unfolding clean_save_def by (elim exE conjE)
  have goes: "p' = q' \<and> k_previous k' = Some ?h"
    by (rule save_candidate_clean [OF s _ refl u w]) (simp add: k2 saves.hyps(4))
  have "balances_at (data p) f"
    using saves.IH saves.hyps(4) h(1) sc(1) by (auto simp: at_checkpoint_def)
  then have "\<forall>a. balance_of (data p) a = utxo_balance (data p) a f" by (simp add: balances_at_def)
  note live = live_update_ledger [OF u assms(2,3) h sc this]
  then obtain b where q: "data q = (data p)\<lparr>t_balances := b\<rparr>" by blast
  have q': "data q' = (data q)\<lparr>t_vars := (t_vars (data q))(var_key_block_checkpoint \<mapsto> ?h)\<rparr>"
    using save_checkpoint_data [OF w] by simp
  have "balances_at (data q') t" using live by (simp add: balances_at_def q' q)
  then show ?case
    using goes h(2) sc(2) by (simp add: at_checkpoint_def q' q)
next
  case (others k p p')
  then show ?case by (fastforce simp: at_checkpoint_def past_kept_def intro: balances_at_kept)
qed

text \<open>C36: when the balance update succeeds and the save of the checkpoint fails, the processor goes on
  with the old checkpoint although the balances have moved: the next successful update, to a
  blue score t2, counts the changes from the old checkpoint to the unsaved one a second time.\<close>

theorem failed_save_counts_twice:
  assumes "save_candidate L grp perm force_save now c k p = (Inr (k1, m), p1)"
    and "k_previous k = Some prev" "h = hex_encode L (as_bytes (cb_hash c))"
    and "update_balances_from_utxo_changes L grp perm prev h p = (Inr (), q)"
    and "save_checkpoint h q = (Inl (), q')"
    and "permuting grp" "permuting perm"
    and "hex_decode L prev = Some fb" "hex_decode L h = Some tb" "hex_decode L h2 = Some tb2"
    and "checkpoint_scores fb (data p) = [f]" "checkpoint_scores tb (data p) = [t]"
      "checkpoint_scores tb2 (data p) = [t2]" "f \<le> t" "f \<le> t2"
    and "update_balances_from_utxo_changes L grp perm (the (k_previous k1)) h2 p1 = (Inr (), p2)"
  shows "balance_of (data p2) a = balance_of (data p) a
    + (joined_balance (data p) a t2 - joined_balance (data p) a f)
    + (joined_balance (data p) a t - joined_balance (data p) a f)"
proof -
  have p1: "p1 = q'" "k_previous k1 = Some prev"
    using assms(1-5)
    by (auto simp: save_candidate_def Let_def bnd_Inr_iff lift_res_def ret_def try_update_balances_def
        try_save_def)
  note u = update_Inr [OF assms(4,6-9), unfolded assms(11,12)]
  then obtain b where q: "data q = (data p)\<lparr>t_balances := b\<rparr>" by blast
  have q': "data q' = data q" using save_checkpoint_data [OF assms(5)] by simp
  have "checkpoint_scores fb (data p1) = [f]" "checkpoint_scores tb2 (data p1) = [t2]"
    using assms(11,13) by (simp_all add: p1 q' q)
  note u2 = update_Inr [OF assms(16) assms(6,7) _ assms(10), unfolded p1(2) option.sel, OF assms(8),
      unfolded this]
  have "joined_balance (data p1) = joined_balance (data p)" by (simp add: fun_eq_iff p1 q' q)
  then have "balance_of (data p2) a = balance_of (data q) a
      + (joined_balance (data p) a t2 - joined_balance (data p) a f)"
    using u2 window_total [OF assms(15), of a "data p1"] by (simp add: p1 q')
  moreover have "balance_of (data q) a = balance_of (data p) a
      + (joined_balance (data p) a t - joined_balance (data p) a f)"
    using u window_total [OF assms(14), of a "data p"] by simp
  ultimately show ?thesis by simp
qed

section \<open>A concrete round, and one whose save fails\<close>

definition faulty_pool :: "bool list \<Rightarrow> db \<Rightarrow> pool" where
  "faulty_pool fs d = \<lparr>data = d, faults = fs\<rparr>"

lemma sample_update_from:
  assumes "t_blocks d = t_blocks sample_balances_db" "t_outputs d = t_outputs sample_balances_db"
    "t_acceptances d = t_acceptances sample_balances_db" "t_inputs d = []"
    "balance_of d ''a'' \<in> {0, 7}"
  shows "update_balances_from_utxo_changes sample_libs (\<lambda>xs. xs) (\<lambda>xs. xs) [CHR 0x01] [CHR 0x02]
     (faulty_pool (False # False # False # fs) d)
   = (Inr (), faulty_pool fs (d\<lparr>t_balances := (t_balances d)(''a'' \<mapsto> balance_of d ''a'' + 7)\<rparr>))"
proof -
  have w: "window [1] [5] = filter (\<lambda>s. 1 < s \<and> s \<le> 5)"
    by (simp add: window_def fun_eq_iff) (rule allI, induct_tac x, simp_all)
  have "checkpoint_scores [1] d = [1]" "checkpoint_scores [2] d = [5]"
    using assms(1) by (simp_all add: checkpoint_scores_def sample_balances_db_def sample_block_def)
  moreover have "created_rows (filter (\<lambda>s. 1 < s \<and> s \<le> 5)) d = [(''a'', Some 7)]"
    "spent_rows (filter (\<lambda>s. 1 < s \<and> s \<le> 5)) d = []"
    using assms(1-4)
    by (simp_all add: created_rows_def spent_rows_def accepting_scores_def sample_balances_db_def
        sample_block_def)
  ultimately show ?thesis
    using chunks_of_small [of "[(''a'', 7 :: int)]" balance_chunk_size] assms(5)
    by (auto simp: update_balances_from_utxo_changes_def select_changes_def query_def execute_def
        group_sums_def db_call_def bnd_def lift_res_def changes_of_def ret_def sample_libs_def w
        in_signed_def update_balances_incremental_def balance_new_def balance_chunk_size_def
        add_deltas_def upsert_balances_def faulty_pool_def Let_def)
qed

definition sample_k :: cp_state where
  "sample_k = (cp_start 0 (Some [CHR 0x01]))\<lparr>k_candidate := Some (sample_cp OriginVcp 2)\<rparr>"

abbreviation once_updated :: db where
  "once_updated \<equiv> sample_balances_db\<lparr>t_balances := [''a'' \<mapsto> 7]\<rparr>"

lemma sample_balances_simps:
  "balance_of sample_balances_db a = 0" "t_balances sample_balances_db = Map.empty"
  "t_inputs sample_balances_db = []"
  by (simp_all add: sample_balances_db_def schema_db_def balance_of_def)

lemma sample_first_update:
  "update_balances_from_utxo_changes sample_libs (\<lambda>xs. xs) (\<lambda>xs. xs) [CHR 0x01] [CHR 0x02]
     (faulty_pool (False # False # False # fs) sample_balances_db) = (Inr (), faulty_pool fs once_updated)"
  using sample_update_from [of sample_balances_db fs] by (simp add: sample_balances_simps)

lemma char_of_2: "char_of (2 :: nat) = CHR 0x02"
  by code_simp

lemma sample_decodes:
  "hex_decode sample_libs [CHR 0x01] = Some [1]" "hex_decode sample_libs [CHR 0x02] = Some [2]"
  "hex_encode sample_libs (as_bytes (cb_hash (sample_cp origin 2))) = [CHR 0x02]"
  "checkpoint_scores [1] sample_balances_db = [1]" "checkpoint_scores [2] sample_balances_db = [5]"
  by (simp_all add: sample_libs_def sample_cp_def char_of_2 checkpoint_scores_def sample_balances_db_def
      sample_block_def)

text \<open>The transactions of block 2 are reported, then the virtual chain proposes it as a checkpoint.\<close>

lemma sample_life:
  "\<exists>k p. checkpoint_life sample_libs (\<lambda>xs. xs) (\<lambda>xs. xs) sample_cc (cp_start 0 (Some [CHR 0x01])) (pool_of sample_ledger) k p
     \<and> k_previous k = Some [CHR 0x02]"
proof -
  let ?id = "\<lambda>xs. xs" and ?k = "cp_start 0 (Some [CHR 0x01])" and ?e = "(Some (sample_cp OriginVcp 2), sample_times)"
  let ?k1 = "?k\<lparr>k_txs := {Hash [2]}\<rparr>" and ?p = "pool_of sample_ledger" and ?h = "hex_encode sample_libs (as_bytes (cb_hash (sample_cp OriginVcp 2)))"
  obtain p1 where u: "update_balances_from_utxo_changes sample_libs ?id ?id [CHR 0x01] [CHR 0x02] ?p = (Inr (), p1)"
    and "healthy p1" using sample_ledger_update by blast
  then obtain n q where w: "save_checkpoint [CHR 0x02] p1 = (Inr n, q)"
    by (simp add: save_checkpoint_def upsert_var_def execute_healthy)
  have "process_checkpoints_step sample_libs ?id ?id sample_cc (Some (sample_cp OriginTransactions 2), sample_times) ?k ?p
      = (Inr (?k1, None), ?p)"
    by (simp add: process_checkpoints_step_def receive_def sample_cp_def cp_start_def ret_def)
  note life = checkpoint_life.waits [OF checkpoint_life.begins this]
  have cp: "cb_origin (sample_cp ori x) = ori" "cb_hash (sample_cp ori x) = Hash [x]" for ori x
    by (simp_all add: sample_cp_def)
  have "\<exists>k' m p'. process_checkpoints_step sample_libs ?id ?id sample_cc ?e ?k1 ?p = (Inr (k', Some m), p')
     \<and> k_previous k' = Some [CHR 0x02]"
    using u w sample_decodes(3)
    by (simp add: cp sample_cc_def process_checkpoints_step_def receive_def propose_def cp_start_def secs_since_def sample_times_def
        checkpoint_save_interval_def test_candidate_def save_candidate_def try_update_balances_def try_save_def
        bnd_def lift_res_def ret_def metrics_block_of_def Let_def)
      (simp add: sample_cp_def sample_libs_def)
  then obtain k' m p' where s: "process_checkpoints_step sample_libs ?id ?id sample_cc ?e ?k1 ?p = (Inr (k', Some m), p')"
    and k': "k_previous k' = Some [CHR 0x02]" by blast
  have "clean_save sample_libs ?id ?id [CHR 0x01] ?h ?p"
    unfolding clean_save_def sample_decodes
    by (rule exI, rule exI, rule exI, rule exI [of _ "[1]"], rule exI [of _ "[2]"], rule exI [of _ 1], rule exI [of _ 5])
      (use u w in \<open>simp add: sample_decodes sample_ledger_tables sample_ledger_ok\<close>)
  moreover have "pending sample_cc ?e ?k1 = Some (sample_cp OriginVcp 2)" "k_previous ?k1 = Some [CHR 0x01]"
    by (simp_all add: pending_def receive_def propose_def sample_cp_def cp_start_def secs_since_def sample_times_def
        checkpoint_save_interval_def)
  ultimately show ?thesis using checkpoint_life.saves [OF life s] k' by blast
qed

theorem balances_follow_checkpoint_witness:
  "\<exists>k p. checkpoint_life sample_libs (\<lambda>xs. xs) (\<lambda>xs. xs) sample_cc (cp_start 0 (Some [CHR 0x01])) (pool_of sample_ledger) k p
     \<and> k_previous k = Some [CHR 0x02] \<and> at_checkpoint sample_libs k (data p)"
proof -
  have "at_checkpoint sample_libs (cp_start 0 (Some [CHR 0x01])) sample_ledger"
    unfolding at_checkpoint_def balances_at_def sample_ledger_balance
    by (rule exI [of _ "[CHR 0x01]"], rule exI [of _ "[1]"], rule exI [of _ 1])
      (simp add: sample_decodes sample_ledger_tables cp_start_def,
       simp add: sample_ledger_def balance_of_def var_key_block_checkpoint_def)
  then show ?thesis
    using sample_life balances_follow_checkpoint [OF _ permuting_id permuting_id] by fastforce
qed

theorem failed_save_counts_twice_witness:
  "\<exists>k1 m p1 p2. save_candidate sample_libs (\<lambda>xs. xs) (\<lambda>xs. xs) False 0 (sample_cp OriginVcp 2) sample_k
     (faulty_pool [False, False, False, True, False, False, False] sample_balances_db) = (Inr (k1, m), p1)
   \<and> update_balances_from_utxo_changes sample_libs (\<lambda>xs. xs) (\<lambda>xs. xs) (the (k_previous k1)) [CHR 0x02] p1
     = (Inr (), p2)
   \<and> balance_of (data p2) ''a'' = 14 \<and> joined_balance sample_balances_db ''a'' 5 = 7"
proof -
  let ?fs = "[False, False, False]"
  have save: "save_checkpoint [CHR 0x02] (faulty_pool (True # ?fs) once_updated) = (Inl (), faulty_pool ?fs once_updated)"
    by (simp add: save_checkpoint_def upsert_var_def execute_def faulty_pool_def Let_def)
  have "\<exists>k1 m. save_candidate sample_libs (\<lambda>xs. xs) (\<lambda>xs. xs) False 0 (sample_cp OriginVcp 2) sample_k
     (faulty_pool (False # False # False # True # ?fs) sample_balances_db)
     = (Inr (k1, m), faulty_pool ?fs once_updated) \<and> k_previous k1 = Some [CHR 0x01]"
    by (simp add: save_candidate_def try_update_balances_def try_save_def sample_first_update save
        sample_k_def cp_start_def sample_decodes bnd_def lift_res_def ret_def metrics_block_of_def Let_def)
      (simp add: sample_libs_def)
  then obtain k1 m where r: "save_candidate sample_libs (\<lambda>xs. xs) (\<lambda>xs. xs) False 0
     (sample_cp OriginVcp 2) sample_k (faulty_pool (False # False # False # True # ?fs) sample_balances_db)
     = (Inr (k1, m), faulty_pool ?fs once_updated)" and k1: "k_previous k1 = Some [CHR 0x01]" by blast
  have "\<exists>p2. update_balances_from_utxo_changes sample_libs (\<lambda>xs. xs) (\<lambda>xs. xs) (the (k_previous k1)) [CHR 0x02]
      (faulty_pool ?fs once_updated) = (Inr (), p2)"
    using sample_update_from [of once_updated "[]"] k1 by (simp add: sample_balances_simps balance_of_def)
  then obtain p2 where u2: "update_balances_from_utxo_changes sample_libs (\<lambda>xs. xs) (\<lambda>xs. xs)
      (the (k_previous k1)) [CHR 0x02] (faulty_pool ?fs once_updated) = (Inr (), p2)" by blast
  have u: "joined_balance sample_balances_db ''a'' 5 = 7" "joined_balance sample_balances_db ''a'' 1 = 0"
    by (simp_all add: joined_balance_def created_rows_def spent_rows_def accepting_scores_def
        sample_balances_db_def sample_block_def schema_db_def)
  have "balance_of (data p2) ''a'' = balance_of sample_balances_db ''a''
      + (joined_balance sample_balances_db ''a'' 5 - joined_balance sample_balances_db ''a'' 1)
      + (joined_balance sample_balances_db ''a'' 5 - joined_balance sample_balances_db ''a'' 1)"
    using failed_save_counts_twice [OF r _ _ sample_first_update save permuting_id permuting_id
        sample_decodes(1,2,2) _ _ _ _ _ u2, of 1 5 5 "''a''"]
    by (simp add: sample_k_def cp_start_def sample_decodes faulty_pool_def)
  with r u2 u show ?thesis by (auto simp: sample_balances_simps)
qed

end
