(* ===== verification/Fetch_Blocks.thy ===== *)
theory Fetch_Blocks
  imports Pipeline
begin

text \<open>
  The block fetcher (\<open>indexer/src/blocks/fetch_blocks.rs\<close>): a round asks the node for the
  blocks above the low hash and feeds the unknown ones to the two queues. A push waits while
  the queue is full; \<open>pushes\<close> says, per block, whether the push to each queue came before
  the shutdown.
\<close>

record 'c fetcher =
  f_low_hash :: hash
  f_last_sync_check :: int
  f_synced :: bool
  f_lag_count :: int
  f_tip_hashes :: "hash set"
  f_cache :: 'c

definition sync_check_interval :: int where
  "sync_check_interval = 30 * 10 ^ 9"

definition fetcher_new :: "settings \<Rightarrow> 'c \<Rightarrow> int \<Rightarrow> 'c fetcher" where
  "fetcher_new s empty_cache now = \<lparr>f_low_hash = s_checkpoint s,
     f_last_sync_check = now - sync_check_interval, f_synced = False, f_lag_count = 0,
     f_tip_hashes = {}, f_cache = empty_cache\<rparr>"

text \<open>What a pass over the blocks accumulates.\<close>

record fetch_acc =
  fa_newest :: u64
  fa_txs :: nat
  fa_hash :: hash
  fa_blocks :: "block_data list"
  fa_transactions :: "transaction_data list"

definition transaction_data_of :: "rpc_block \<Rightarrow> transaction_data" where
  "transaction_data_of b = \<lparr>td_transactions = rb_transactions b, td_block_hash = h_hash (rb_header b),
     td_block_timestamp = h_timestamp (rb_header b), td_block_daa_score = h_daa_score (rb_header b),
     td_block_blue_score = h_blue_score (rb_header b)\<rparr>"

text \<open>One block up to the test of the cache: whether it is known.\<close>

definition enter_block :: "'c cache_ops \<Rightarrow> rpc_block \<Rightarrow> 'c fetcher \<times> fetch_acc \<Rightarrow> bool \<times> 'c fetcher \<times> fetch_acc" where
  "enter_block ops b = (\<lambda>(f, acc).
     let h = h_hash (rb_header b);
         newest = (if f_synced f \<and> h_timestamp (rb_header b) > fa_newest acc
                   then h_timestamp (rb_header b) else fa_newest acc);
         f1 = f\<lparr>f_synced := f_synced f \<or> h \<in> f_tip_hashes f\<rparr>;
         (known, cache) = cache_contains ops (f_cache f1) h in
     (known, f1\<lparr>f_cache := cache\<rparr>,
      acc\<lparr>fa_newest := newest, fa_txs := fa_txs acc + length (rb_transactions b), fa_hash := h\<rparr>))"

definition block_data_of :: "'c fetcher \<Rightarrow> rpc_block \<Rightarrow> block_data" where
  "block_data_of f b = \<lparr>bd_block = b\<lparr>rb_transactions := []\<rparr>, bd_synced = f_synced f\<rparr>"

definition remember :: "'c cache_ops \<Rightarrow> rpc_block \<Rightarrow> 'c fetcher \<Rightarrow> 'c fetcher" where
  "remember ops b f = f\<lparr>f_cache := cache_insert ops (f_cache f) (h_hash (rb_header b))\<rparr>"

definition push_block :: "block_data \<Rightarrow> fetch_acc \<Rightarrow> fetch_acc" where
  "push_block bd acc = acc\<lparr>fa_blocks := fa_blocks acc @ [bd]\<rparr>"

definition push_txs :: "transaction_data \<Rightarrow> fetch_acc \<Rightarrow> fetch_acc" where
  "push_txs td acc = acc\<lparr>fa_transactions := fa_transactions acc @ [td]\<rparr>"

definition handle_block :: "'c cache_ops \<Rightarrow> rpc_block \<Rightarrow> 'c fetcher \<times> fetch_acc \<Rightarrow> 'c fetcher \<times> fetch_acc" where
  "handle_block ops b x = (let (known, f, acc) = enter_block ops b x in
     if known then (f, acc)
     else (remember ops b f, push_txs (transaction_data_of b) (push_block (block_data_of f b) acc)))"

text \<open>Seconds of a timestamp in milliseconds: \<open>t as i64 / 1000\<close>, truncating.\<close>

definition check_lag :: "int \<Rightarrow> bool \<Rightarrow> int \<Rightarrow> u64 \<Rightarrow> int" where
  "check_lag now_seconds synced lag_count newest_block_timestamp =
     (if synced \<and> now_seconds - sgn (as_i64 newest_block_timestamp) * (\<bar>as_i64 newest_block_timestamp\<bar> div 1000) \<ge> 30
      then (if lag_count \<ge> 15 then 0 else lag_count + 1) else 0)"

definition no_acc :: "'c fetcher \<Rightarrow> fetch_acc" where
  "no_acc f = \<lparr>fa_newest = 0, fa_txs = 0, fa_hash = f_low_hash f, fa_blocks = [], fa_transactions = []\<rparr>"

definition end_pass :: "int \<Rightarrow> 'c fetcher \<times> fetch_acc \<Rightarrow> 'c fetcher" where
  "end_pass now_seconds = (\<lambda>(f, acc). f\<lparr>f_low_hash := fa_hash acc,
     f_lag_count := check_lag now_seconds (f_synced f) (f_lag_count f) (fa_newest acc)\<rparr>)"

definition handle_blocks ::
  "'c cache_ops \<Rightarrow> int \<Rightarrow> rpc_block list \<Rightarrow> 'c fetcher \<Rightarrow> 'c fetcher \<times> fetch_acc" where
  "handle_blocks ops now_seconds blocks f =
     (let x = fold (handle_block ops) blocks (f, no_acc f) in (end_pass now_seconds x, snd x))"

text \<open>
  The inputs of a round: the node's answer (\<open>None\<close>: no connection or an error), its tip hashes
  should they be asked for, the clock, and the queue lengths the metrics read.
\<close>

record fetch_input =
  fi_blocks :: "rpc_block list option"
  fi_tips :: "hash list option"
  fi_now :: int
  fi_checked :: int
  fi_now_seconds :: int
  fi_blocks_len :: u64
  fi_txs_len :: u64

definition update_tips :: "fetch_input \<Rightarrow> nat \<Rightarrow> 'c fetcher \<Rightarrow> 'c fetcher" where
  "update_tips i blocks_len f =
     (if \<not> f_synced f \<and> blocks_len < 100 \<and> fi_now i - f_last_sync_check f \<ge> sync_check_interval
      then (case fi_tips i of None \<Rightarrow> f
            | Some tips \<Rightarrow> f\<lparr>f_tip_hashes := set tips, f_last_sync_check := fi_checked i\<rparr>)
      else f)"

definition fetch_metrics ::
  "libs \<Rightarrow> u64 \<Rightarrow> u64 \<Rightarrow> rpc_block \<Rightarrow> metrics \<Rightarrow> panic + metrics" where
  "fetch_metrics L blocks_len txs_len last_block m =
     sbind (expect unwrap_msg (rb_verbose last_block)) (\<lambda>v.
     let h = rb_header last_block in
     if \<not> millis_ok L (as_i64 (h_timestamp h)) then Inl (Panic unwrap_msg)
     else Inr (m\<lparr>me_queues := (me_queues m)\<lparr>mq_blocks := blocks_len, mq_transactions := txs_len\<rparr>,
       me_block_fetcher := fetcher_update_last_block
         \<lparr>mb_hash = hash_to_string L (bv_hash v), mb_timestamp = h_timestamp h,
          mb_date_time = as_i64 (h_timestamp h), mb_daa_score = h_daa_score h,
          mb_blue_score = h_blue_score h\<rparr> (me_block_fetcher m)\<rparr>))"

text \<open>A round that never waits; an answer of one block is the low hash only.\<close>

definition fetch_step ::
  "libs \<Rightarrow> 'c cache_ops \<Rightarrow> fetch_input \<Rightarrow> 'c fetcher \<Rightarrow> metrics \<Rightarrow>
     panic + 'c fetcher \<times> metrics \<times> block_data list \<times> transaction_data list" where
  "fetch_step L ops i f m =
     (case fi_blocks i of
        None \<Rightarrow> Inr (f, m, [], [])
      | Some blocks \<Rightarrow>
          let f1 = update_tips i (length blocks) f in
          if length blocks > 1 then
            let (f2, acc) = handle_blocks ops (fi_now_seconds i) blocks f1 in
            sbind (fetch_metrics L (fi_blocks_len i) (fi_txs_len i) (last blocks) m) (\<lambda>m'.
            Inr (f2, m', fa_blocks acc, fa_transactions acc))
          else Inr (f1, m, [], []))"

section \<open>Waiting for room\<close>

text \<open>
  The loops over the two bounded queues as they interleave with the other tasks: where the
  fetcher is within a block, and what one iteration does. While a queue is full an iteration
  only sleeps; after a shutdown the pushes are skipped.
\<close>

datatype fetch_stage = AtNext | AtBlocksPush rpc_block | AtTxsPush rpc_block

record fetch_round =
  rd_todo :: "rpc_block list"
  rd_stage :: fetch_stage
  rd_acc :: fetch_acc
  rd_last :: rpc_block

definition round_start :: "rpc_block list \<Rightarrow> 'c fetcher \<Rightarrow> fetch_round" where
  "round_start blocks f = \<lparr>rd_todo = blocks, rd_stage = AtNext, rd_acc = no_acc f, rd_last = last blocks\<rparr>"

definition round_over :: "fetch_round \<Rightarrow> bool" where
  "round_over r \<longleftrightarrow> rd_stage r = AtNext \<and> rd_todo r = []"

text \<open>What the fetcher meets: whether the program shuts down, and which queues have room.\<close>

record fetch_room =
  fr_shutdown :: bool
  fr_blocks :: bool
  fr_txs :: bool

definition fetch_micro ::
  "'c cache_ops \<Rightarrow> fetch_room \<Rightarrow> 'c fetcher \<times> fetch_round \<Rightarrow>
     ('c fetcher \<times> fetch_round) \<times> block_data list \<times> transaction_data list" where
  "fetch_micro ops room = (\<lambda>(f, r).
     case rd_stage r of
       AtNext \<Rightarrow> (case rd_todo r of
           [] \<Rightarrow> ((f, r), [], [])
         | b # bs \<Rightarrow> (let (known, f1, acc) = enter_block ops b (f, rd_acc r) in
             ((f1, r\<lparr>rd_todo := bs, rd_stage := if known then AtNext else AtBlocksPush b, rd_acc := acc\<rparr>), [], [])))
     | AtBlocksPush b \<Rightarrow>
         if fr_shutdown room then ((f, r\<lparr>rd_stage := AtTxsPush b\<rparr>), [], [])
         else if fr_blocks room then
           ((f, r\<lparr>rd_stage := AtTxsPush b, rd_acc := push_block (block_data_of f b) (rd_acc r)\<rparr>), [block_data_of f b], [])
         else ((f, r), [], [])
     | AtTxsPush b \<Rightarrow>
         if fr_shutdown room then ((remember ops b f, r\<lparr>rd_stage := AtNext\<rparr>), [], [])
         else if fr_txs room then
           ((remember ops b f, r\<lparr>rd_stage := AtNext, rd_acc := push_txs (transaction_data_of b) (rd_acc r)\<rparr>),
            [], [transaction_data_of b])
         else ((f, r), [], []))"

fun fetch_micros ::
  "'c cache_ops \<Rightarrow> fetch_room list \<Rightarrow> 'c fetcher \<times> fetch_round \<Rightarrow>
     ('c fetcher \<times> fetch_round) \<times> block_data list \<times> transaction_data list" where
  "fetch_micros ops [] x = (x, [], [])"
| "fetch_micros ops (room # rooms) x =
     (let (x1, bs, ts) = fetch_micro ops room x; (x2, bs', ts') = fetch_micros ops rooms x1 in
      (x2, bs @ bs', ts @ ts'))"

text \<open>What is left of the pass, without waiting.\<close>

definition rest_of_pass :: "'c cache_ops \<Rightarrow> 'c fetcher \<times> fetch_round \<Rightarrow> 'c fetcher \<times> fetch_acc" where
  "rest_of_pass ops = (\<lambda>(f, r). fold (handle_block ops) (rd_todo r) (case rd_stage r of
       AtNext \<Rightarrow> (f, rd_acc r)
     | AtBlocksPush b \<Rightarrow> (remember ops b f, push_txs (transaction_data_of b) (push_block (block_data_of f b) (rd_acc r)))
     | AtTxsPush b \<Rightarrow> (remember ops b f, push_txs (transaction_data_of b) (rd_acc r))))"

lemma micros_Cons:
  "fetch_micro ops room x = (x1, bs, ts) \<Longrightarrow> fetch_micros ops rooms x1 = (x2, bs', ts') \<Longrightarrow>
     fetch_micros ops (room # rooms) x = (x2, bs @ bs', ts @ ts')"
  by simp

lemma micro_keeps_rest:
  assumes "fetch_micro ops room x = (x', bs, ts)" "\<not> fr_shutdown room"
  shows "rest_of_pass ops x' = rest_of_pass ops x"
    and "fa_blocks (rd_acc (snd x')) = fa_blocks (rd_acc (snd x)) @ bs"
    and "fa_transactions (rd_acc (snd x')) = fa_transactions (rd_acc (snd x)) @ ts"
  using assms
  by (auto simp: fetch_micro_def rest_of_pass_def handle_block_def enter_block_def push_block_def push_txs_def Let_def
      split: fetch_stage.splits list.splits if_splits prod.splits)

lemma micros_keep_rest:
  assumes "fetch_micros ops rooms x = (x', bs, ts)" "\<forall>room\<in>set rooms. \<not> fr_shutdown room"
  shows "rest_of_pass ops x' = rest_of_pass ops x
    \<and> fa_blocks (rd_acc (snd x')) = fa_blocks (rd_acc (snd x)) @ bs
    \<and> fa_transactions (rd_acc (snd x')) = fa_transactions (rd_acc (snd x)) @ ts"
  using assms
proof (induction rooms arbitrary: x bs ts)
  case (Cons room rooms)
  obtain x1 bs1 ts1 where m: "fetch_micro ops room x = (x1, bs1, ts1)" by (cases "fetch_micro ops room x") auto
  obtain x2 bs2 ts2 where n: "fetch_micros ops rooms x1 = (x2, bs2, ts2)" by (cases "fetch_micros ops rooms x1") auto
  from Cons.prems m n have r: "x' = x2" "bs = bs1 @ bs2" "ts = ts1 @ ts2" by auto
  have "\<not> fr_shutdown room" "\<forall>room\<in>set rooms. \<not> fr_shutdown room" using Cons.prems(2) by auto
  with micro_keeps_rest [OF m] Cons.IH [OF n [folded r(1)]] show ?case unfolding r by simp
qed simp

text \<open>With room in both queues three iterations finish a block.\<close>

lemma micros_append:
  "fetch_micros ops (rooms @ rooms') x =
     (let (x1, bs, ts) = fetch_micros ops rooms x; (x2, bs', ts') = fetch_micros ops rooms' x1 in (x2, bs @ bs', ts @ ts'))"
  by (induction rooms arbitrary: x) (auto simp: Let_def split: prod.splits)

definition ample :: fetch_room where
  "ample = \<lparr>fr_shutdown = False, fr_blocks = True, fr_txs = True\<rparr>"

lemma ample_block:
  assumes "rd_stage r = AtNext" "rd_todo r = b # bs"
  shows "\<exists>n f' r' pb pt. fetch_micros ops (replicate n ample) (f, r) = ((f', r'), pb, pt)
    \<and> rd_stage r' = AtNext \<and> rd_todo r' = bs \<and> n \<le> 3"
proof -
  obtain known f1 acc where e: "enter_block ops b (f, rd_acc r) = (known, f1, acc)"
    by (cases "enter_block ops b (f, rd_acc r)") auto
  show ?thesis
  proof (cases known)
    case True
    with assms e show ?thesis
      by (intro exI [of _ 1]) (auto simp: fetch_micro_def)
  next
    case False
    with assms e show ?thesis
      by (intro exI [of _ 3]) (auto simp: fetch_micro_def ample_def numeral_3_eq_3)
  qed
qed

lemma ample_finishes:
  assumes "rd_stage r = AtNext"
  shows "\<exists>n x' bs ts. fetch_micros ops (replicate n ample) (f, r) = (x', bs, ts) \<and> round_over (snd x')
    \<and> n \<le> 3 * length (rd_todo r)"
  using assms
proof (induction "rd_todo r" arbitrary: f r)
  case Nil
  then show ?case by (intro exI [of _ 0]) (simp add: round_over_def)
next
  case (Cons b bs)
  from ample_block [OF Cons.prems Cons.hyps(2) [symmetric], of ops f] obtain n f' r' pb pt where
    1: "fetch_micros ops (replicate n ample) (f, r) = ((f', r'), pb, pt)" "rd_stage r' = AtNext" "bs = rd_todo r'" "n \<le> 3"
    by auto
  from Cons.hyps(1) [OF 1(3,2), of f'] obtain k x' qb qt where
    2: "fetch_micros ops (replicate k ample) (f', r') = (x', qb, qt)" "round_over (snd x')" "k \<le> 3 * length (rd_todo r')"
    by blast
  have "fetch_micros ops (replicate (n + k) ample) (f, r) = (x', pb @ qb, pt @ qt)"
    by (simp add: replicate_add micros_append 1(1) 2(1))
  moreover have "n + k \<le> 3 * length (rd_todo r)" using 1(3,4) 2(3) Cons.hyps(2) by (metis add_mono length_Cons mult_Suc_right)
  ultimately show ?case using 2(2) by blast
qed

text \<open>C28: waiting for room changes nothing: however often an iteration finds a queue full, a pass over an answer
  that ends without a shutdown leaves the fetcher and what it pushed as a pass that never waits,
  and with room in both queues three iterations per block are enough to end it.\<close>

theorem waiting_changes_nothing:
  "(fetch_micros ops rooms (f, round_start blocks f) = ((f', r), bs, ts) \<and> round_over r
      \<and> (\<forall>room\<in>set rooms. \<not> fr_shutdown room) \<longrightarrow>
      handle_blocks ops now_seconds blocks f = (end_pass now_seconds (f', rd_acc r), rd_acc r)
      \<and> bs = fa_blocks (rd_acc r) \<and> ts = fa_transactions (rd_acc r))
    \<and> (\<exists>n\<le>3 * length blocks. round_over (snd (fst (fetch_micros ops (replicate n ample) (f, round_start blocks f)))))"
proof -
  have "handle_blocks ops now_seconds blocks f = (end_pass now_seconds (f', rd_acc r), rd_acc r)
      \<and> bs = fa_blocks (rd_acc r) \<and> ts = fa_transactions (rd_acc r)"
    if m: "fetch_micros ops rooms (f, round_start blocks f) = ((f', r), bs, ts)" "\<forall>room\<in>set rooms. \<not> fr_shutdown room"
      and o: "round_over r"
  proof -
    have "fold (handle_block ops) blocks (f, no_acc f) = (f', rd_acc r)"
      using micros_keep_rest [OF m] o by (simp add: rest_of_pass_def round_over_def round_start_def)
    then show ?thesis
      using micros_keep_rest [OF m] by (simp add: handle_blocks_def round_start_def no_acc_def Let_def)
  qed
  moreover have "rd_stage (round_start blocks f) = AtNext" "rd_todo (round_start blocks f) = blocks"
    by (simp_all add: round_start_def)
  then have "\<exists>n\<le>3 * length blocks. round_over (snd (fst (fetch_micros ops (replicate n ample) (f, round_start blocks f))))"
    using ample_finishes [of "round_start blocks f" ops f] by (metis fst_conv)
  ultimately show ?thesis by blast
qed

section \<open>No block is skipped\<close>

definition block_hash :: "rpc_block \<Rightarrow> hash" where
  "block_hash b = h_hash (rb_header b)"

definition pushed_hash :: "block_data \<Rightarrow> hash" where
  "pushed_hash bd = block_hash (bd_block bd)"

text \<open>The blocks of the answer that are still with the fetcher.\<close>

definition with_fetcher :: "fetch_round \<Rightarrow> rpc_block list" where
  "with_fetcher r = (case rd_stage r of AtNext \<Rightarrow> [] | AtBlocksPush b \<Rightarrow> [b] | AtTxsPush b \<Rightarrow> [b]) @ rd_todo r"

definition half_pushed :: "fetch_round \<Rightarrow> hash list" where
  "half_pushed r = (case rd_stage r of AtTxsPush b \<Rightarrow> [block_hash b] | _ \<Rightarrow> [])"

text \<open>
  What was pushed to the two queues is the same blocks in the same order, but for the one
  between its two pushes, and the cache knows only blocks that went into both.
\<close>

definition aligned ::
  "('c \<Rightarrow> hash set) \<Rightarrow> block_data list \<Rightarrow> transaction_data list \<Rightarrow> 'c fetcher \<Rightarrow> hash list \<Rightarrow> bool" where
  "aligned keys bds tds f half \<longleftrightarrow> map pushed_hash bds = map td_block_hash tds @ half
     \<and> keys (f_cache f) \<subseteq> td_block_hash ` set tds"

lemma enter_block_cache:
  assumes "enter_block ops b (f, acc) = (known, f1, acc1)" "cache_ok ops keys"
  shows "keys (f_cache f1) \<subseteq> keys (f_cache f)" "known \<Longrightarrow> block_hash b \<in> keys (f_cache f)"
proof -
  have r: "(known, f_cache f1) = cache_contains ops (f_cache f) (block_hash b)"
    using assms(1) by (auto simp: enter_block_def block_hash_def Let_def split: prod.splits)
  show "keys (f_cache f1) \<subseteq> keys (f_cache f)" "known \<Longrightarrow> block_hash b \<in> keys (f_cache f)"
    using assms(2) unfolding cache_ok_def by (metis r snd_conv, metis r fst_conv)
qed

lemma remember_cache: "cache_ok ops keys \<Longrightarrow> keys (f_cache (remember ops b f)) \<subseteq> insert (block_hash b) (keys (f_cache f))"
  by (simp add: cache_ok_def remember_def block_hash_def)

lemma micro_blocks:
  assumes "fetch_micro ops room (f, r) = ((f', r'), bs, ts)"
  shows "set (with_fetcher r') \<subseteq> set (with_fetcher r)" "set ts \<subseteq> transaction_data_of ` set (with_fetcher r)"
  using assms
  by (auto simp: fetch_micro_def with_fetcher_def split: fetch_stage.splits list.splits if_splits prod.splits)

lemma micro_aligned:
  assumes "fetch_micro ops room (f, r) = ((f', r'), bs, ts)" "\<not> fr_shutdown room" "cache_ok ops keys"
    and "aligned keys bds tds f (half_pushed r)"
  shows "aligned keys (bds @ bs) (tds @ ts) f' (half_pushed r')"
    and "b \<in> set (with_fetcher r) \<Longrightarrow> b \<in> set (with_fetcher r') \<or> block_hash b \<in> td_block_hash ` set (tds @ ts)"
proof -
  have td: "td_block_hash (transaction_data_of c) = block_hash c" for c by (simp add: transaction_data_of_def block_hash_def)
  have bd: "pushed_hash (block_data_of g c) = block_hash c" for c and g :: "'a fetcher" by (simp add: block_data_of_def pushed_hash_def block_hash_def)
  have "aligned keys (bds @ bs) (tds @ ts) f' (half_pushed r')
    \<and> (b \<in> set (with_fetcher r) \<longrightarrow> b \<in> set (with_fetcher r') \<or> block_hash b \<in> td_block_hash ` set (tds @ ts))"
  proof (cases "rd_stage r")
    case AtNext
    show ?thesis
    proof (cases "rd_todo r")
      case Nil
      with AtNext assms show ?thesis by (simp add: fetch_micro_def)
    next
      case (Cons c cs)
      obtain known f1 acc where e: "enter_block ops c (f, rd_acc r) = (known, f1, acc)"
        by (cases "enter_block ops c (f, rd_acc r)") auto
      note k = enter_block_cache [OF e assms(3)]
      have r: "f' = f1" "bs = []" "ts = []" "rd_todo r' = cs" "rd_stage r' = (if known then AtNext else AtBlocksPush c)"
        using assms(1) AtNext Cons e by (auto simp: fetch_micro_def)
      show ?thesis
        using assms(4) k AtNext Cons unfolding r(1-3)
        by (cases known) (auto simp: r(4,5) aligned_def half_pushed_def with_fetcher_def)
    qed
  next
    case (AtBlocksPush c)
    then show ?thesis using assms(1,2,4)
      by (auto simp: fetch_micro_def aligned_def half_pushed_def with_fetcher_def bd split: if_splits)
  next
    case (AtTxsPush c)
    have "keys (f_cache (remember ops c f)) \<subseteq> insert (block_hash c) (td_block_hash ` set tds)"
      using remember_cache [OF assms(3), of c f] assms(4) by (auto simp: aligned_def)
    with AtTxsPush show ?thesis using assms(1,2,4)
      by (auto simp: fetch_micro_def aligned_def half_pushed_def with_fetcher_def td split: if_splits)
  qed
  then show "aligned keys (bds @ bs) (tds @ ts) f' (half_pushed r')"
    and "b \<in> set (with_fetcher r) \<Longrightarrow> b \<in> set (with_fetcher r') \<or> block_hash b \<in> td_block_hash ` set (tds @ ts)" by blast+
qed

text \<open>Once synced the fetcher stays synced, and it becomes synced only on a block among the tip
  hashes the node reported.\<close>

lemma fetcher_sync_monotone:
  assumes "fetch_step L ops i f m = Inr (f', m', bs, ts)"
  shows "(f_synced f \<longrightarrow> f_synced f')
    \<and> (f_synced f' \<and> \<not> f_synced f \<longrightarrow>
        (\<exists>blocks. fi_blocks i = Some blocks \<and> (\<exists>b\<in>set blocks. h_hash (rb_header b) \<in> f_tip_hashes f')))"
proof -
  have one: "(f_synced (fst x) \<longrightarrow> f_synced (fst (handle_block ops b x)))
      \<and> f_tip_hashes (fst (handle_block ops b x)) = f_tip_hashes (fst x)
      \<and> (f_synced (fst (handle_block ops b x)) \<longrightarrow> f_synced (fst x) \<or> h_hash (rb_header b) \<in> f_tip_hashes (fst x))"
    for b x
    by (cases x) (auto simp: handle_block_def enter_block_def remember_def Let_def split: prod.splits)
  have many: "(f_synced (fst x) \<longrightarrow> f_synced (fst (fold (handle_block ops) xs x)))
      \<and> f_tip_hashes (fst (fold (handle_block ops) xs x)) = f_tip_hashes (fst x)
      \<and> (f_synced (fst (fold (handle_block ops) xs x)) \<longrightarrow>
          f_synced (fst x) \<or> (\<exists>b\<in>set xs. h_hash (rb_header b) \<in> f_tip_hashes (fst x)))" for xs x
  proof (induction xs arbitrary: x)
    case (Cons b xs)
    show ?case using one [of x b] Cons.IH [of "handle_block ops b x"] by (simp, blast)
  qed simp
  have up: "f_synced (update_tips i n f) = f_synced f" for n
    by (simp add: update_tips_def split: option.splits)
  show ?thesis
  proof (cases "fi_blocks i")
    case (Some blocks)
    show ?thesis
    proof (cases "1 < length blocks")
      case True
      let ?f1 = "update_tips i (length blocks) f"
      let ?r = "fold (handle_block ops) blocks (?f1, no_acc ?f1)"
      have "f_synced f' = f_synced (fst ?r)" "f_tip_hashes f' = f_tip_hashes (fst ?r)"
        using assms Some True
        by (auto simp: fetch_step_def Let_def handle_blocks_def end_pass_def sbind_Inr_iff split: prod.splits)
      then show ?thesis using many [where xs = blocks and x = "(?f1, no_acc ?f1)"] Some up by auto
    qed (use assms Some up in \<open>auto simp: fetch_step_def Let_def\<close>)
  qed (use assms in \<open>simp add: fetch_step_def\<close>)
qed

section \<open>A concrete round\<close>

text \<open>Two blocks, the second one the tip the node reported.\<close>

definition sample_rpc_block :: "byte \<Rightarrow> rpc_block" where
  "sample_rpc_block n = \<lparr>rb_header =
     \<lparr>h_hash = Hash [n], h_version = 1, h_parents_by_level = [], h_hash_merkle_root = Hash [],
      h_accepted_id_merkle_root = Hash [], h_utxo_commitment = Hash [], h_timestamp = 5, h_bits = 0,
      h_nonce = 0, h_daa_score = 9, h_blue_work = 0, h_blue_score = 9, h_pruning_point = Hash []\<rparr>,
     rb_transactions = [], rb_verbose = Some \<lparr>bv_hash = Hash [n], bv_selected_parent_hash = Hash [1],
       bv_transaction_ids = [], bv_merge_set_blues_hashes = [], bv_merge_set_reds_hashes = []\<rparr>\<rparr>"

definition sample_fetch :: fetch_input where
  "sample_fetch = \<lparr>fi_blocks = Some [sample_rpc_block 1, sample_rpc_block 2], fi_tips = Some [Hash [2]],
     fi_now = 0, fi_checked = 1, fi_now_seconds = 0, fi_blocks_len = 2,
     fi_txs_len = 2\<rparr>"

definition sample_fetcher :: "hash list fetcher" where
  "sample_fetcher = \<lparr>f_low_hash = Hash [1], f_last_sync_check = 0, f_synced = False, f_lag_count = 0, f_tip_hashes = {}, f_cache = []\<rparr>"

definition no_room :: fetch_room where
  "no_room = \<lparr>fr_shutdown = False, fr_blocks = False, fr_txs = False\<rparr>"

lemma sample_enter:
  "\<exists>acc. enter_block list_cache (sample_rpc_block 2) (sample_fetcher, no_acc sample_fetcher) = (False, sample_fetcher, acc)
    \<and> fa_blocks acc = []"
  by (simp add: enter_block_def list_cache_def sample_fetcher_def no_acc_def Let_def)

lemma sample_pass:
  "\<exists>f' r bs ts. fetch_micros list_cache [ample, no_room, ample, no_room, ample]
      (sample_fetcher, round_start [sample_rpc_block 2] sample_fetcher) = ((f', r), bs, ts)
    \<and> round_over r \<and> length bs = 1"
proof -
  let ?b = "sample_rpc_block 2" and ?f = sample_fetcher
  from sample_enter obtain acc where e: "enter_block list_cache ?b (?f, no_acc ?f) = (False, ?f, acc)" by blast
  define r where "r = \<lparr>rd_todo = [], rd_stage = AtBlocksPush ?b, rd_acc = acc, rd_last = ?b\<rparr>"
  have 1: "fetch_micro list_cache ample (?f, round_start [?b] ?f) = ((?f, r), [], [])"
    by (simp add: fetch_micro_def round_start_def r_def e)
  have w: "fetch_micro list_cache no_room (?f, r\<lparr>rd_stage := st, rd_acc := a\<rparr>) = ((?f, r\<lparr>rd_stage := st, rd_acc := a\<rparr>), [], [])"
    if "st = AtBlocksPush ?b \<or> st = AtTxsPush ?b" for st a using that by (auto simp: fetch_micro_def no_room_def)
  define r2 where "r2 = r\<lparr>rd_stage := AtTxsPush ?b, rd_acc := push_block (block_data_of ?f ?b) acc\<rparr>"
  have 2: "fetch_micro list_cache no_room (?f, r) = ((?f, r), [], [])"
    using w [of "AtBlocksPush ?b" acc] by (simp add: r_def)
  have 3: "fetch_micro list_cache ample (?f, r) = ((?f, r2), [block_data_of ?f ?b], [])"
    by (simp add: fetch_micro_def r_def r2_def ample_def)
  have 4: "fetch_micro list_cache no_room (?f, r2) = ((?f, r2), [], [])" unfolding r2_def by (rule w) simp
  have 5: "\<exists>f' r3 ts. fetch_micro list_cache ample (?f, r2) = ((f', r3), [], ts) \<and> round_over r3"
    by (simp add: fetch_micro_def r2_def r_def ample_def round_over_def)
  then obtain f' r3 ts where 5: "fetch_micro list_cache ample (?f, r2) = ((f', r3), [], ts)" "round_over r3" by blast
  note micros_Cons [OF 1 micros_Cons [OF 2 micros_Cons [OF 3 micros_Cons [OF 4 micros_Cons [OF 5(1) fetch_micros.simps(1)]]]]]
  then show ?thesis using 5(2) by (intro exI conjI) (assumption | simp)+
qed

theorem waiting_changes_nothing_witness:
  "length (fa_blocks (snd (handle_blocks list_cache 0 [sample_rpc_block 2] sample_fetcher))) = 1"
proof -
  from sample_pass obtain f' r bs ts where m: "fetch_micros list_cache [ample, no_room, ample, no_room, ample]
      (sample_fetcher, round_start [sample_rpc_block 2] sample_fetcher) = ((f', r), bs, ts)"
    "round_over r" "length bs = 1" by blast
  have "\<forall>room\<in>set [ample, no_room, ample, no_room, ample]. \<not> fr_shutdown room"
    by (simp add: ample_def no_room_def)
  from waiting_changes_nothing [THEN conjunct1, rule_format, OF conjI [OF m(1) conjI [OF m(2) this]], of 0] m(3)
  show ?thesis by (simp only: snd_conv)
qed

end
