(* ===== verification/Db_Prune_Txs.thy ===== *)
theory Db_Prune_Txs
  imports Db_Insert Db_Delete
begin

text \<open>
  What pruning transactions keeps: the effect of one chunk as an equation between
  databases, termination of the loop, and the safety of the unspent outputs.
\<close>

section \<open>The effect of one chunk\<close>

text \<open>The identifiers a chunk works with, from the database it starts in.\<close>

definition chunk_kept_inputs :: "hash list \<Rightarrow> hash list \<Rightarrow> db \<Rightarrow> transaction_input_row list" where
  "chunk_kept_inputs rejected accepted d =
     filter (\<lambda>i. in_transaction_id i \<notin> set accepted)
       (filter (\<lambda>i. in_transaction_id i \<notin> set rejected) (t_inputs d))"

definition chunk_kept_outputs :: "hash list \<Rightarrow> (hash \<times> int) list \<Rightarrow> db \<Rightarrow> transaction_output_row list" where
  "chunk_kept_outputs rejected spent d =
     filter (\<lambda>r. (out_transaction_id r, out_index r) \<notin> set spent)
       (filter (\<lambda>r. out_transaction_id r \<notin> set rejected) (t_outputs d))"

definition chunk_effect ::
  "nat list \<Rightarrow> hash list \<Rightarrow> hash list \<Rightarrow> (hash \<times> int) list \<Rightarrow> db \<Rightarrow> db" where
  "chunk_effect ctids rejected accepted spent d = d\<lparr>
     t_transactions := drop_at ctids (t_transactions d),
     t_inputs := chunk_kept_inputs rejected accepted d,
     t_outputs := chunk_kept_outputs rejected spent d,
     t_acceptances := filter (\<lambda>a. ta_transaction_id a \<notin>
         Some ` (fst ` set spent - out_transaction_id ` set (chunk_kept_outputs rejected spent d)))
       (t_acceptances d)\<rparr>"

lemma set_select_accepted:
  "h \<in> set (select_accepted ids d) \<longleftrightarrow> h \<in> set ids \<and> Some h \<in> ta_transaction_id ` set (t_acceptances d)"
  by (force simp: select_accepted_def image_iff split: option.splits)

lemma select_accepted_Nil [simp]: "select_accepted [] d = []"
  using set_select_accepted [of _ "[]" d] by (metis empty_iff empty_set list.set_intros(1) neq_Nil_conv)

lemma chunk_steps:
  assumes "prune_transactions_chunk pick c b p = (Inr n, p')"
  obtains expired d1 n1 d2 n2 d3 spent d4 n3 d5 n4 where
    "delete_old_transactions pick c b (data p) = Inr (expired, d1)"
    "delete_inputs_of (filter (\<lambda>h. h \<notin> set (select_accepted expired d1)) expired) d1 = Inr (n1, d2)"
    "delete_outputs_of (filter (\<lambda>h. h \<notin> set (select_accepted expired d1)) expired) d2 = Inr (n2, d3)"
    "delete_inputs_returning (select_accepted expired d1) d3 = Inr (spent, d4)"
    "delete_outputs_at spent d4 = Inr (n3, d5)"
    "delete_acceptances_of (filter (\<lambda>h. h \<notin> set (select_output_ids (remdups (map fst spent)) d5))
       (remdups (map fst spent))) d5 = Inr (n4, data p')"
    "n = length expired + n1 + n2 + length spent + n3 + n4"
proof -
  from in_transaction_Inr [OF assms [unfolded prune_transactions_chunk_def]] obtain q q' where
    "data q = data p" "data p' = data q'" and run:
    "bnd (query (\<lambda>_. Inr ())) (\<lambda>_.
     bnd (execute (delete_old_transactions pick c b)) (\<lambda>expired.
     bnd (query (\<lambda>d. Inr (select_accepted expired d))) (\<lambda>accepted.
     let rejected = filter (\<lambda>h. h \<notin> set accepted) expired in
     bnd (execute (delete_inputs_of rejected)) (\<lambda>n1.
     bnd (execute (delete_outputs_of rejected)) (\<lambda>n2.
     bnd (execute (delete_inputs_returning accepted)) (\<lambda>spent.
     bnd (execute (delete_outputs_at spent)) (\<lambda>n3.
     let possibly_spent = remdups (map fst spent) in
     bnd (query (\<lambda>d. Inr (select_output_ids possibly_spent d))) (\<lambda>unspent.
     let fully_spent = filter (\<lambda>h. h \<notin> set unspent) possibly_spent in
     bnd (execute (delete_acceptances_of fully_spent)) (\<lambda>n4.
     ret (length expired + n1 + n2 + length spent + n3 + n4)))))))))) q = (Inr n, q')"
    by blast
  from run \<open>data q = data p\<close> \<open>data p' = data q'\<close> show thesis
    by (auto simp only: bnd_Inr_iff ret_def Let_def prod.inject sum.inject dest!: execute_Inr query_Inr
        intro!: that)
qed

lemma chunk_Inr:
  assumes "prune_transactions_chunk pick c b p = (Inr n, p')"
  obtains ctids expired accepted rejected spent where
    "0 \<le> b" "ctids = pick (nat b) (own_old tx_block_time c (t_transactions (data p)))"
    "expired = map (\<lambda>i. tx_id (t_transactions (data p) ! i)) ctids"
    "accepted = select_accepted expired (data p)"
    "rejected = filter (\<lambda>h. h \<notin> set accepted) expired"
    "traverse outpoint (filter (\<lambda>i. in_transaction_id i \<in> set accepted)
       (filter (\<lambda>i. in_transaction_id i \<notin> set rejected) (t_inputs (data p)))) = Inr spent"
    "data p' = chunk_effect ctids rejected accepted spent (data p)"
    "expired = [] \<longrightarrow> n = 0"
proof -
  from assms obtain expired d1 n1 d2 n2 d3 spent d4 n3 d5 n4 where st:
    "delete_old_transactions pick c b (data p) = Inr (expired, d1)"
    "delete_inputs_of (filter (\<lambda>h. h \<notin> set (select_accepted expired d1)) expired) d1 = Inr (n1, d2)"
    "delete_outputs_of (filter (\<lambda>h. h \<notin> set (select_accepted expired d1)) expired) d2 = Inr (n2, d3)"
    "delete_inputs_returning (select_accepted expired d1) d3 = Inr (spent, d4)"
    "delete_outputs_at spent d4 = Inr (n3, d5)"
    "delete_acceptances_of (filter (\<lambda>h. h \<notin> set (select_output_ids (remdups (map fst spent)) d5))
       (remdups (map fst spent))) d5 = Inr (n4, data p')"
    "n = length expired + n1 + n2 + length spent + n3 + n4"
    by (rule chunk_steps)
  define ctids where "ctids = pick (nat b) (own_old tx_block_time c (t_transactions (data p)))"
  define accepted where "accepted = select_accepted expired (data p)"
  define rejected where "rejected = filter (\<lambda>h. h \<notin> set accepted) expired"
  have 1: "0 \<le> b" "expired = map (\<lambda>i. tx_id (t_transactions (data p) ! i)) ctids"
    "d1 = (data p)\<lparr>t_transactions := drop_at ctids (t_transactions (data p))\<rparr>"
    using st(1) by (auto simp: delete_old_transactions_def ctids_def Let_def split: if_splits)
  have acc: "select_accepted expired d1 = accepted"
    by (simp add: 1(3) accepted_def select_accepted_def)
  note st = st [unfolded acc, folded rejected_def]
  have 2: "d2 = d1\<lparr>t_inputs := filter (\<lambda>i. in_transaction_id i \<notin> set rejected) (t_inputs d1)\<rparr>"
    "d3 = d2\<lparr>t_outputs := filter (\<lambda>r. out_transaction_id r \<notin> set rejected) (t_outputs d2)\<rparr>"
    using st(2,3) by (simp_all add: delete_inputs_of_def delete_outputs_of_def Let_def)
  have 3: "traverse outpoint (filter (\<lambda>i. in_transaction_id i \<in> set accepted)
       (filter (\<lambda>i. in_transaction_id i \<notin> set rejected) (t_inputs (data p)))) = Inr spent"
    "d4 = d3\<lparr>t_inputs := filter (\<lambda>i. in_transaction_id i \<notin> set accepted) (t_inputs d3)\<rparr>"
    using st(4) by (auto simp: delete_inputs_returning_def 2 1(3) split: sum.splits)
  have 4: "d5 = d4\<lparr>t_outputs := filter (\<lambda>r. (out_transaction_id r, out_index r) \<notin> set spent) (t_outputs d4)\<rparr>"
    using st(5) by (simp add: delete_outputs_at_def Let_def)
  have outs: "t_outputs d5 = chunk_kept_outputs rejected spent (data p)"
    by (simp add: 4 3(2) 2 1(3) chunk_kept_outputs_def)
  have fully: "set (filter (\<lambda>h. h \<notin> set (select_output_ids (remdups (map fst spent)) d5))
       (remdups (map fst spent))) =
       fst ` set spent - out_transaction_id ` set (chunk_kept_outputs rejected spent (data p))"
    by (auto simp: select_output_ids_def outs)
  have 5: "data p' = chunk_effect ctids rejected accepted spent (data p)"
    using st(6) [unfolded delete_acceptances_of_def Let_def fully]
    by (simp add: 4 3(2) 2 1(3) chunk_effect_def chunk_kept_inputs_def chunk_kept_outputs_def)
  have "n = 0" if "expired = []"
  proof -
    have e: "accepted = []" "rejected = []" using that by (simp_all add: accepted_def rejected_def)
    then have "spent = []" using 3(1) by simp
    then show ?thesis
      using st(2,3,5,6,7) that e
      by (simp add: delete_inputs_of_def delete_outputs_of_def delete_outputs_at_def delete_acceptances_of_def)
  qed
  then show thesis
    using that [OF 1(1) ctids_def 1(2) accepted_def rejected_def 3(1) 5] by blast
qed

section \<open>Termination and safety\<close>

lemma chunk_shrinks:
  assumes "limit_ok pick" "prune_transactions_chunk pick c b p = (Inr n, p')" "n \<noteq> 0"
  shows "length (t_transactions (data p')) < length (t_transactions (data p))"
proof -
  from assms(2) obtain ctids expired accepted rejected spent where st:
    "ctids = pick (nat b) (own_old tx_block_time c (t_transactions (data p)))"
    "expired = map (\<lambda>i. tx_id (t_transactions (data p) ! i)) ctids"
    "data p' = chunk_effect ctids rejected accepted spent (data p)" "expired = [] \<longrightarrow> n = 0"
    by (rule chunk_Inr)
  have "set ctids \<subseteq> {..<length (t_transactions (data p))}"
    using limit_ok_set [OF assms(1), of "nat b" "own_old tx_block_time c (t_transactions (data p))"]
    by (auto simp: st(1) set_own_old)
  from length_drop_at [OF this] have
    "length (t_transactions (data p')) + card (set ctids) = length (t_transactions (data p))"
    by (simp add: st(3) chunk_effect_def)
  moreover have "0 < card (set ctids)"
    using st(2,4) assms(3) by (auto simp: card_gt_0_iff)
  ultimately show ?thesis by simp
qed

lemma prune_transactions_some:
  assumes "limit_ok pick"
  shows "\<exists>r p'. prune_transactions pick c b p = Some (r, p')"
proof -
  have "\<exists>x. prune_transactions pick c b p = Some x"
    unfolding prune_transactions_def
    by (rule prune_loop_total [where size_of = "\<lambda>d. length (t_transactions d)"])
      (rule chunk_shrinks [OF assms])
  then show ?thesis by auto
qed

text \<open>An output no input spends, of an accepted transaction.\<close>

definition unspent_accepted :: "transaction_output_row \<Rightarrow> db \<Rightarrow> bool" where
  "unspent_accepted r d \<longleftrightarrow> r \<in> set (t_outputs d)
     \<and> Some (out_transaction_id r) \<in> ta_transaction_id ` set (t_acceptances d)
     \<and> (\<forall>i\<in>set (t_inputs d). \<not> spends i r)"

lemma outpoint_Inr_iff:
  "outpoint i = Inr (h, k) \<longleftrightarrow>
     in_previous_outpoint_hash i = Some h \<and> in_previous_outpoint_index i = Some k"
  by (auto split: option.splits)

lemma traverse_outpoint_set:
  assumes "traverse outpoint is = Inr spent" "(h, k) \<in> set spent"
  shows "\<exists>i\<in>set is. in_previous_outpoint_hash i = Some h \<and> in_previous_outpoint_index i = Some k"
proof -
  from assms(2) obtain n where n: "n < length spent" "spent ! n = (h, k)"
    by (auto simp: in_set_conv_nth)
  with traverse_nth [OF assms(1), of n] traverse_length [OF assms(1)]
  have "outpoint (is ! n) = Inr (h, k)" by simp
  then show ?thesis
    using n traverse_length [OF assms(1)] unfolding outpoint_Inr_iff by auto
qed

lemma chunk_error:
  "prune_transactions_chunk pick c b p = (Inl e, p') \<Longrightarrow> data p' = data p"
  unfolding prune_transactions_chunk_def by (rule in_transaction_error)

lemma chunk_unspent_accepted:
  assumes "prune_transactions_chunk pick c b p = (res, p')" "unspent_accepted r (data p)"
  shows "unspent_accepted r (data p')"
proof (cases res)
  case (Inl e)
  then show ?thesis using assms chunk_error [of pick c b p e p'] by simp
next
  case (Inr n)
  with assms(1) have "prune_transactions_chunk pick c b p = (Inr n, p')" by simp
  then obtain ctids expired accepted rejected spent where st:
    "accepted = select_accepted expired (data p)"
    "rejected = filter (\<lambda>h. h \<notin> set accepted) expired"
    "traverse outpoint (filter (\<lambda>i. in_transaction_id i \<in> set accepted)
       (filter (\<lambda>i. in_transaction_id i \<notin> set rejected) (t_inputs (data p)))) = Inr spent"
    "data p' = chunk_effect ctids rejected accepted spent (data p)"
    by (rule chunk_Inr)
  have r: "r \<in> set (t_outputs (data p))"
    "Some (out_transaction_id r) \<in> ta_transaction_id ` set (t_acceptances (data p))"
    "\<And>i. i \<in> set (t_inputs (data p)) \<Longrightarrow> \<not> spends i r"
    using assms(2) by (auto simp: unspent_accepted_def)
  have "out_transaction_id r \<notin> set rejected"
    using r(2) by (auto simp: st(1,2) set_select_accepted)
  moreover have "(out_transaction_id r, out_index r) \<notin> set spent"
    using traverse_outpoint_set [OF st(3)] r(3) by (auto simp: spends_def)
  ultimately have kept: "r \<in> set (chunk_kept_outputs rejected spent (data p))"
    using r(1) by (simp add: chunk_kept_outputs_def)
  then have "Some (out_transaction_id r) \<in> ta_transaction_id ` set (t_acceptances (data p'))"
  proof -
    from r(2) obtain a where a: "a \<in> set (t_acceptances (data p))"
      "ta_transaction_id a = Some (out_transaction_id r)" by auto
    have "a \<in> set (t_acceptances (data p'))"
      using a imageI [OF kept, of out_transaction_id] by (auto simp: st(4) chunk_effect_def)
    then show ?thesis using a(2) by (metis image_eqI)
  qed
  with kept r(3) show ?thesis
    by (auto simp: unspent_accepted_def st(4) chunk_effect_def chunk_kept_inputs_def)
qed

text \<open>C26: pruning keeps the live UTXO set: an output of an accepted transaction that no recorded
  input spends survives the whole prune with its acceptance, whatever the cutoff, the batch
  size, the rows picked and the connection failures on the way, however old it is.\<close>

theorem prune_transactions_keeps_unspent:
  assumes "prune_transactions pick block_time_lt batch_size p = Some (res, p')"
    and "unspent_accepted r (data p)"
  shows "unspent_accepted r (data p')"
  using prune_loop_rule [where I = "unspent_accepted r", OF chunk_unspent_accepted
      assms(1) [unfolded prune_transactions_def] assms(2)] by simp

text \<open>A transaction of time 1, accepted, with one output.\<close>

definition sample_output :: transaction_output_row where
  "sample_output = \<lparr>out_transaction_id = Hash [1], out_index = 0, out_amount = Some 7,
     out_script_public_key = None, out_script_public_key_address = Some ''a'',
     out_block_time = Some 1\<rparr>"

definition sample_db :: "bool \<Rightarrow> db" where
  "sample_db accepted = schema_db\<lparr>
     t_transactions := [\<lparr>tx_id = Hash [1], tx_subnetwork_id = None, tx_hash = None, tx_mass = None,
       tx_payload = None, tx_block_time = Some 1\<rparr>],
     t_outputs := [sample_output],
     t_acceptances := (if accepted
       then [\<lparr>ta_transaction_id = Some (Hash [1]), ta_block_hash = Some (Hash [2])\<rparr>] else [])\<rparr>"

theorem prune_transactions_keeps_unspent_witness:
  "\<exists>res p'. prune_transactions take 5 10 (pool_of (sample_db True)) = Some (res, p')
     \<and> unspent_accepted sample_output (data p')"
proof -
  obtain res p' where r: "prune_transactions take 5 10 (pool_of (sample_db True)) = Some (res, p')"
    using prune_transactions_some [OF limit_ok_take] by blast
  have "unspent_accepted sample_output (data (pool_of (sample_db True)))"
    by (simp add: unspent_accepted_def sample_db_def sample_output_def schema_db_def)
  from prune_transactions_keeps_unspent [OF r this] r show ?thesis by blast
qed

text \<open>C27: what one chunk may delete: an output that disappears either belonged to an expired
  transaction nobody accepted, or was spent by an input, deleted in the same chunk, of an
  expired accepted transaction; and a failed chunk deletes nothing.\<close>

theorem prune_transactions_chunk_deletes:
  assumes "prune_transactions_chunk pick block_time_lt batch_size p = (res, p')" "limit_ok pick"
    and "r \<in> set (t_outputs (data p))" "r \<notin> set (t_outputs (data p'))"
  shows "\<exists>t\<in>set (t_transactions (data p)). older block_time_lt (tx_block_time t) \<and>
    ((tx_id t = out_transaction_id r
       \<and> Some (tx_id t) \<notin> ta_transaction_id ` set (t_acceptances (data p)))
     \<or> (Some (tx_id t) \<in> ta_transaction_id ` set (t_acceptances (data p))
       \<and> (\<exists>i\<in>set (t_inputs (data p)). in_transaction_id i = tx_id t \<and> spends i r
            \<and> i \<notin> set (t_inputs (data p')))))"
proof (cases res)
  case (Inl e)
  then have "data p' = data p"
    using assms(1) chunk_error [of pick block_time_lt batch_size p e p'] by simp
  then show ?thesis using assms(3,4) by simp
next
  case (Inr n)
  with assms(1) have "prune_transactions_chunk pick block_time_lt batch_size p = (Inr n, p')" by simp
  then obtain ctids expired accepted rejected spent where st:
    "ctids = pick (nat batch_size) (own_old tx_block_time block_time_lt (t_transactions (data p)))"
    "expired = map (\<lambda>i. tx_id (t_transactions (data p) ! i)) ctids"
    "accepted = select_accepted expired (data p)"
    "rejected = filter (\<lambda>h. h \<notin> set accepted) expired"
    "traverse outpoint (filter (\<lambda>i. in_transaction_id i \<in> set accepted)
       (filter (\<lambda>i. in_transaction_id i \<notin> set rejected) (t_inputs (data p)))) = Inr spent"
    "data p' = chunk_effect ctids rejected accepted spent (data p)"
    by (rule chunk_Inr)
  have old: "\<exists>t\<in>set (t_transactions (data p)). older block_time_lt (tx_block_time t) \<and> tx_id t = h"
    if "h \<in> set expired" for h
    using that limit_ok_set [OF assms(2), of "nat batch_size"]
    by (fastforce simp: st(1,2) set_own_old)
  from assms(3,4) consider "out_transaction_id r \<in> set rejected"
    | "(out_transaction_id r, out_index r) \<in> set spent"
    by (auto simp: st(6) chunk_effect_def chunk_kept_outputs_def)
  then show ?thesis
  proof cases
    case 1
    then have "out_transaction_id r \<in> set expired"
      "Some (out_transaction_id r) \<notin> ta_transaction_id ` set (t_acceptances (data p))"
      by (auto simp: st(3,4) set_select_accepted)
    with old [of "out_transaction_id r"] show ?thesis by metis
  next
    case 2
    from traverse_outpoint_set [OF st(5) 2] obtain i where i: "i \<in> set (t_inputs (data p))"
      "in_transaction_id i \<in> set accepted" "spends i r" by (auto simp: spends_def)
    then have "i \<notin> set (t_inputs (data p'))"
      by (simp add: st(6) chunk_effect_def chunk_kept_inputs_def)
    moreover have "in_transaction_id i \<in> set expired"
      "Some (in_transaction_id i) \<in> ta_transaction_id ` set (t_acceptances (data p))"
      using i(2) by (auto simp: st(3) set_select_accepted)
    ultimately show ?thesis using old [of "in_transaction_id i"] i by metis
  qed
qed

theorem prune_transactions_chunk_deletes_witness:
  "\<exists>t\<in>set (t_transactions (sample_db False)). older 5 (tx_block_time t) \<and>
    ((tx_id t = Hash [1] \<and> Some (tx_id t) \<notin> ta_transaction_id ` set (t_acceptances (sample_db False)))
     \<or> (Some (tx_id t) \<in> ta_transaction_id ` set (t_acceptances (sample_db False))
       \<and> (\<exists>i\<in>set (t_inputs (sample_db False)). in_transaction_id i = tx_id t \<and> spends i sample_output
            \<and> i \<notin> set (t_inputs
                (data (snd (prune_transactions_chunk take 5 10 (pool_of (sample_db False)))))))))"
proof -
  have "sample_output \<in> set (t_outputs (sample_db False))"
    by (simp add: sample_db_def)
  moreover have "t_outputs (data (snd (prune_transactions_chunk take 5 10 (pool_of (sample_db False))))) = []"
    by code_simp
  ultimately show ?thesis
    using prune_transactions_chunk_deletes [OF _ limit_ok_take, of 5 10 "pool_of (sample_db False)"
        "fst (prune_transactions_chunk take 5 10 (pool_of (sample_db False)))"
        "snd (prune_transactions_chunk take 5 10 (pool_of (sample_db False)))" sample_output]
    by (simp add: sample_output_def)
qed

end
