(* ===== verification/Prune.thy ===== *)
theory Prune
  imports Pipeline Db_Prune_Txs
begin

text \<open>
  The database pruner (\<open>indexer/src/prune.rs\<close>): one run of the scheduled job, its six steps in
  order, each with the shutdown test before it, its cutoff and its metrics. Times are
  nanoseconds. The loops of the database crate that a step calls may in principle not end,
  which is the outcome \<open>Diverges\<close>; the properties show that they do.
\<close>

section \<open>The run's environment and outcome\<close>

text \<open>
  What the run reads from outside: the answers of the six shutdown tests, the clock at the
  start and the end of the run and of each step, what the server returns for a \<open>LIMIT\<close>, and
  chrono's test that the difference of a time and a duration can be held.
\<close>

record prune_env =
  pe_shutdown :: "nat \<Rightarrow> bool"
  pe_start :: int
  pe_step :: "string \<Rightarrow> int \<times> int"
  pe_end :: int
  pe_pick :: "nat \<Rightarrow> nat list \<Rightarrow> nat list"
  pe_holds :: "int \<Rightarrow> duration \<Rightarrow> bool"

record prune_state =
  ps_errors :: int
  ps_metrics :: metrics
  ps_pool :: pool

datatype prune_end =
    Diverges
  | Panics panic prune_state
  | ShutDown prune_state
  | Goes prune_state

fun and_then :: "prune_end \<Rightarrow> (prune_state \<Rightarrow> prune_end) \<Rightarrow> prune_end" where
  "and_then (Goes s) f = f s"
| "and_then r f = r"

definition map_pruner :: "(metrics_pruner \<Rightarrow> metrics_pruner) \<Rightarrow> prune_state \<Rightarrow> prune_state" where
  "map_pruner f s = s\<lparr>ps_metrics := (ps_metrics s)\<lparr>me_db_pruner := f (me_db_pruner (ps_metrics s))\<rparr>\<rparr>"

text \<open>\<open>now()\<close>: the clock without its nanoseconds.\<close>

definition now :: "int \<Rightarrow> int" where
  "now t = t div 10 ^ 9 * 10 ^ 9"

definition timestamp_millis :: "int \<Rightarrow> int" where
  "timestamp_millis t = t div 10 ^ 6"

text \<open>\<open>common_start_time.sub(retention)\<close>: a difference chrono cannot hold panics.\<close>

definition subtract ::
  "prune_env \<Rightarrow> duration \<Rightarrow> prune_state \<Rightarrow> (int \<Rightarrow> prune_end) \<Rightarrow> prune_end" where
  "subtract e d s f = (if pe_holds e (now (pe_start e)) d then f (now (pe_start e) - int d)
     else Panics (Panic ''DateTime - TimeDelta overflowed'') s)"

definition return_on_shutdown :: "bool \<Rightarrow> prune_state \<Rightarrow> prune_end \<Rightarrow> prune_end" where
  "return_on_shutdown shutdown s r = (if shutdown then ShutDown s else r)"

text \<open>\<open>retention.min(other.unwrap_or(Duration::MAX))\<close>\<close>

definition min_retention :: "duration \<Rightarrow> duration option \<Rightarrow> duration" where
  "min_retention d other = (case other of None \<Rightarrow> d | Some d' \<Rightarrow> min d d')"

section \<open>One step\<close>

definition put_result :: "string \<Rightarrow> pruner_result \<Rightarrow> prune_state \<Rightarrow> prune_state option" where
  "put_result name r s = (case md_results (me_db_pruner (ps_metrics s)) of None \<Rightarrow> None
     | Some rs \<Rightarrow> Some (map_pruner (\<lambda>m. m\<lparr>md_results := Some (rs(name \<mapsto> r))\<rparr>) s))"

definition prune_step ::
  "prune_env \<Rightarrow> string \<Rightarrow> (int \<Rightarrow> pool \<Rightarrow> ((sql_error + nat) \<times> pool) option) \<Rightarrow> int \<Rightarrow>
     prune_state \<Rightarrow> prune_end" where
  "prune_step e name db_call cutoff_time s =
     (let start_time = now (fst (pe_step e name));
          r = \<lparr>pr_start_time = start_time, pr_cutoff_time = cutoff_time, pr_success = None,
               pr_duration = None, pr_rows_deleted = None\<rparr> in
      case put_result name r s of
        None \<Rightarrow> Panics (Panic unwrap_msg) s
      | Some s1 \<Rightarrow>
         (case db_call (timestamp_millis cutoff_time) (ps_pool s1) of
            None \<Rightarrow> Diverges
          | Some (step_result, p) \<Rightarrow>
              let s2 = s1\<lparr>ps_pool := p\<rparr>;
                  elapsed = now (snd (pe_step e name)) - start_time;
                  success = (case step_result of Inl _ \<Rightarrow> False | Inr _ \<Rightarrow> True) in
              if elapsed < 0 then Panics (Panic unwrap_msg) s2
              else (case put_result name (r\<lparr>pr_success := Some success, pr_duration := Some (nat elapsed),
                      pr_rows_deleted := (case step_result of Inl _ \<Rightarrow> None | Inr n \<Rightarrow> Some n)\<rparr>) s2 of
                 None \<Rightarrow> Panics (Panic unwrap_msg) s2
               | Some s3 \<Rightarrow> Goes (s3\<lparr>ps_errors := ps_errors s3 + (if success then 0 else 1)\<rparr>))))"

section \<open>The run\<close>

text \<open>The parts of \<open>prune\<close>, in its order.\<close>

definition prune_begin :: "prune_env \<Rightarrow> prune_state \<Rightarrow> prune_state" where
  "prune_begin e s = map_pruner (\<lambda>m. m\<lparr>md_running := Some True, md_start_time := Some (now (pe_start e)),
     md_results := Some Map.empty\<rparr>) (s\<lparr>ps_errors := 0\<rparr>)"

definition prune_block_parent_part ::
  "prune_env \<Rightarrow> cli_args \<Rightarrow> pruning_config \<Rightarrow> prune_state \<Rightarrow> prune_end" where
  "prune_block_parent_part e args cfg s =
     (case retention_block_parent cfg of None \<Rightarrow> Goes s
      | Some d \<Rightarrow>
          subtract e (min_retention d (retention_blocks cfg)) s (\<lambda>cutoff.
          return_on_shutdown (pe_shutdown e 0) s
          (prune_step e ''block_parent''
            (\<lambda>t. prune_block_parent (pe_pick e) t (prune_batch_size (pruning args))) cutoff s)))"

definition prune_blocks_transactions_part ::
  "prune_env \<Rightarrow> cli_args \<Rightarrow> pruning_config \<Rightarrow> prune_state \<Rightarrow> prune_end" where
  "prune_blocks_transactions_part e args cfg s =
     (case retention_blocks_transactions cfg of None \<Rightarrow> Goes s
      | Some d \<Rightarrow>
          return_on_shutdown (pe_shutdown e 1) s
          (if \<not> is_disabled args BlocksTable \<and> \<not> is_excluded args BlockTimestamp then
             subtract e (min_retention d (retention_blocks cfg)) s (\<lambda>cutoff.
             prune_step e ''blocks_transactions (b)''
               (\<lambda>t. prune_blocks_transactions_using_blocks (pe_pick e) t (prune_batch_size (pruning args)))
               cutoff s)
           else
             subtract e (min_retention d (retention_transactions cfg)) s (\<lambda>cutoff.
             prune_step e ''blocks_transactions (t)''
               (\<lambda>t. prune_blocks_transactions_using_transactions (pe_pick e) t
                      (prune_batch_size (pruning args)))
               cutoff s)))"

definition prune_blocks_part ::
  "prune_env \<Rightarrow> cli_args \<Rightarrow> pruning_config \<Rightarrow> prune_state \<Rightarrow> prune_end" where
  "prune_blocks_part e args cfg s =
     (case retention_blocks cfg of None \<Rightarrow> Goes s
      | Some d \<Rightarrow>
          subtract e d s (\<lambda>cutoff.
          return_on_shutdown (pe_shutdown e 2) s
          (and_then (prune_step e ''blocks''
             (\<lambda>t. prune_blocks (pe_pick e) t (prune_batch_size (pruning args))) cutoff s) (\<lambda>s.
           if is_disabled args TransactionAcceptance \<and> \<not> is_disabled args BlocksTable
              \<and> \<not> is_excluded args BlockTimestamp
           then return_on_shutdown (pe_shutdown e 3) s
             (prune_step e ''transactions_acceptances (b)''
               (\<lambda>t. prune_transactions_acceptances_using_blocks (pe_pick e) t
                      (prune_batch_size (pruning args)))
               cutoff s)
           else Goes s))))"

text \<open>The checkpoint's timestamp is compared with \<open>timestamp_millis() as u64\<close>.\<close>

definition pruning_point_is_passed :: "int \<Rightarrow> metrics \<Rightarrow> bool" where
  "pruning_point_is_passed cutoff m = (case mc_block (me_checkpoint m) of None \<Rightarrow> False
     | Some b \<Rightarrow> word_of_int (timestamp_millis cutoff) < mb_timestamp b)"

definition prune_transactions_part ::
  "prune_env \<Rightarrow> cli_args \<Rightarrow> pruning_config \<Rightarrow> prune_state \<Rightarrow> prune_end" where
  "prune_transactions_part e args cfg s =
     (case retention_transactions cfg of None \<Rightarrow> Goes s
      | Some d \<Rightarrow>
          subtract e d s (\<lambda>cutoff.
          return_on_shutdown (pe_shutdown e 4) s
          (if pruning_point_is_passed cutoff (ps_metrics s)
           then prune_step e ''transactions''
             (\<lambda>t. prune_transactions (pe_pick e) t (prune_batch_size (pruning args))) cutoff s
           else Goes s)))"

definition prune_addresses_part ::
  "prune_env \<Rightarrow> cli_args \<Rightarrow> pruning_config \<Rightarrow> prune_state \<Rightarrow> prune_end" where
  "prune_addresses_part e args cfg s =
     (case retention_addresses_transactions cfg of None \<Rightarrow> Goes s
      | Some d \<Rightarrow>
          subtract e d s (\<lambda>cutoff.
          return_on_shutdown (pe_shutdown e 5) s
          (if \<not> is_excluded args TxOutScriptPublicKeyAddress
           then prune_step e ''addresses_transactions''
             (\<lambda>t. prune_addresses_transactions (pe_pick e) t (prune_batch_size (pruning args))) cutoff s
           else prune_step e ''scripts_transactions''
             (\<lambda>t. prune_scripts_transactions (pe_pick e) t (prune_batch_size (pruning args))) cutoff s)))"

definition prune_finish :: "prune_env \<Rightarrow> prune_state \<Rightarrow> prune_state" where
  "prune_finish e s = map_pruner (\<lambda>m. m\<lparr>md_running := Some False, md_completed_time := Some (now (pe_end e)),
     md_completed_successfully := Some (ps_errors s = 0)\<rparr>) s"

definition prune :: "prune_env \<Rightarrow> cli_args \<Rightarrow> pruning_config \<Rightarrow> prune_state \<Rightarrow> prune_end" where
  "prune e args cfg s =
     and_then (prune_block_parent_part e args cfg (prune_begin e s)) (\<lambda>s.
     and_then (prune_blocks_transactions_part e args cfg s) (\<lambda>s.
     and_then (prune_blocks_part e args cfg s) (\<lambda>s.
     and_then (prune_transactions_part e args cfg s) (\<lambda>s.
     and_then (prune_addresses_part e args cfg s) (\<lambda>s.
     Goes (prune_finish e s))))))"

text \<open>
  \<open>pruner\<close> before it starts the scheduler, whose job is \<open>prune\<close> with the resolved
  configuration: the metrics it publishes. \<open>show_duration\<close> is humantime's.
\<close>

definition format_duration :: "(duration \<Rightarrow> string) \<Rightarrow> duration option \<Rightarrow> string option" where
  "format_duration show_duration d = map_option show_duration d"

definition pruner :: "(duration \<Rightarrow> string) \<Rightarrow> cli_args \<Rightarrow> metrics \<Rightarrow> metrics \<times> pruning_config option" where
  "pruner show_duration args m =
     (case prune_db (pruning args) of None \<Rightarrow> (m, None)
      | Some cron \<Rightarrow>
          let cfg = resolved (pruning args) in
          (m\<lparr>me_db_pruner := (me_db_pruner m)\<lparr>md_enabled := True, md_cron := Some cron,
             md_retention := Some [
               ''block_parent'' \<mapsto> format_duration show_duration (retention_block_parent cfg),
               ''blocks_transactions'' \<mapsto> format_duration show_duration (retention_blocks_transactions cfg),
               ''blocks'' \<mapsto> format_duration show_duration (retention_blocks cfg),
               ''transactions'' \<mapsto> format_duration show_duration (retention_transactions cfg),
               ''addresses_transactions''
                 \<mapsto> format_duration show_duration (retention_addresses_transactions cfg)]\<rparr>\<rparr>,
           Some cfg))"

end
