(* ===== verification/Prune_Props.thy ===== *)
theory Prune_Props
  imports Prune Balances_Props
begin

text \<open>
  Properties of a prune run: it ends, it leaves no relation of a pruned block behind, it never
  prunes transactions ahead of the checkpoint in the metrics, and its report is true.
\<close>

section \<open>Outcomes\<close>

text \<open>The state an outcome leaves.\<close>

fun final :: "prune_end \<Rightarrow> prune_state option" where
  "final Diverges = None"
| "final (Panics m s) = Some s"
| "final (ShutDown s) = Some s"
| "final (Goes s) = Some s"

abbreviation db_of :: "prune_state \<Rightarrow> db" where
  "db_of s \<equiv> data (ps_pool s)"

abbreviation goes_or :: "(db \<Rightarrow> bool) \<Rightarrow> prune_end \<Rightarrow> bool" where
  "goes_or J r \<equiv> \<forall>s. final r = Some s \<longrightarrow> J (db_of s)"

lemma final_and_then:
  assumes "goes_or J r" "\<And>s. r = Goes s \<Longrightarrow> J (db_of s) \<Longrightarrow> goes_or J (f s)"
  shows "goes_or J (and_then r f)"
  using assms by (cases r) auto

lemma and_then_Goes_iff: "and_then r f = Goes s' \<longleftrightarrow> (\<exists>s. r = Goes s \<and> f s = Goes s')"
  by (cases r) auto

lemma and_then_Diverges_iff: "and_then r f = Diverges \<longleftrightarrow> r = Diverges \<or> (\<exists>s. r = Goes s \<and> f s = Diverges)"
  by (cases r) auto

lemma subtract_final: "goes_or J (f (now (pe_start e) - int d)) \<Longrightarrow> J (db_of s) \<Longrightarrow> goes_or J (subtract e d s f)"
  by (simp add: subtract_def)

lemma subtract_Goes_iff [simp]: "subtract e d s f = Goes s' \<longleftrightarrow>
    pe_holds e (now (pe_start e)) d \<and> f (now (pe_start e) - int d) = Goes s'"
  by (simp add: subtract_def)

lemma subtract_Diverges [simp]: "subtract e d s f = Diverges \<longleftrightarrow>
    pe_holds e (now (pe_start e)) d \<and> f (now (pe_start e) - int d) = Diverges"
  by (simp add: subtract_def)

lemma shutdown_final: "goes_or J r \<Longrightarrow> J (db_of s) \<Longrightarrow> goes_or J (return_on_shutdown b s r)"
  by (simp add: return_on_shutdown_def)

lemma shutdown_Goes_iff [simp]: "return_on_shutdown b s r = Goes s' \<longleftrightarrow> \<not> b \<and> r = Goes s'"
  by (simp add: return_on_shutdown_def)

lemma shutdown_Diverges [simp]: "return_on_shutdown b s r = Diverges \<longleftrightarrow> \<not> b \<and> r = Diverges"
  by (simp add: return_on_shutdown_def)

lemma map_pruner_pool [simp]: "ps_pool (map_pruner f s) = ps_pool s" "ps_errors (map_pruner f s) = ps_errors s"
  by (simp_all add: map_pruner_def)

lemma put_result_pool: "put_result n r s = Some s' \<Longrightarrow> ps_pool s' = ps_pool s \<and> ps_errors s' = ps_errors s"
  by (auto simp: put_result_def split: option.splits)

lemma prune_step_final:
  assumes "final (prune_step e name call cutoff s) = Some s'"
  shows "ps_pool s' = ps_pool s
    \<or> (\<exists>r. call (timestamp_millis cutoff) (ps_pool s) = Some (r, ps_pool s'))"
  using assms unfolding prune_step_def Let_def
  by (auto split: option.splits if_splits dest!: put_result_pool)

lemma prune_step_Goes:
  assumes "prune_step e name call cutoff s = Goes s'"
  shows "\<exists>r. call (timestamp_millis cutoff) (ps_pool s) = Some (r, ps_pool s')"
  using assms unfolding prune_step_def Let_def
  by (auto split: option.splits if_splits dest!: put_result_pool)

lemma prune_step_Diverges:
  assumes "prune_step e name call cutoff s = Diverges"
  shows "call (timestamp_millis cutoff) (ps_pool s) = None"
  using assms unfolding prune_step_def Let_def
  by (auto split: option.splits if_splits dest!: put_result_pool)

text \<open>What a step's statement keeps, the step keeps.\<close>

lemma step_keeps:
  assumes "J (db_of s)" "\<And>t r p'. call t (ps_pool s) = Some (r, p') \<Longrightarrow> J (data p')"
  shows "goes_or J (prune_step e name call cutoff s)"
proof (intro allI impI)
  fix s' assume "final (prune_step e name call cutoff s) = Some s'"
  from prune_step_final [OF this] assms show "J (db_of s')" by metis
qed

section \<open>The run ends\<close>

context aged_table
begin

lemma loop_some:
  assumes "limit_ok pick"
  shows "prune_loop (execute (delete_limited pick b (candidates c) rows with_rows)) 0 p \<noteq> None"
  using prune_loop_ends [OF assms, of b c 0 p] by auto

end

lemma step_ends: "(\<And>t p. call t p \<noteq> None) \<Longrightarrow> prune_step e name call cutoff s \<noteq> Diverges"
  using prune_step_Diverges by blast

lemma aged_some:
  assumes "limit_ok pick"
  shows "prune_block_parent pick c b p \<noteq> None" "prune_blocks_transactions_using_blocks pick c b p \<noteq> None"
    "prune_blocks_transactions_using_transactions pick c b p \<noteq> None" "prune_blocks pick c b p \<noteq> None"
    "prune_transactions_acceptances_using_blocks pick c b p \<noteq> None"
    "prune_addresses_transactions pick c b p \<noteq> None" "prune_scripts_transactions pick c b p \<noteq> None"
    "prune_transactions pick c b p \<noteq> None"
  unfolding prune_block_parent_def prune_blocks_transactions_using_blocks_def
      prune_blocks_transactions_using_transactions_def prune_blocks_def
      prune_transactions_acceptances_using_blocks_def prune_addresses_transactions_def
      prune_scripts_transactions_def
  by (rule prune_bp.loop_some [OF assms] prune_btb.loop_some [OF assms] prune_btt.loop_some [OF assms]
      prune_b.loop_some [OF assms] prune_ta.loop_some [OF assms] prune_at.loop_some [OF assms]
      prune_st.loop_some [OF assms])+ (use prune_transactions_some [OF assms, of c b p] in auto)

text \<open>C32: a prune run always ends, whatever the database, the failures of its statements, the rows the
  server picks and the moment of a shutdown: none of its loops runs forever.\<close>

theorem prune_ends:
  assumes "limit_ok (pe_pick e)"
  shows "prune e args cfg s \<noteq> Diverges"
proof -
  note some = aged_some [OF assms]
  have step: "prune_step e name (\<lambda>t. f (pe_pick e) t b) c s = Diverges \<longleftrightarrow> False"
    if "\<And>t p. f (pe_pick e) t b p \<noteq> None" for f name b c s
    using step_ends [of "\<lambda>t. f (pe_pick e) t b"] that by blast
  have parts: "prune_block_parent_part e args cfg s \<noteq> Diverges"
    "prune_blocks_transactions_part e args cfg s \<noteq> Diverges" "prune_blocks_part e args cfg s \<noteq> Diverges"
    "prune_transactions_part e args cfg s \<noteq> Diverges" "prune_addresses_part e args cfg s \<noteq> Diverges" for s
    by (simp_all add: prune_block_parent_part_def prune_blocks_transactions_part_def prune_blocks_part_def
        prune_transactions_part_def prune_addresses_part_def and_then_Diverges_iff
        step [of prune_block_parent, OF some(1)] step [of prune_blocks_transactions_using_blocks, OF some(2)]
        step [of prune_blocks_transactions_using_transactions, OF some(3)] step [of prune_blocks, OF some(4)]
        step [of prune_transactions_acceptances_using_blocks, OF some(5)]
        step [of prune_addresses_transactions, OF some(6)] step [of prune_scripts_transactions, OF some(7)]
        step [of prune_transactions, OF some(8)] split: option.split)
  show ?thesis by (simp add: prune_def and_then_Diverges_iff parts)
qed

section \<open>What each statement may change\<close>

text \<open>The blocks and the rows that refer to blocks are left alone by the later steps.\<close>

definition block_side :: "db \<Rightarrow> block_row list \<times> block_parent_row list \<times> block_transaction_row list" where
  "block_side d = (t_blocks d, t_block_parent d, t_blocks_transactions d)"

lemma chunk_block_side:
  assumes "prune_transactions_chunk pick c b p = (r, p')"
  shows "block_side (data p') = block_side (data p)"
proof (cases r)
  case (Inl e)
  then show ?thesis using assms chunk_error [of pick c b p e p'] by simp
next
  case (Inr n)
  with assms have "prune_transactions_chunk pick c b p = (Inr n, p')" by simp
  then show ?thesis
    by (rule chunk_Inr) (simp add: chunk_effect_def block_side_def)
qed

lemma transactions_block_side:
  assumes "prune_transactions pick c b p = Some (r, p')"
  shows "block_side (data p') = block_side (data p)"
proof -
  have "block_side (data p') = block_side (data p)"
  proof (rule prune_loop_rule [where I = "\<lambda>d. block_side d = block_side (data p)"])
    show "prune_loop (prune_transactions_chunk pick c b) 0 p = Some (r, p')"
      using assms by (simp add: prune_transactions_def)
    show "block_side (data q') = block_side (data p)"
      if "prune_transactions_chunk pick c b q = (x, q')" "block_side (data q) = block_side (data p)" for q x q'
      using chunk_block_side [OF that(1)] that(2) by simp
  qed simp
  then show ?thesis .
qed

lemma side_statements:
  assumes "limit_ok pick"
  shows "prune_transactions_acceptances_using_blocks pick c b p = Some (r, p') \<Longrightarrow> block_side (data p') = block_side (data p)"
    "prune_addresses_transactions pick c b p = Some (r, p') \<Longrightarrow> block_side (data p') = block_side (data p)"
    "prune_scripts_transactions pick c b p = Some (r, p') \<Longrightarrow> block_side (data p') = block_side (data p)"
  unfolding prune_transactions_acceptances_using_blocks_def prune_addresses_transactions_def
    prune_scripts_transactions_def
  by (erule prune_ta.loop_result [OF assms] prune_at.loop_result [OF assms] prune_st.loop_result [OF assms];
      simp add: block_side_def)+

lemma later_parts_keep:
  assumes "limit_ok (pe_pick e)" "\<And>d d'. block_side d' = block_side d \<Longrightarrow> J d \<Longrightarrow> J d'" "J (db_of s)"
  shows "goes_or J (prune_transactions_part e args cfg s)" "goes_or J (prune_addresses_part e args cfg s)"
proof -
  have 1: "goes_or J (prune_step e name (\<lambda>t. prune_transactions (pe_pick e) t b) c s)" for name b c
    by (rule step_keeps [of J]) (use assms transactions_block_side in blast)+
  have 2: "goes_or J (prune_step e name (\<lambda>t. prune_addresses_transactions (pe_pick e) t b) c s)" for name b c
    by (rule step_keeps [of J]) (use assms side_statements in blast)+
  have 3: "goes_or J (prune_step e name (\<lambda>t. prune_scripts_transactions (pe_pick e) t b) c s)" for name b c
    by (rule step_keeps [of J]) (use assms side_statements in blast)+
  show "goes_or J (prune_transactions_part e args cfg s)"
    using 1 assms(3) unfolding prune_transactions_part_def
    by (cases "retention_transactions cfg") (simp_all add: subtract_def return_on_shutdown_def)
  show "goes_or J (prune_addresses_part e args cfg s)"
    using 2 3 assms(3) unfolding prune_addresses_part_def
    by (cases "retention_addresses_transactions cfg") (simp_all add: subtract_def return_on_shutdown_def)
qed

section \<open>No reference to a pruned block is left behind\<close>

text \<open>
  \<open>refs\<close> names the blocks a table refers to. Either no block has gone, or every block the
  table still refers to is there.
\<close>

definition refs_kept :: "block_row set \<Rightarrow> (db \<Rightarrow> hash set) \<Rightarrow> db \<Rightarrow> bool" where
  "refs_kept B refs d \<longleftrightarrow> set (t_blocks d) = B \<or>
     (\<forall>b\<in>B. blk_hash b \<in> refs d \<longrightarrow> b \<in> set (t_blocks d))"

definition refs_young :: "block_row set \<Rightarrow> int \<Rightarrow> (db \<Rightarrow> hash set) \<Rightarrow> db \<Rightarrow> bool" where
  "refs_young B c refs d \<longleftrightarrow> set (t_blocks d) = B \<and>
     (\<forall>b\<in>B. blk_hash b \<in> refs d \<longrightarrow> \<not> older c (blk_timestamp b))"

text \<open>
  The blocks that rows of the two relation tables belong to: the child of a parent relation, the
  block of a transaction relation. The parent a relation names is not looked at, by the code
  either: a relation that stays may name a block that is gone.
\<close>

abbreviation child_refs :: "db \<Rightarrow> hash set" where
  "child_refs d \<equiv> bp_block_hash ` set (t_block_parent d)"

abbreviation tx_refs :: "db \<Rightarrow> hash set" where
  "tx_refs d \<equiv> bt_block_hash ` set (t_blocks_transactions d)"

lemma older_mono: "older c t \<Longrightarrow> c \<le> c' \<Longrightarrow> older c' t"
  by (auto simp: older_def split: option.splits)

lemma cutoff_mono: "c \<le> c' \<Longrightarrow> timestamp_millis c \<le> timestamp_millis c'"
  unfolding timestamp_millis_def by (rule zdiv_mono1) simp_all

lemma min_retention_le: "min_retention d (Some d') \<le> d'"
  by (simp add: min_retention_def)

lemma parent_prune:
  assumes "limit_ok pick" "healthy p" "0 < b" "prune_block_parent pick c b p = Some (r, p')"
  shows "healthy p'" "t_blocks (data p') = t_blocks (data p)"
    "t_blocks_transactions (data p') = t_blocks_transactions (data p)"
    "refs_young (set (t_blocks (data p))) c child_refs (data p')"
  using assms(4) unfolding prune_block_parent_def
  by (rule prune_bp.loop_result [OF assms(1)]; use assms(2,3) in \<open>auto simp: refs_young_def\<close>)+

lemma tx_prune:
  assumes "limit_ok pick" "healthy p" "0 < b" "prune_blocks_transactions_using_blocks pick c b p = Some (r, p')"
  shows "healthy p'" "t_blocks (data p') = t_blocks (data p)"
    "t_block_parent (data p') = t_block_parent (data p)"
    "refs_young (set (t_blocks (data p))) c tx_refs (data p')"
  using assms(4) unfolding prune_blocks_transactions_using_blocks_def
  by (rule prune_btb.loop_result [OF assms(1)]; use assms(2,3) in \<open>auto simp: refs_young_def\<close>)+

lemma blocks_prune:
  assumes "limit_ok pick" "prune_blocks pick c b p = Some (r, p')"
  shows "t_block_parent (data p') = t_block_parent (data p)"
    "t_blocks_transactions (data p') = t_blocks_transactions (data p)"
    "\<And>x. x \<in> set (t_blocks (data p)) \<Longrightarrow> \<not> older c (blk_timestamp x) \<Longrightarrow> x \<in> set (t_blocks (data p'))"
proof -
  from prune_b.loop_result [OF assms(1) assms(2) [unfolded prune_blocks_def]] obtain t where t:
    "data p' = data p\<lparr>t_blocks := t\<rparr>"
    "filter (\<lambda>x. \<not> older c (blk_timestamp x)) t = filter (\<lambda>x. \<not> older c (blk_timestamp x)) (t_blocks (data p))"
    by blast
  then show "t_block_parent (data p') = t_block_parent (data p)"
    "t_blocks_transactions (data p') = t_blocks_transactions (data p)" by simp_all
  show "x \<in> set (t_blocks (data p'))" if "x \<in> set (t_blocks (data p))" "\<not> older c (blk_timestamp x)" for x
  proof -
    have "x \<in> set (filter (\<lambda>x. \<not> older c (blk_timestamp x)) t)"
      unfolding t(2) using that by simp
    then show ?thesis using t(1) by simp
  qed
qed

lemma refs_young_mono: "refs_young B c refs d \<Longrightarrow> c' \<le> c \<Longrightarrow> refs_young B c' refs d"
  unfolding refs_young_def using older_mono by blast

text \<open>The cutoff of the blocks, when blocks are pruned.\<close>

definition blocks_cutoff :: "prune_env \<Rightarrow> duration \<Rightarrow> int" where
  "blocks_cutoff e d = timestamp_millis (now (pe_start e) - int d)"

lemma min_cutoff: "blocks_cutoff e d' \<le> timestamp_millis (now (pe_start e) - int (min_retention d (Some d')))"
  unfolding blocks_cutoff_def by (rule cutoff_mono) (use min_retention_le [of d d'] in simp)

lemma parent_part:
  assumes "limit_ok (pe_pick e)" "healthy (ps_pool s)" "0 < prune_batch_size (pruning args)"
  shows "goes_or (\<lambda>d. t_blocks d = t_blocks (db_of s)) (prune_block_parent_part e args cfg s)"
    and "prune_block_parent_part e args cfg s = Goes s' \<Longrightarrow> retention_block_parent cfg \<noteq> None \<Longrightarrow>
      healthy (ps_pool s') \<and> t_blocks (db_of s') = t_blocks (db_of s)
      \<and> (\<forall>d. retention_blocks cfg = Some d \<longrightarrow>
           refs_young (set (t_blocks (db_of s))) (blocks_cutoff e d) child_refs (db_of s'))"
proof -
  note st = parent_prune [OF assms]
  have 1: "goes_or (\<lambda>d. t_blocks d = t_blocks (db_of s))
      (prune_step e n (\<lambda>t. prune_block_parent (pe_pick e) t (prune_batch_size (pruning args))) c s)" for n c
    by (rule step_keeps) (use st(2) in blast)+
  then show "goes_or (\<lambda>d. t_blocks d = t_blocks (db_of s)) (prune_block_parent_part e args cfg s)"
    unfolding prune_block_parent_part_def
    by (cases "retention_block_parent cfg") (simp_all add: subtract_def return_on_shutdown_def)
  assume r: "prune_block_parent_part e args cfg s = Goes s'" "retention_block_parent cfg \<noteq> None"
  then obtain d where d: "retention_block_parent cfg = Some d" by blast
  from r(1) obtain x where x: "prune_block_parent (pe_pick e)
      (timestamp_millis (now (pe_start e) - int (min_retention d (retention_blocks cfg))))
      (prune_batch_size (pruning args)) (ps_pool s) = Some (x, ps_pool s')"
    unfolding prune_block_parent_part_def d by (auto dest: prune_step_Goes)
  show "healthy (ps_pool s') \<and> t_blocks (db_of s') = t_blocks (db_of s)
      \<and> (\<forall>d. retention_blocks cfg = Some d \<longrightarrow>
           refs_young (set (t_blocks (db_of s))) (blocks_cutoff e d) child_refs (db_of s'))"
    using st(1,2,4) [OF x] refs_young_mono min_cutoff by auto
qed

lemma tx_part:
  assumes "limit_ok (pe_pick e)" "healthy (ps_pool s)" "0 < prune_batch_size (pruning args)"
    and "\<not> is_disabled args BlocksTable" "\<not> is_excluded args BlockTimestamp"
  shows "goes_or (\<lambda>d. t_blocks d = t_blocks (db_of s)) (prune_blocks_transactions_part e args cfg s)"
    and "prune_blocks_transactions_part e args cfg s = Goes s' \<Longrightarrow> retention_blocks_transactions cfg \<noteq> None \<Longrightarrow>
      t_blocks (db_of s') = t_blocks (db_of s) \<and> t_block_parent (db_of s') = t_block_parent (db_of s)
      \<and> (\<forall>d. retention_blocks cfg = Some d \<longrightarrow>
           refs_young (set (t_blocks (db_of s))) (blocks_cutoff e d) tx_refs (db_of s'))"
proof -
  note st = tx_prune [OF assms(1-3)]
  have 1: "goes_or (\<lambda>d. t_blocks d = t_blocks (db_of s))
      (prune_step e n (\<lambda>t. prune_blocks_transactions_using_blocks (pe_pick e) t
         (prune_batch_size (pruning args))) c s)" for n c
    by (rule step_keeps) (use st(2) in blast)+
  then show "goes_or (\<lambda>d. t_blocks d = t_blocks (db_of s)) (prune_blocks_transactions_part e args cfg s)"
    using assms(4,5) unfolding prune_blocks_transactions_part_def
    by (cases "retention_blocks_transactions cfg") (simp_all add: subtract_def return_on_shutdown_def)
  assume r: "prune_blocks_transactions_part e args cfg s = Goes s'" "retention_blocks_transactions cfg \<noteq> None"
  then obtain d where d: "retention_blocks_transactions cfg = Some d" by blast
  from r(1) obtain x where x: "prune_blocks_transactions_using_blocks (pe_pick e)
      (timestamp_millis (now (pe_start e) - int (min_retention d (retention_blocks cfg))))
      (prune_batch_size (pruning args)) (ps_pool s) = Some (x, ps_pool s')"
    using assms(4,5) unfolding prune_blocks_transactions_part_def d by (auto dest: prune_step_Goes)
  show "t_blocks (db_of s') = t_blocks (db_of s) \<and> t_block_parent (db_of s') = t_block_parent (db_of s)
      \<and> (\<forall>d. retention_blocks cfg = Some d \<longrightarrow>
           refs_young (set (t_blocks (db_of s))) (blocks_cutoff e d) tx_refs (db_of s'))"
    using st(2,3,4) [OF x] refs_young_mono min_cutoff by auto
qed

lemma blocks_part:
  assumes "limit_ok (pe_pick e)" "set (t_blocks (db_of s)) = B"
    and "\<forall>d. retention_blocks cfg = Some d \<longrightarrow>
      refs_young B (blocks_cutoff e d) child_refs (db_of s) \<and> refs_young B (blocks_cutoff e d) tx_refs (db_of s)"
  defines "J \<equiv> \<lambda>d. refs_kept B child_refs d \<and> refs_kept B tx_refs d"
  shows "goes_or J (prune_blocks_part e args cfg s)"
proof (cases "retention_blocks cfg")
  case None
  then show ?thesis using assms(2) by (simp add: prune_blocks_part_def J_def refs_kept_def)
next
  case (Some d)
  have J: "J (db_of s)" using assms(2) by (simp add: J_def refs_kept_def)
  have after: "J (data p')"
    if r: "prune_blocks (pe_pick e) (blocks_cutoff e d) b (ps_pool s) = Some (r, p')" for b r p'
    using blocks_prune [OF assms(1) r] assms(2) assms(3) [rule_format, OF Some]
    unfolding J_def refs_kept_def refs_young_def by auto
  have "goes_or J (prune_step e n (\<lambda>t. prune_blocks (pe_pick e) t b) (now (pe_start e) - int d) s)" for n b
  proof (intro allI impI)
    fix s' assume "final (prune_step e n (\<lambda>t. prune_blocks (pe_pick e) t b) (now (pe_start e) - int d) s) = Some s'"
    from prune_step_final [OF this] after J show "J (db_of s')"
      unfolding blocks_cutoff_def by metis
  qed
  note blocks_step = this
  have ta_step: "goes_or J (prune_step e n (\<lambda>t. prune_transactions_acceptances_using_blocks (pe_pick e) t b) c s1)"
    if "J (db_of s1)" for n b c s1
  proof (rule step_keeps [of J, OF that])
    fix t r p' assume "prune_transactions_acceptances_using_blocks (pe_pick e) t b (ps_pool s1) = Some (r, p')"
    from side_statements(1) [OF assms(1) this] that show "J (data p')"
      by (simp add: J_def refs_kept_def block_side_def)
  qed
  have "goes_or J (and_then (prune_step e n (\<lambda>t. prune_blocks (pe_pick e) t b) (now (pe_start e) - int d) s)
      (\<lambda>s. if P then return_on_shutdown sd s (prune_step e n' (\<lambda>t.
         prune_transactions_acceptances_using_blocks (pe_pick e) t b) c s) else Goes s))" for n n' b c P sd
    by (rule final_and_then [OF blocks_step]) (use ta_step in \<open>cases P; simp add: return_on_shutdown_def\<close>)
  then show ?thesis
    using J unfolding prune_blocks_part_def Some option.case
    by (intro subtract_final shutdown_final)
qed

text \<open>C11: pruning leaves no relation of a pruned block behind: on a healthy connection, with both a retention of
  the parent relations and one of the transaction relations set, a positive batch size, the
  blocks table enabled and the block timestamp not excluded, however long each retention is, once the run is
  over, or was cut short by a shutdown or a panic, every block of before whose own parent relations
  or transaction relations are still there is still there too. The code's minimum of the retentions is
  what this rests on. The relation of a younger block may name a pruned block as its parent.\<close>

theorem prune_keeps_references:
  assumes "limit_ok (pe_pick e)" "healthy (ps_pool s)" "0 < prune_batch_size (pruning args)"
    and "retention_block_parent cfg \<noteq> None" "retention_blocks_transactions cfg \<noteq> None"
    and "\<not> is_disabled args BlocksTable" "\<not> is_excluded args BlockTimestamp"
    and "final (prune e args cfg s) = Some s'" "b \<in> set (t_blocks (db_of s))"
    and "blk_hash b \<in> child_refs (db_of s') \<union> tx_refs (db_of s')"
  shows "b \<in> set (t_blocks (db_of s'))"
proof -
  let ?B = "set (t_blocks (db_of s))"
  let ?J = "\<lambda>d. refs_kept ?B child_refs d \<and> refs_kept ?B tx_refs d"
  let ?s0 = "prune_begin e s"
  have pool0: "ps_pool ?s0 = ps_pool s" by (simp add: prune_begin_def)
  have same: "?J d" if "t_blocks d = t_blocks (db_of s)" for d using that by (simp add: refs_kept_def)
  note p1 = parent_part [OF assms(1), of ?s0 args cfg, unfolded pool0, OF assms(2,3)]
  have J45: "?J d \<Longrightarrow> block_side d' = block_side d \<Longrightarrow> ?J d'" for d d'
    by (simp add: refs_kept_def block_side_def)
  have "goes_or ?J (prune e args cfg s)"
    unfolding prune_def
  proof (rule final_and_then)
    show "goes_or ?J (prune_block_parent_part e args cfg ?s0)" using p1(1) same by blast
  next
    fix s1 assume "prune_block_parent_part e args cfg ?s0 = Goes s1"
    from p1(2) [OF this assms(4)]
    have s1: "healthy (ps_pool s1)" "t_blocks (db_of s1) = t_blocks (db_of s)"
      "\<forall>d. retention_blocks cfg = Some d \<longrightarrow> refs_young ?B (blocks_cutoff e d) child_refs (db_of s1)" by auto
    note p2 = tx_part [OF assms(1) s1(1) assms(3,6,7), of cfg, unfolded s1(2)]
    show "goes_or ?J (and_then (prune_blocks_transactions_part e args cfg s1) (\<lambda>s.
        and_then (prune_blocks_part e args cfg s) (\<lambda>s. and_then (prune_transactions_part e args cfg s) (\<lambda>s.
        and_then (prune_addresses_part e args cfg s) (\<lambda>s. Goes (prune_finish e s))))))"
    proof (rule final_and_then)
      show "goes_or ?J (prune_blocks_transactions_part e args cfg s1)" using p2(1) same by blast
    next
      fix s2 assume "prune_blocks_transactions_part e args cfg s1 = Goes s2"
      from p2(2) [OF this assms(5)] s1(3)
      have s2: "set (t_blocks (db_of s2)) = ?B" "\<forall>d. retention_blocks cfg = Some d \<longrightarrow>
          refs_young ?B (blocks_cutoff e d) child_refs (db_of s2)
          \<and> refs_young ?B (blocks_cutoff e d) tx_refs (db_of s2)"
        by (simp_all add: refs_young_def)
      show "goes_or ?J (and_then (prune_blocks_part e args cfg s2) (\<lambda>s.
          and_then (prune_transactions_part e args cfg s) (\<lambda>s.
          and_then (prune_addresses_part e args cfg s) (\<lambda>s. Goes (prune_finish e s)))))"
        by (intro final_and_then blocks_part [OF assms(1) s2] later_parts_keep [OF assms(1) J45])
          (simp_all add: prune_finish_def)
    qed
  qed
  then show ?thesis
    using assms(8-10) unfolding refs_kept_def by blast
qed

section \<open>Transactions wait for the checkpoint\<close>

lemma chunk_keeps_young_txs:
  assumes "limit_ok pick" "prune_transactions_chunk pick c b p = (r, p')"
    and "t \<in> set (t_transactions (data p))" "\<not> older c (tx_block_time t)"
  shows "t \<in> set (t_transactions (data p'))"
proof (cases r)
  case (Inl e)
  then show ?thesis using assms chunk_error [of pick c b p e p'] by simp
next
  case (Inr n)
  with assms(2) have "prune_transactions_chunk pick c b p = (Inr n, p')" by simp
  then obtain ctids rejected accepted spent where st:
    "ctids = pick (nat b) (own_old tx_block_time c (t_transactions (data p)))"
    "data p' = chunk_effect ctids rejected accepted spent (data p)"
    by (rule chunk_Inr)
  have "set ctids \<subseteq> set (own_old tx_block_time c (t_transactions (data p)))"
    unfolding st(1) by (rule limit_ok_set [OF assms(1)])
  then have "\<forall>i\<in>set ctids. older c (tx_block_time (t_transactions (data p) ! i))"
    by (auto simp: set_own_old)
  from filter_drop_at [of ctids "\<lambda>t. older c (tx_block_time t)", OF this]
  have "t \<in> set (filter (\<lambda>t. \<not> older c (tx_block_time t)) (drop_at ctids (t_transactions (data p))))"
    using assms(3,4) by simp
  then show ?thesis by (simp add: st(2) chunk_effect_def)
qed

lemma prune_keeps_young_txs:
  assumes "limit_ok pick" "prune_transactions pick c b p = Some (r, p')"
    and "t \<in> set (t_transactions (data p))" "\<not> older c (tx_block_time t)"
  shows "t \<in> set (t_transactions (data p'))"
  by (rule prune_loop_rule [where I = "\<lambda>d. t \<in> set (t_transactions d)",
        OF chunk_keeps_young_txs [OF assms(1)] assms(2) [unfolded prune_transactions_def] assms(3)])
    (use assms(4) in auto)

lemma aged_keep_txs:
  assumes "limit_ok pick"
  shows "prune_block_parent pick c b p = Some (r, p') \<Longrightarrow> t_transactions (data p') = t_transactions (data p)"
    "prune_blocks_transactions_using_blocks pick c b p = Some (r, p') \<Longrightarrow> t_transactions (data p') = t_transactions (data p)"
    "prune_blocks_transactions_using_transactions pick c b p = Some (r, p') \<Longrightarrow> t_transactions (data p') = t_transactions (data p)"
    "prune_blocks pick c b p = Some (r, p') \<Longrightarrow> t_transactions (data p') = t_transactions (data p)"
    "prune_transactions_acceptances_using_blocks pick c b p = Some (r, p') \<Longrightarrow> t_transactions (data p') = t_transactions (data p)"
    "prune_addresses_transactions pick c b p = Some (r, p') \<Longrightarrow> t_transactions (data p') = t_transactions (data p)"
    "prune_scripts_transactions pick c b p = Some (r, p') \<Longrightarrow> t_transactions (data p') = t_transactions (data p)"
  unfolding prune_block_parent_def prune_blocks_transactions_using_blocks_def
    prune_blocks_transactions_using_transactions_def prune_blocks_def
    prune_transactions_acceptances_using_blocks_def prune_addresses_transactions_def
    prune_scripts_transactions_def
  by (erule prune_bp.loop_result [OF assms] prune_btb.loop_result [OF assms] prune_btt.loop_result [OF assms]
      prune_b.loop_result [OF assms] prune_ta.loop_result [OF assms] prune_at.loop_result [OF assms]
      prune_st.loop_result [OF assms]; simp)+

lemma step_keeps_tx:
  assumes "t \<in> set (t_transactions (db_of s))"
    and "\<And>c p r p'. f (pe_pick e) c b p = Some (r, p') \<Longrightarrow> t_transactions (data p') = t_transactions (data p)"
  shows "goes_or (\<lambda>d. t \<in> set (t_transactions d)) (prune_step e name (\<lambda>c. f (pe_pick e) c b) cutoff s)"
  by (rule step_keeps) (use assms in auto)

lemma other_parts_keep_txs:
  assumes "limit_ok (pe_pick e)" "t \<in> set (t_transactions (db_of s))"
  shows "goes_or (\<lambda>d. t \<in> set (t_transactions d)) (prune_block_parent_part e args cfg s)"
    "goes_or (\<lambda>d. t \<in> set (t_transactions d)) (prune_blocks_transactions_part e args cfg s)"
    "goes_or (\<lambda>d. t \<in> set (t_transactions d)) (prune_blocks_part e args cfg s)"
    "goes_or (\<lambda>d. t \<in> set (t_transactions d)) (prune_addresses_part e args cfg s)"
proof -
  let ?J = "\<lambda>d. t \<in> set (t_transactions d)"
  note keep = step_keeps_tx [of t _ prune_block_parent, OF _ aged_keep_txs(1) [OF assms(1)]]
    step_keeps_tx [of t _ prune_blocks_transactions_using_blocks, OF _ aged_keep_txs(2) [OF assms(1)]]
    step_keeps_tx [of t _ prune_blocks_transactions_using_transactions, OF _ aged_keep_txs(3) [OF assms(1)]]
    step_keeps_tx [of t _ prune_blocks, OF _ aged_keep_txs(4) [OF assms(1)]]
    step_keeps_tx [of t _ prune_transactions_acceptances_using_blocks, OF _ aged_keep_txs(5) [OF assms(1)]]
    step_keeps_tx [of t _ prune_addresses_transactions, OF _ aged_keep_txs(6) [OF assms(1)]]
    step_keeps_tx [of t _ prune_scripts_transactions, OF _ aged_keep_txs(7) [OF assms(1)]]
  show "goes_or ?J (prune_block_parent_part e args cfg s)"
    "goes_or ?J (prune_blocks_transactions_part e args cfg s)"
    "goes_or ?J (prune_addresses_part e args cfg s)"
    using keep(1-3,6,7) [OF assms(2)] assms(2)
    unfolding prune_block_parent_part_def prune_blocks_transactions_part_def prune_addresses_part_def
    by (simp_all add: subtract_def return_on_shutdown_def split: option.split)
  have ta_step: "goes_or ?J (prune_step e n (\<lambda>c. prune_transactions_acceptances_using_blocks (pe_pick e) c b) cut s1)"
    if "?J (db_of s1)" for n b cut s1 by (rule keep(5) [OF that])
  have "goes_or ?J (and_then (prune_step e n (\<lambda>c. prune_blocks (pe_pick e) c b) cut s)
      (\<lambda>s. if P then return_on_shutdown sd s (prune_step e n' (\<lambda>c.
         prune_transactions_acceptances_using_blocks (pe_pick e) c b) cut s) else Goes s))" for n n' b cut P sd
  proof (rule final_and_then [OF keep(4) [OF assms(2)]])
    fix s1 assume "?J (db_of s1)"
    with ta_step [OF this] show "goes_or ?J (if P then return_on_shutdown sd s1 (prune_step e n' (\<lambda>c.
         prune_transactions_acceptances_using_blocks (pe_pick e) c b) cut s1) else Goes s1)"
      by (cases P) (simp_all add: return_on_shutdown_def)
  qed
  then show "goes_or ?J (prune_blocks_part e args cfg s)"
    using assms(2) unfolding prune_blocks_part_def
    by (simp add: subtract_def return_on_shutdown_def split: option.split)
qed

text \<open>The checkpoint the pruner reads is the one the run began with.\<close>

abbreviation checkpoint_seen :: "prune_state \<Rightarrow> metrics_checkpoint" where
  "checkpoint_seen s \<equiv> me_checkpoint (ps_metrics s)"

lemma put_result_checkpoint: "put_result n r s = Some s' \<Longrightarrow> checkpoint_seen s' = checkpoint_seen s"
  by (auto simp: put_result_def map_pruner_def split: option.splits)

lemma prune_step_checkpoint:
  assumes "prune_step e name call cutoff s = Goes s'"
  shows "checkpoint_seen s' = checkpoint_seen s"
  using assms unfolding prune_step_def Let_def
  by (auto split: option.splits if_splits dest!: put_result_checkpoint)

lemma early_parts_checkpoint:
  "prune_block_parent_part e args cfg s = Goes s' \<Longrightarrow> checkpoint_seen s' = checkpoint_seen s"
  "prune_blocks_transactions_part e args cfg s = Goes s' \<Longrightarrow> checkpoint_seen s' = checkpoint_seen s"
  "prune_blocks_part e args cfg s = Goes s' \<Longrightarrow> checkpoint_seen s' = checkpoint_seen s"
  by (auto simp: prune_block_parent_part_def prune_blocks_transactions_part_def prune_blocks_part_def
      and_then_Goes_iff dest!: prune_step_checkpoint split: option.splits if_splits)

text \<open>A pruned transaction's time, against the checkpoint's.\<close>

definition before_checkpoint :: "metrics_checkpoint \<Rightarrow> transaction_row \<Rightarrow> bool" where
  "before_checkpoint m t \<longleftrightarrow> (case (mc_block m, tx_block_time t) of
     (Some b, Some x) \<Rightarrow> x < uint (mb_timestamp b) | _ \<Rightarrow> False)"

lemma passed_before_checkpoint:
  assumes "pruning_point_is_passed cutoff m" "older (timestamp_millis cutoff) (tx_block_time t)"
    and "timestamp_millis cutoff < 2 ^ 64"
  shows "before_checkpoint (me_checkpoint m) t"
proof -
  obtain b where b: "mc_block (me_checkpoint m) = Some b"
    "word_of_int (timestamp_millis cutoff) < mb_timestamp b"
    using assms(1) by (auto simp: pruning_point_is_passed_def split: option.splits)
  obtain x where x: "tx_block_time t = Some x" "x < timestamp_millis cutoff"
    using assms(2) by (auto simp: older_def split: option.splits)
  have "x < uint (mb_timestamp b)"
  proof (cases "0 \<le> timestamp_millis cutoff")
    case True
    then have "uint (word_of_int (timestamp_millis cutoff) :: u64) = timestamp_millis cutoff"
      using assms(3) by (simp add: uint_word_of_int)
    with b(2) x(2) show ?thesis by (simp add: word_less_def)
  next
    case False
    with x(2) show ?thesis using uint_ge_0 [of "mb_timestamp b"] by linarith
  qed
  with b x show ?thesis by (simp add: before_checkpoint_def)
qed

lemma transactions_part_keeps:
  assumes "limit_ok (pe_pick e)" "timestamp_millis (now (pe_start e)) < 2 ^ 63"
    and "t \<in> set (t_transactions (db_of s))" "\<not> before_checkpoint (checkpoint_seen s) t"
  shows "goes_or (\<lambda>d. t \<in> set (t_transactions d)) (prune_transactions_part e args cfg s)"
proof (cases "retention_transactions cfg")
  case None
  then show ?thesis using assms(3) by (simp add: prune_transactions_part_def)
next
  case (Some d)
  let ?c = "now (pe_start e) - int d"
  have small: "timestamp_millis ?c < 2 ^ 64"
    using cutoff_mono [of ?c "now (pe_start e)"] assms(2) by simp
  have "goes_or (\<lambda>d. t \<in> set (t_transactions d))
      (prune_step e n (\<lambda>c. prune_transactions (pe_pick e) c b) ?c s)"
    if "pruning_point_is_passed ?c (ps_metrics s)" for n b
  proof (intro allI impI)
    fix s' assume "final (prune_step e n (\<lambda>c. prune_transactions (pe_pick e) c b) ?c s) = Some s'"
    from prune_step_final [OF this] show "t \<in> set (t_transactions (db_of s'))"
      using prune_keeps_young_txs [OF assms(1) _ assms(3), of "timestamp_millis ?c"]
        passed_before_checkpoint [OF that _ small] assms(3,4) by metis
  qed
  then show ?thesis
    using assms(3) Some by (simp add: prune_transactions_part_def subtract_def return_on_shutdown_def)
qed

text \<open>C12: transactions wait for the checkpoint in the metrics: whatever the retention, a transaction that a run
  prunes is older than the checkpoint block that the metrics show when the run starts. That is the checkpoint of the
  last round that tried to save one, whether or not the save succeeded (\<open>save_candidate\<close>).\<close>

theorem pruned_transactions_precede_checkpoint:
  assumes "limit_ok (pe_pick e)" "timestamp_millis (now (pe_start e)) < 2 ^ 63"
    and "final (prune e args cfg s) = Some s'"
    and "t \<in> set (t_transactions (db_of s))" "t \<notin> set (t_transactions (db_of s'))"
  shows "before_checkpoint (me_checkpoint (ps_metrics s)) t"
proof (rule ccontr)
  assume young: "\<not> before_checkpoint (me_checkpoint (ps_metrics s)) t"
  let ?J = "\<lambda>d. t \<in> set (t_transactions d)"
  let ?K = "\<lambda>s1. ?J (db_of s1) \<and> checkpoint_seen s1 = checkpoint_seen s"
  note keep = other_parts_keep_txs [OF assms(1)]
  have init: "?K (prune_begin e s)" using assms(4) by (simp add: prune_begin_def map_pruner_def)
  have tail: "goes_or ?J (and_then (prune_transactions_part e args cfg s1) (\<lambda>s.
      and_then (prune_addresses_part e args cfg s) (\<lambda>s. Goes (prune_finish e s))))" if "?K s1" for s1
    by (intro final_and_then transactions_part_keeps [OF assms(1,2)] keep)
      (use that young in \<open>simp_all add: prune_finish_def\<close>)
  have "goes_or ?J (prune e args cfg s)"
    unfolding prune_def
  proof (rule final_and_then)
    show "goes_or ?J (prune_block_parent_part e args cfg (prune_begin e s))" using keep(1) init by blast
    fix s1 assume s1: "prune_block_parent_part e args cfg (prune_begin e s) = Goes s1" "?J (db_of s1)"
    have k1: "?K s1" using s1 init early_parts_checkpoint(1) by metis
    show "goes_or ?J (and_then (prune_blocks_transactions_part e args cfg s1) (\<lambda>s.
        and_then (prune_blocks_part e args cfg s) (\<lambda>s. and_then (prune_transactions_part e args cfg s) (\<lambda>s.
        and_then (prune_addresses_part e args cfg s) (\<lambda>s. Goes (prune_finish e s))))))"
    proof (rule final_and_then)
      show "goes_or ?J (prune_blocks_transactions_part e args cfg s1)" using keep(2) k1 by blast
      fix s2 assume s2: "prune_blocks_transactions_part e args cfg s1 = Goes s2" "?J (db_of s2)"
      have k2: "?K s2" using s2 k1 early_parts_checkpoint(2) by metis
      show "goes_or ?J (and_then (prune_blocks_part e args cfg s2) (\<lambda>s.
          and_then (prune_transactions_part e args cfg s) (\<lambda>s.
          and_then (prune_addresses_part e args cfg s) (\<lambda>s. Goes (prune_finish e s)))))"
      proof (rule final_and_then)
        show "goes_or ?J (prune_blocks_part e args cfg s2)" using keep(3) k2 by blast
        fix s3 assume "prune_blocks_part e args cfg s2 = Goes s3" "?J (db_of s3)"
        then show "goes_or ?J (and_then (prune_transactions_part e args cfg s3) (\<lambda>s.
            and_then (prune_addresses_part e args cfg s) (\<lambda>s. Goes (prune_finish e s))))"
          using tail k2 early_parts_checkpoint(3) by metis
      qed
    qed
  qed
  then show False using assms(3,5) by blast
qed

section \<open>The report\<close>

text \<open>While a run is under way: the errors counted are those the results show.\<close>

definition report_inv :: "string set \<Rightarrow> prune_state \<Rightarrow> bool" where
  "report_inv names s \<longleftrightarrow> (let m = me_db_pruner (ps_metrics s) in
     md_running m = Some True \<and> 0 \<le> ps_errors s
     \<and> (case md_results m of None \<Rightarrow> False | Some rs \<Rightarrow> dom rs \<subseteq> names
          \<and> (ps_errors s = 0 \<longleftrightarrow> (\<forall>r\<in>ran rs. pr_success r = Some True))))"

lemma report_inv_mono: "report_inv N s \<Longrightarrow> N \<subseteq> N' \<Longrightarrow> report_inv N' s"
  by (auto simp: report_inv_def Let_def split: option.splits)

lemma step_report:
  assumes "report_inv N s" "name \<notin> N" "prune_step e name call cutoff s = Goes s'"
  shows "report_inv (insert name N) s'"
proof -
  obtain rs where rs: "md_results (me_db_pruner (ps_metrics s)) = Some rs" "dom rs \<subseteq> N"
    "md_running (me_db_pruner (ps_metrics s)) = Some True" "0 \<le> ps_errors s"
    "ps_errors s = 0 \<longleftrightarrow> (\<forall>r\<in>ran rs. pr_success r = Some True)"
    using assms(1) by (auto simp: report_inv_def Let_def split: option.splits)
  then have "name \<notin> dom rs" using assms(2) by blast
  then have ran: "ran (rs(name \<mapsto> r)) = insert r (ran rs)" for r by (simp add: domIff)
  have dm: "x \<in> N" if "rs x = Some y" for x y using rs(2) that by blast
  show ?thesis
    using assms(3) rs dm unfolding prune_step_def put_result_def map_pruner_def Let_def
    by (auto simp: report_inv_def ran fun_upd_twist split: option.splits sum.splits if_splits)
qed

lemma parts_report:
  "report_inv {} s \<Longrightarrow> prune_block_parent_part e args cfg s = Goes s' \<Longrightarrow> report_inv {''block_parent''} s'"
  "report_inv N s \<Longrightarrow> {''blocks_transactions (b)'', ''blocks_transactions (t)''} \<inter> N = {} \<Longrightarrow>
    prune_blocks_transactions_part e args cfg s = Goes s' \<Longrightarrow>
    report_inv (insert ''blocks_transactions (b)'' (insert ''blocks_transactions (t)'' N)) s'"
  "report_inv N s \<Longrightarrow> {''blocks'', ''transactions_acceptances (b)''} \<inter> N = {} \<Longrightarrow>
    prune_blocks_part e args cfg s = Goes s' \<Longrightarrow>
    report_inv (insert ''transactions_acceptances (b)'' (insert ''blocks'' N)) s'"
  "report_inv N s \<Longrightarrow> ''transactions'' \<notin> N \<Longrightarrow> prune_transactions_part e args cfg s = Goes s' \<Longrightarrow>
    report_inv (insert ''transactions'' N) s'"
  "report_inv N s \<Longrightarrow> {''addresses_transactions'', ''scripts_transactions''} \<inter> N = {} \<Longrightarrow>
    prune_addresses_part e args cfg s = Goes s' \<Longrightarrow>
    report_inv (insert ''addresses_transactions'' (insert ''scripts_transactions'' N)) s'"
  unfolding prune_block_parent_part_def prune_blocks_transactions_part_def prune_blocks_part_def
    prune_transactions_part_def prune_addresses_part_def
  by (auto simp: and_then_Goes_iff split: option.splits if_splits
      intro: report_inv_mono dest!: step_report [rotated -1])

lemma begin_report: "report_inv {} (prune_begin e s)"
  by (simp add: prune_begin_def map_pruner_def report_inv_def Let_def)

text \<open>C33: the report of a finished run is true: it is marked as no longer running and as successful exactly
  when every step it ran succeeded; a failed step never hides behind a later one.\<close>

theorem prune_report_true:
  assumes "prune e args cfg s = Goes s'"
  shows "md_running (me_db_pruner (ps_metrics s')) = Some False
    \<and> (\<exists>rs. md_results (me_db_pruner (ps_metrics s')) = Some rs
         \<and> (md_completed_successfully (me_db_pruner (ps_metrics s')) = Some True
              \<longleftrightarrow> (\<forall>r\<in>ran rs. pr_success r = Some True)))"
proof -
  from assms obtain s1 s2 s3 s4 s5 where st:
    "prune_block_parent_part e args cfg (prune_begin e s) = Goes s1"
    "prune_blocks_transactions_part e args cfg s1 = Goes s2" "prune_blocks_part e args cfg s2 = Goes s3"
    "prune_transactions_part e args cfg s3 = Goes s4" "prune_addresses_part e args cfg s4 = Goes s5"
    "s' = prune_finish e s5"
    unfolding prune_def and_then_Goes_iff by auto
  note r1 = parts_report(1) [OF begin_report st(1)]
  note r2 = parts_report(2) [OF r1 _ st(2), simplified]
  note r3 = parts_report(3) [OF r2 _ st(3), simplified]
  note r4 = parts_report(4) [OF r3 _ st(4), simplified]
  note r5 = parts_report(5) [OF r4 _ st(5), simplified]
  show ?thesis
    using r5 by (auto simp: st(6) prune_finish_def map_pruner_def report_inv_def Let_def split: option.splits)
qed

definition run_marks :: "prune_state \<Rightarrow> bool option \<times> int option" where
  "run_marks s = (md_running (me_db_pruner (ps_metrics s)), md_completed_time (me_db_pruner (ps_metrics s)))"

lemma put_result_marks: "put_result n r s = Some s' \<Longrightarrow> run_marks s' = run_marks s"
  by (auto simp: put_result_def map_pruner_def run_marks_def split: option.splits)

lemma pool_marks [simp]: "run_marks (s\<lparr>ps_pool := p\<rparr>) = run_marks s" "run_marks (s\<lparr>ps_errors := n\<rparr>) = run_marks s"
  by (simp_all add: run_marks_def)

lemma prune_step_marks: "final (prune_step e name call cutoff s) = Some s' \<Longrightarrow> run_marks s' = run_marks s"
  unfolding prune_step_def Let_def
  by (auto split: option.splits if_splits dest!: put_result_marks)

lemma final_and_then_Some:
  "final (and_then r f) = Some s' \<Longrightarrow> final r = Some s' \<or> (\<exists>s1. final r = Some s1 \<and> final (f s1) = Some s')"
  by (cases r) auto

lemma parts_marks:
  "final (prune_block_parent_part e args cfg s) = Some s' \<Longrightarrow> run_marks s' = run_marks s"
  "final (prune_blocks_transactions_part e args cfg s) = Some s' \<Longrightarrow> run_marks s' = run_marks s"
  "final (prune_blocks_part e args cfg s) = Some s' \<Longrightarrow> run_marks s' = run_marks s"
  "final (prune_transactions_part e args cfg s) = Some s' \<Longrightarrow> run_marks s' = run_marks s"
  "final (prune_addresses_part e args cfg s) = Some s' \<Longrightarrow> run_marks s' = run_marks s"
  unfolding prune_block_parent_part_def prune_blocks_transactions_part_def prune_blocks_part_def
    prune_transactions_part_def prune_addresses_part_def subtract_def return_on_shutdown_def
  by (auto split: option.splits if_splits dest!: final_and_then_Some prune_step_marks)

lemma and_then_ShutDown_iff:
  "and_then r f = ShutDown s' \<longleftrightarrow> r = ShutDown s' \<or> (\<exists>s. r = Goes s \<and> f s = ShutDown s')"
  by (cases r) auto

text \<open>A shutdown between two steps leaves the metrics saying that the run is still running, with no
  completion time of its own: whatever was there before the run stays.\<close>

lemma shutdown_leaves_running:
  assumes "prune e args cfg s = ShutDown s'"
  shows "md_running (me_db_pruner (ps_metrics s')) = Some True
    \<and> md_completed_time (me_db_pruner (ps_metrics s')) = md_completed_time (me_db_pruner (ps_metrics s))"
proof -
  have final: "r = ShutDown x \<Longrightarrow> final r = Some x" "r = Goes x \<Longrightarrow> final r = Some x" for r x by simp_all
  have "run_marks s' = run_marks (prune_begin e s)"
    using assms unfolding prune_def and_then_ShutDown_iff
    by (auto dest!: parts_marks [OF final(1)] parts_marks [OF final(2)])
  then show ?thesis by (simp add: run_marks_def prune_begin_def map_pruner_def)
qed

section \<open>A concrete run\<close>

definition sample_prune_env :: "nat \<Rightarrow> prune_env" where
  "sample_prune_env stop = \<lparr>pe_shutdown = (\<lambda>i. i = stop), pe_start = 10 ^ 12, pe_step = (\<lambda>_. (10 ^ 12, 10 ^ 12)),
     pe_end = 10 ^ 12, pe_pick = take, pe_holds = (\<lambda>_ _. True)\<rparr>"

text \<open>An old block and a young one, a parent relation of each, and an old transaction.\<close>

definition sample_prune_state :: prune_state where
  "sample_prune_state = \<lparr>ps_errors = 0,
     ps_metrics = metrics_new\<lparr>me_checkpoint := \<lparr>mc_origin = Some OriginVcp, mc_block = Some \<lparr>mb_hash = [],
       mb_timestamp = 2000000, mb_date_time = 2000000, mb_daa_score = 1, mb_blue_score = 1\<rparr>\<rparr>\<rparr>,
     ps_pool = pool_of ((sample_db False)\<lparr>
       t_blocks := [(sample_block 1 0)\<lparr>blk_timestamp := Some 5\<rparr>, (sample_block 2 0)\<lparr>blk_timestamp := Some 2000000\<rparr>],
       t_block_parent := [\<lparr>bp_block_hash = Hash [1], bp_parent_hash = Hash [0]\<rparr>,
                          \<lparr>bp_block_hash = Hash [2], bp_parent_hash = Hash [1]\<rparr>]\<rparr>)\<rparr>"

definition sample_outcome :: "nat \<Rightarrow> prune_end" where
  "sample_outcome stop = prune (sample_prune_env stop) sample_args (resolved (pruning sample_args)) sample_prune_state"

declare prune_loop.simps [code]

lemma sample_goes:
  "(case sample_outcome 9 of Goes s \<Rightarrow> map bp_block_hash (t_block_parent (db_of s)) = [Hash [2]]
     \<and> t_transactions (db_of s) = [] \<and> md_completed_successfully (me_db_pruner (ps_metrics s)) = Some True
   | _ \<Rightarrow> False)"
  by code_simp

lemma sample_goes_obtains:
  obtains s' where "sample_outcome 9 = Goes s'" "map bp_block_hash (t_block_parent (db_of s')) = [Hash [2]]"
    "t_transactions (db_of s') = []" "md_completed_successfully (me_db_pruner (ps_metrics s')) = Some True"
  using sample_goes by (auto split: prune_end.splits)

lemma sample_stops: "(case sample_outcome 2 of ShutDown s \<Rightarrow> True | _ \<Rightarrow> False)"
  by code_simp

theorem prune_ends_witness: "sample_outcome 9 \<noteq> Diverges"
  unfolding sample_outcome_def
  by (rule prune_ends) (simp add: sample_prune_env_def limit_ok_take)

theorem prune_keeps_references_witness:
  "\<exists>s' b. sample_outcome 9 = Goes s' \<and> blk_hash b = Hash [2] \<and> b \<in> set (t_blocks (db_of s'))"
proof -
  obtain s' where s': "sample_outcome 9 = Goes s'" "map bp_block_hash (t_block_parent (db_of s')) = [Hash [2]]"
    by (rule sample_goes_obtains)
  let ?b = "(sample_block 2 0)\<lparr>blk_timestamp := Some 2000000\<rparr>"
  have "Hash [2] \<in> set (map bp_block_hash (t_block_parent (db_of s')))" unfolding s'(2) by simp
  then have "blk_hash ?b \<in> child_refs (db_of s') \<union> tx_refs (db_of s')" by (simp add: sample_block_def)
  then have "?b \<in> set (t_blocks (db_of s'))"
    using prune_keeps_references [of "sample_prune_env 9" sample_prune_state sample_args
        "resolved (pruning sample_args)" s' ?b] s'(1) limit_ok_take
    by (simp add: sample_outcome_def sample_prune_env_def sample_prune_state_def sample_args_def resolved_def
        resolve_def is_disabled_def is_excluded_def)
  with s'(1) show ?thesis by (intro exI [of _ s'] exI [of _ ?b]) (simp add: sample_block_def)
qed

theorem pruned_transactions_precede_checkpoint_witness:
  "before_checkpoint (me_checkpoint (ps_metrics sample_prune_state)) (hd (t_transactions (sample_db False)))"
proof -
  obtain s' where s': "sample_outcome 9 = Goes s'" "t_transactions (db_of s') = []"
    by (rule sample_goes_obtains)
  show ?thesis
    by (rule pruned_transactions_precede_checkpoint [of "sample_prune_env 9" sample_args
          "resolved (pruning sample_args)" sample_prune_state s'])
      (use s' limit_ok_take in \<open>simp_all add: sample_outcome_def sample_prune_env_def sample_prune_state_def
        sample_db_def timestamp_millis_def now_def\<close>)
qed

theorem prune_report_true_witness:
  "\<exists>s' rs. sample_outcome 9 = Goes s' \<and> md_results (me_db_pruner (ps_metrics s')) = Some rs
     \<and> (ran rs \<subseteq> {r. pr_success r = Some True})"
proof -
  obtain s' where s': "sample_outcome 9 = Goes s'" "md_completed_successfully (me_db_pruner (ps_metrics s')) = Some True"
    by (rule sample_goes_obtains)
  with prune_report_true [of "sample_prune_env 9" sample_args "resolved (pruning sample_args)" sample_prune_state s']
  show ?thesis by (auto simp: sample_outcome_def)
qed

end
