(* ===== verification/Utxo_Import.thy ===== *)
theory Utxo_Import
  imports Balances
begin

text \<open>
  The import of the pruning point's UTXO set (\<open>indexer/src/utxo_import/utxo_set_importer.rs\<close>):
  the message loop with a peer, the rows of a chunk, the balances it accumulates, and the
  attempts of \<open>start\<close>. Messages received, results of sends and the shutdown are inputs; what
  is sent is recorded in the state. The conversions of the node's crates are the record
  \<open>p2p_libs\<close>.
\<close>

section \<open>Messages\<close>

record utxo_pair =
  up_outpoint :: "(byte list option \<times> u32) option" \<comment> \<open>transaction id, index\<close>
  up_entry :: "(u64 \<times> (u32 \<times> byte list) option) option" \<comment> \<open>amount, versioned script\<close>

datatype payload =
    Version
  | RequestAddresses
  | PruningPointUtxoSetChunk "utxo_pair list"
  | DonePruningPointUtxoSetChunks
  | UnexpectedPruningPoint
  | Ping u64
  | OtherPayload

datatype sent =
    SentAddresses
  | SentRequestUtxoSet hash
  | SentRequestNextChunk
  | SentPong u64

datatype protocol_error = OtherError string | ConnectionClosed | TimedOut | SendFailed

text \<open>One turn of the loop: a message with the results of the sends it leads to, or its end.\<close>

datatype p2p_event = Message payload "nat \<Rightarrow> bool" | ChannelClosed | ReceiveTimeout

record 'k p2p_libs =
  hash_from_slice :: "byte list \<Rightarrow> hash option"           \<comment> \<open>panics on a wrong length\<close>
  script_public_key :: "u32 \<times> byte list \<Rightarrow> 'k option"     \<comment> \<open>\<open>try_into\<close>\<close>
  script_bytes :: "'k \<Rightarrow> byte list"
  script_address :: "'k \<Rightarrow> string option"                 \<comment> \<open>\<open>extract_script_pub_key_address(..).ok()\<close>\<close>

record import_config =
  ic_amount :: bool
  ic_script :: bool
  ic_address :: bool
  ic_block_time :: bool
  ic_pruning_point :: hash

definition import_config_of :: "cli_args \<Rightarrow> hash \<Rightarrow> import_config" where
  "import_config_of args pruning_point_hash = \<lparr>ic_amount = \<not> is_excluded args TxOutAmount,
     ic_script = \<not> is_excluded args TxOutScriptPublicKey,
     ic_address = \<not> is_excluded args TxOutScriptPublicKeyAddress,
     ic_block_time = \<not> is_excluded args TxOutBlockTime, ic_pruning_point = pruning_point_hash\<rparr>"

section \<open>A chunk\<close>

text \<open>\<open>*all_balances.entry(addr).or_insert(0) += amount\<close>, with the overflow check of the build.\<close>

definition add_balance :: "string \<Rightarrow> int \<Rightarrow> (string \<times> int) list \<Rightarrow> panic + (string \<times> int) list" where
  "add_balance a x agg =
     (let s = (case map_of agg a of None \<Rightarrow> 0 | Some v \<Rightarrow> v) + x in
      if in_signed 64 s then Inr (AList.update a s agg)
      else Inl (Panic ''attempt to add with overflow''))"

text \<open>\<open>index as i16\<close> keeps the low 16 bits, \<open>amount as i64\<close> the same 64 bits.\<close>

definition import_pair ::
  "libs \<Rightarrow> 'k p2p_libs \<Rightarrow> import_config \<Rightarrow> utxo_pair \<Rightarrow> (string \<times> int) list \<Rightarrow>
     panic + transaction_output_row \<times> hash \<times> (string \<times> int) list" where
  "import_pair L P cfg pair agg =
     sbind (expect unwrap_msg (up_outpoint pair)) (\<lambda>(id_bytes, idx).
     sbind (expect unwrap_msg (up_entry pair)) (\<lambda>(value, script).
     sbind (expect unwrap_msg id_bytes) (\<lambda>bytes.
     sbind (expect ''Slice must have the length of Hash'' (hash_from_slice P bytes)) (\<lambda>txid.
     sbind (expect unwrap_msg script) (\<lambda>vs.
     sbind (expect unwrap_msg (script_public_key P vs)) (\<lambda>spk.
     let amount = as_i64 value;
         address = (if ic_address cfg then map_option (payload_to_string L) (script_address P spk) else None) in
     sbind (case address of None \<Rightarrow> Inr agg | Some a \<Rightarrow> add_balance a amount agg) (\<lambda>agg'.
     Inr (\<lparr>out_transaction_id = txid, out_index = as_i16 (ucast idx),
        out_amount = then_some (ic_amount cfg) amount,
        out_script_public_key = then_some (ic_script cfg) (script_bytes P spk),
        out_script_public_key_address = address,
        out_block_time = then_some (ic_block_time cfg) 0\<rparr>, txid, agg'))))))))"

fun import_pairs ::
  "libs \<Rightarrow> 'k p2p_libs \<Rightarrow> import_config \<Rightarrow> utxo_pair list \<Rightarrow> (string \<times> int) list \<Rightarrow>
     panic + transaction_output_row list \<times> hash list \<times> (string \<times> int) list" where
  "import_pairs L P cfg [] agg = Inr ([], [], agg)"
| "import_pairs L P cfg (p # ps) agg =
     sbind (import_pair L P cfg p agg) (\<lambda>(row, txid, agg1).
     sbind (import_pairs L P cfg ps agg1) (\<lambda>(rows, ids, agg2).
     Inr (row # rows, txid # ids, agg2)))"

text \<open>Both inserts drop their errors: \<open>unwrap_or(0)\<close>. \<open>perm\<close> is the order of the hash set.\<close>

definition persist_utxos_chunk ::
  "libs \<Rightarrow> 'k p2p_libs \<Rightarrow> (hash list \<Rightarrow> hash list) \<Rightarrow> import_config \<Rightarrow> utxo_pair list \<Rightarrow>
     (string \<times> int) list \<Rightarrow> (pool, panic, nat \<times> nat \<times> nat \<times> (string \<times> int) list) sem" where
  "persist_utxos_chunk L P perm cfg pairs agg =
     bnd (lift_res (import_pairs L P cfg pairs agg)) (\<lambda>(rows, ids, agg').
     bnd (or_default 0 (insert_transaction_acceptances
            (map (\<lambda>h. \<lparr>ta_transaction_id = Some h, ta_block_hash = None\<rparr>) (perm (remdups ids))))) (\<lambda>acceptances.
     bnd (or_default 0 (insert_transaction_outputs rows)) (\<lambda>outputs.
     ret (acceptances, outputs, length agg', agg'))))"

section \<open>The message loop\<close>

definition ibd_batch_size :: nat where
  "ibd_batch_size = 99"

text \<open>
  The counters of the code are 32 and 64 bits wide; reaching their limits would take a UTXO
  set of more than \<open>2 ^ 32\<close> chunks.
\<close>

record import_state =
  im_acceptances :: nat
  im_outputs :: nat
  im_chunks :: nat
  im_total_utxos :: nat
  im_total_addresses :: nat
  im_balances :: "(string \<times> int) list"
  im_metrics :: metrics_utxo_importer
  im_sent :: "sent list"

definition import_new :: "metrics_utxo_importer \<Rightarrow> import_state" where
  "import_new m = \<lparr>im_acceptances = 0, im_outputs = 0, im_chunks = 0, im_total_utxos = 0,
     im_total_addresses = 0, im_balances = [], im_metrics = m, im_sent = []\<rparr>"

definition publish_counts :: "import_state \<Rightarrow> import_state" where
  "publish_counts s = s\<lparr>im_metrics := (im_metrics s)\<lparr>mu_utxos_imported := Some (of_nat (im_total_utxos s)),
     mu_acceptances_committed := Some (of_nat (im_acceptances s)),
     mu_outputs_committed := Some (of_nat (im_outputs s))\<rparr>\<rparr>"

datatype turn = Continue import_state | Finished import_state | Failed protocol_error import_state

definition handle_chunk ::
  "libs \<Rightarrow> 'k p2p_libs \<Rightarrow> (hash list \<Rightarrow> hash list) \<Rightarrow> import_config \<Rightarrow> utxo_pair list \<Rightarrow> bool \<Rightarrow>
     import_state \<Rightarrow> (pool, panic, turn) sem" where
  "handle_chunk L P perm cfg pairs send_ok s =
     bnd (persist_utxos_chunk L P perm cfg pairs (im_balances s)) (\<lambda>(acceptances, outputs, address_count, agg).
     let s1 = s\<lparr>im_chunks := im_chunks s + 1, im_acceptances := im_acceptances s + acceptances,
           im_outputs := im_outputs s + outputs, im_total_utxos := im_total_utxos s + address_count,
           im_total_addresses := im_total_addresses s + address_count, im_balances := agg\<rparr> in
     if im_chunks s1 mod ibd_batch_size = 0 then
       (if \<not> send_ok then ret (Failed SendFailed s1)
        else ret (Continue (publish_counts (s1\<lparr>im_sent := im_sent s1 @ [SentRequestNextChunk]\<rparr>))))
     else ret (Continue s1))"

text \<open>The end: all balances in one go, drained in the hash map's order; its error is dropped.\<close>

definition finish_import ::
  "((string \<times> int) list \<Rightarrow> (string \<times> int) list) \<Rightarrow> import_config \<Rightarrow> import_state \<Rightarrow> (pool, panic, turn) sem" where
  "finish_import drain cfg s =
     (if ic_address cfg \<and> im_balances s \<noteq> [] then
        bnd (or_default 0 (update_balances_absolute (map (\<lambda>(a, b). balance_new a b) (drain (im_balances s)))))
          (\<lambda>_. ret (Finished (publish_counts (s\<lparr>im_balances := []\<rparr>))))
      else ret (Finished (publish_counts s)))"

fun handle_message ::
  "libs \<Rightarrow> 'k p2p_libs \<Rightarrow> (hash list \<Rightarrow> hash list) \<Rightarrow> ((string \<times> int) list \<Rightarrow> (string \<times> int) list) \<Rightarrow>
     import_config \<Rightarrow> payload \<Rightarrow> (nat \<Rightarrow> bool) \<Rightarrow> import_state \<Rightarrow> (pool, panic, turn) sem" where
  "handle_message L P perm drain cfg RequestAddresses sends s =
     (if \<not> sends 0 then ret (Failed SendFailed s)
      else let s1 = s\<lparr>im_sent := im_sent s @ [SentAddresses]\<rparr> in
        if \<not> sends 1 then ret (Failed SendFailed s1)
        else ret (Continue (s1\<lparr>im_sent := im_sent s1 @ [SentRequestUtxoSet (ic_pruning_point cfg)]\<rparr>)))"
| "handle_message L P perm drain cfg (PruningPointUtxoSetChunk pairs) sends s =
     handle_chunk L P perm cfg pairs (sends 0) s"
| "handle_message L P perm drain cfg DonePruningPointUtxoSetChunks sends s = finish_import drain cfg s"
| "handle_message L P perm drain cfg UnexpectedPruningPoint sends s =
     ret (Failed (OtherError ''Unexpected pruning point'') s)"
| "handle_message L P perm drain cfg (Ping nonce) sends s =
     (if sends 0 then ret (Continue (s\<lparr>im_sent := im_sent s @ [SentPong nonce]\<rparr>))
      else ret (Failed SendFailed s))"
| "handle_message L P perm drain cfg Version sends s = ret (Continue s)"
| "handle_message L P perm drain cfg OtherPayload sends s = ret (Continue s)"

text \<open>The list of events ends where the shutdown is seen.\<close>

fun receive_and_handle ::
  "libs \<Rightarrow> 'k p2p_libs \<Rightarrow> (hash list \<Rightarrow> hash list) \<Rightarrow> ((string \<times> int) list \<Rightarrow> (string \<times> int) list) \<Rightarrow>
     import_config \<Rightarrow> p2p_event list \<Rightarrow> import_state \<Rightarrow> (pool, panic, turn) sem" where
  "receive_and_handle L P perm drain cfg [] s = ret (Failed (OtherError ''Shutdown'') s)"
| "receive_and_handle L P perm drain cfg (ChannelClosed # es) s = ret (Failed ConnectionClosed s)"
| "receive_and_handle L P perm drain cfg (ReceiveTimeout # es) s = ret (Failed TimedOut s)"
| "receive_and_handle L P perm drain cfg (Message m sends # es) s =
     bnd (handle_message L P perm drain cfg m sends s) (\<lambda>t.
     case t of Continue s' \<Rightarrow> receive_and_handle L P perm drain cfg es s' | _ \<Rightarrow> ret t)"

section \<open>The attempts\<close>

text \<open>
  \<open>network_params\<close>: the peers and the default port of the network, if it has them;
  \<open>host_of\<close>: \<open>Url::parse(url).ok()?.host()\<close>; \<open>choice\<close>: the random index.
\<close>

definition resolve_p2p_address ::
  "(string \<Rightarrow> string option) \<Rightarrow> (string list \<times> string) option \<Rightarrow> nat \<Rightarrow> cli_args \<Rightarrow> string option" where
  "resolve_p2p_address host_of network_params choice args =
     (case p2p_url args of Some u \<Rightarrow> Some u
      | None \<Rightarrow> (case network_params of None \<Rightarrow> None
        | Some (peers, port) \<Rightarrow> (case rpc_url args of
            Some u \<Rightarrow> map_option (\<lambda>h. h @ '':'' @ port) (host_of u)
          | None \<Rightarrow> if peers = [] then None else Some (peers ! (choice mod length peers) @ '':'' @ port))))"

definition import_metrics_reset :: "metrics_utxo_importer \<Rightarrow> metrics_utxo_importer" where
  "import_metrics_reset m = m\<lparr>mu_enabled := True, mu_completed := Some False, mu_utxos_imported := Some 0,
     mu_acceptances_committed := Some 0, mu_outputs_committed := Some 0\<rparr>"

definition truncate_balances :: "unit db_op" where
  "truncate_balances = execute (\<lambda>d. Inr ((), d\<lparr>t_balances := Map.empty\<rparr>))"

text \<open>An attempt: the address resolved, whether the peer connects, and the events of the loop.\<close>

record attempt =
  an_address :: "string option"
  an_connects :: bool
  an_events :: "p2p_event list"

definition state_of_turn :: "turn \<Rightarrow> import_state" where
  "state_of_turn t = (case t of Continue s \<Rightarrow> s | Finished s \<Rightarrow> s | Failed _ s \<Rightarrow> s)"

definition import_attempt ::
  "libs \<Rightarrow> 'k p2p_libs \<Rightarrow> (hash list \<Rightarrow> hash list) \<Rightarrow> ((string \<times> int) list \<Rightarrow> (string \<times> int) list) \<Rightarrow>
     import_config \<Rightarrow> attempt \<Rightarrow> metrics_utxo_importer \<Rightarrow> (pool, panic, bool \<times> metrics_utxo_importer) sem" where
  "import_attempt L P perm drain cfg a m =
     (case an_address a of None \<Rightarrow> ret (True, m)
      | Some _ \<Rightarrow>
          let m1 = import_metrics_reset m in
          bnd (if ic_address cfg then or_default () truncate_balances else ret ()) (\<lambda>_.
          if \<not> an_connects a then ret (False, m1)
          else bnd (receive_and_handle L P perm drain cfg (an_events a) (import_new m1)) (\<lambda>t.
            ret (case t of Finished s \<Rightarrow> (True, im_metrics s) | _ \<Rightarrow> (False, im_metrics (state_of_turn t))))))"

text \<open>\<open>start\<close>: attempts until one completes; the list ends where the shutdown is seen.\<close>

fun start_import ::
  "libs \<Rightarrow> 'k p2p_libs \<Rightarrow> (hash list \<Rightarrow> hash list) \<Rightarrow> ((string \<times> int) list \<Rightarrow> (string \<times> int) list) \<Rightarrow>
     import_config \<Rightarrow> attempt list \<Rightarrow> metrics_utxo_importer \<Rightarrow> (pool, panic, metrics_utxo_importer) sem" where
  "start_import L P perm drain cfg [] m = ret (m\<lparr>mu_completed := Some False\<rparr>)"
| "start_import L P perm drain cfg (a # as) m =
     bnd (import_attempt L P perm drain cfg a m) (\<lambda>(completed, m1).
     if completed then ret (m1\<lparr>mu_completed := Some True\<rparr>)
     else start_import L P perm drain cfg as m1)"

end
