(* ===== verification/Utxo_Import_Props.thy ===== *)
theory Utxo_Import_Props
  imports Utxo_Import Balances_Props
begin

text \<open>
  Properties of the UTXO import: the balances it writes are the sums of the set it received, the
  protocol with the peer, and what its report says and does not say.
\<close>

section \<open>Accumulating balances\<close>

text \<open>What the node's crates promise: an address fits the column.\<close>

definition p2p_ok :: "libs \<Rightarrow> 'k p2p_libs \<Rightarrow> bool" where
  "p2p_ok L P \<longleftrightarrow> (\<forall>k a. script_address P k = Some a \<longrightarrow> length (payload_to_string L a) \<le> 100)"

text \<open>The abstract balance: what a pair of the set credits to an address.\<close>

definition credited :: "libs \<Rightarrow> 'k p2p_libs \<Rightarrow> string \<Rightarrow> utxo_pair \<Rightarrow> int" where
  "credited L P a pair =
     (case up_entry pair of
        Some (v, Some vs) \<Rightarrow> (case script_public_key P vs of
            Some k \<Rightarrow> if map_option (payload_to_string L) (script_address P k) = Some a then as_i64 v else 0
          | None \<Rightarrow> 0)
      | _ \<Rightarrow> 0)"

abbreviation credited_sum :: "libs \<Rightarrow> 'k p2p_libs \<Rightarrow> string \<Rightarrow> utxo_pair list \<Rightarrow> int" where
  "credited_sum L P a ps \<equiv> sum_list (map (credited L P a) ps)"

definition agg_ok :: "(string \<times> int) list \<Rightarrow> bool" where
  "agg_ok agg \<longleftrightarrow> distinct (map fst agg) \<and> (\<forall>r\<in>set agg. in_signed 64 (snd r) \<and> length (fst r) \<le> 100)"

lemma set_update_subset: "set (AList.update k v al) \<subseteq> insert (k, v) (set al)"
  by (induction al) auto

lemma add_balance_Inr:
  assumes "add_balance a x agg = Inr agg'" "agg_ok agg" "length a \<le> 100"
  shows "agg_ok agg' \<and> (\<forall>b. lookup0 agg' b = lookup0 agg b + (if a = b then x else 0))"
proof -
  let ?s = "lookup0 agg a + x"
  have u: "agg' = AList.update a ?s agg" "in_signed 64 ?s"
    using assms(1) by (auto simp: add_balance_def lookup0_def Let_def split: if_splits)
  then show ?thesis
    using assms(2,3) set_update_subset [of a ?s agg]
    by (fastforce simp: agg_ok_def lookup0_update distinct_update)
qed

lemma import_pair_Inr:
  assumes "import_pair L P cfg pair agg = Inr (row, txid, agg')" "ic_address cfg" "p2p_ok L P" "agg_ok agg"
  shows "agg_ok agg' \<and> (\<forall>a. lookup0 agg' a = lookup0 agg a + credited L P a pair)"
proof -
  obtain v vs k where e: "up_entry pair = Some (v, Some vs)" "script_public_key P vs = Some k"
    and acc: "(case script_address P k of None \<Rightarrow> Inr agg
      | Some x \<Rightarrow> add_balance (payload_to_string L x) (as_i64 v) agg) = Inr agg'"
    using assms(1,2) by (auto simp: import_pair_def sbind_Inr_iff Let_def split: option.splits)
  show ?thesis
  proof (cases "script_address P k")
    case None
    with acc e assms(4) show ?thesis by (simp add: credited_def)
  next
    case (Some x)
    with assms(3) have "length (payload_to_string L x) \<le> 100" by (auto simp: p2p_ok_def)
    with add_balance_Inr [OF _ assms(4) this] acc Some e show ?thesis
      by (auto simp: credited_def)
  qed
qed

lemma import_pairs_Inr:
  assumes "import_pairs L P cfg ps agg = Inr (rows, ids, agg')" "ic_address cfg" "p2p_ok L P" "agg_ok agg"
  shows "agg_ok agg' \<and> (\<forall>a. lookup0 agg' a = lookup0 agg a + credited_sum L P a ps)"
  using assms(1,4)
proof (induction ps arbitrary: agg rows ids)
  case (Cons p ps)
  from Cons.prems(1) obtain row txid agg1 rows1 ids1 where
    1: "import_pair L P cfg p agg = Inr (row, txid, agg1)"
    and 2: "import_pairs L P cfg ps agg1 = Inr (rows1, ids1, agg')"
    by (auto simp: sbind_Inr_iff)
  note a = import_pair_Inr [OF 1 assms(2,3) Cons.prems(2)]
  then have "agg_ok agg1" by blast
  from Cons.IH [OF 2 this] a show ?case by simp
qed simp

section \<open>Persisting a chunk leaves the balances alone\<close>

lemma execute_healthy_after: "healthy p \<Longrightarrow> execute stmt p = (r, p') \<Longrightarrow> healthy p'"
  using execute_faults [of stmt p] by simp

lemma quiet_inserts:
  assumes "healthy p"
  shows "or_default 0 (insert_transaction_acceptances as) p = (r, p') \<Longrightarrow>
      healthy p' \<and> t_balances (data p') = t_balances (data p)"
    "or_default 0 (insert_transaction_outputs rs) p = (r, p') \<Longrightarrow>
      healthy p' \<and> t_balances (data p') = t_balances (data p)"
proof -
  show "healthy p' \<and> t_balances (data p') = t_balances (data p)"
    if r: "or_default 0 (insert_transaction_acceptances as) p = (r, p')"
  proof -
    from r obtain x where x: "insert_transaction_acceptances as p = (x, p')"
      by (auto simp: or_default_def split: prod.splits sum.splits)
    from acceptances.ins_only [OF x] x execute_healthy_after [OF assms] show ?thesis
      by (auto simp: insert_transaction_acceptances_def)
  qed
  show "healthy p' \<and> t_balances (data p') = t_balances (data p)"
    if r: "or_default 0 (insert_transaction_outputs rs) p = (r, p')"
  proof -
    from r obtain x where x: "insert_transaction_outputs rs p = (x, p')"
      by (auto simp: or_default_def split: prod.splits sum.splits)
    from outputs.ins_only [OF x] x execute_healthy_after [OF assms] show ?thesis
      by (auto simp: insert_transaction_outputs_def)
  qed
qed

lemma persist_Inr:
  assumes "persist_utxos_chunk L P perm cfg pairs agg p = (Inr (acc, outs, n, agg'), p')"
  obtains rows ids p1 where "import_pairs L P cfg pairs agg = Inr (rows, ids, agg')" "n = length agg'"
    "or_default 0 (insert_transaction_acceptances
       (map (\<lambda>h. \<lparr>ta_transaction_id = Some h, ta_block_hash = None\<rparr>) (perm (remdups ids)))) p
       = (Inr acc :: panic + nat, p1)"
    "or_default 0 (insert_transaction_outputs rows) p1 = (Inr outs :: panic + nat, p')"
proof -
  from assms obtain rows ids agg1 where 1: "import_pairs L P cfg pairs agg = Inr (rows, ids, agg1)"
    by (auto simp: persist_utxos_chunk_def bnd_Inr_iff lift_res_def)
  with assms that show thesis
    by (auto simp: persist_utxos_chunk_def bnd_Inr_iff lift_res_def bnd_def ret_def split: prod.splits sum.splits)
qed

lemma persist_quiet:
  assumes "persist_utxos_chunk L P perm cfg pairs agg p = (Inr (acc, outs, n, agg'), p')" "healthy p"
  shows "healthy p' \<and> t_balances (data p') = t_balances (data p)"
proof -
  from assms(1) obtain rows p1 as where
    "or_default 0 (insert_transaction_acceptances as) p = (Inr acc :: panic + nat, p1)"
    "or_default 0 (insert_transaction_outputs rows) p1 = (Inr outs :: panic + nat, p')"
    by (rule persist_Inr) blast
  then show ?thesis using quiet_inserts assms(2) by metis
qed

section \<open>Writing the balances\<close>

lemma upsert_loop:
  assumes "healthy p" "distinct (map bal_address (concat cs))"
    and "\<forall>b\<in>set (concat cs). in_signed 64 (bal_balance b) \<and> length (bal_address b) \<le> 100"
  shows "\<exists>n. sum_loop (\<lambda>c. db_call (execute (upsert_balances (map (\<lambda>b. (bal_address b, bal_balance b)) c)))) cs acc p
      = (Inr n, p\<lparr>data := (data p)\<lparr>t_balances := t_balances (data p)
          ++ map_of (map (\<lambda>b. (bal_address b, bal_balance b)) (concat cs))\<rparr>\<rparr>)"
  using assms
proof (induction cs arbitrary: acc p)
  case Nil
  have "p\<lparr>data := (data p)\<lparr>t_balances := t_balances (data p)\<rparr>\<rparr> = p" by (cases p, cases "data p") simp
  then show ?case by (simp add: ret_def)
next
  case (Cons c cs)
  let ?f = "\<lambda>b. (bal_address b, bal_balance b)"
  let ?d = "(data p)\<lparr>t_balances := t_balances (data p) ++ map_of (map ?f c)\<rparr>"
  have "upsert_balances (map ?f c) (data p) = Inr (length c, ?d)"
    using Cons.prems(2,3) by (auto simp: upsert_balances_def o_def not_less [symmetric])
  then have 1: "db_call (execute (upsert_balances (map ?f c))) p = (Inr (length c), p\<lparr>data := ?d\<rparr>)"
    using Cons.prems(1) by (simp add: db_call_def execute_healthy)
  have dj: "distinct (map bal_address (concat cs))" "set (map bal_address c) \<inter> set (map bal_address (concat cs)) = {}"
    using Cons.prems(2) by auto
  obtain n where n: "sum_loop (\<lambda>c. db_call (execute (upsert_balances (map ?f c)))) cs (acc + length c) (p\<lparr>data := ?d\<rparr>)
      = (Inr n, p\<lparr>data := ?d\<lparr>t_balances := t_balances ?d ++ map_of (map ?f (concat cs))\<rparr>\<rparr>)"
    using Cons.IH [of "p\<lparr>data := ?d\<rparr>" "acc + length c"] Cons.prems(1,3) dj(1) by (auto simp del: map_append)
  have "dom (map_of (map ?f c)) \<inter> dom (map_of (map ?f (concat cs))) = {}"
    using dj(2) by (simp add: dom_map_of_conv_image_fst image_image)
  then have comm: "map_of (map ?f c) ++ map_of (map ?f (concat cs)) = map_of (map ?f (concat cs)) ++ map_of (map ?f c)"
    by (rule map_add_comm)
  have "t_balances ?d ++ map_of (map ?f (concat cs))
      = t_balances (data p) ++ (map_of (map ?f c) ++ map_of (map ?f (concat cs)))" by simp
  also have "\<dots> = t_balances (data p) ++ map_of (map ?f (concat (c # cs)))"
    unfolding comm by simp
  finally have final: "t_balances ?d ++ map_of (map ?f (concat cs))
      = t_balances (data p) ++ map_of (map ?f (concat (c # cs)))" .
  have upd: "?d\<lparr>t_balances := T\<rparr> = (data p)\<lparr>t_balances := T\<rparr>" "p\<lparr>data := x, data := y\<rparr> = p\<lparr>data := y\<rparr>" for T x y
    by simp_all
  show ?case
    by (intro exI [of _ n]) (simp only: sum_loop.simps bnd_def 1 n [unfolded final upd] prod.case sum.case)
qed

lemma update_absolute_ok:
  assumes "healthy p" "t_balances (data p) = Map.empty" "agg_ok agg" "agg \<noteq> []" "permuting drain"
  shows "\<exists>n p'. update_balances_absolute (map (\<lambda>(a, b). balance_new a b) (drain agg)) p = (Inr n, p')
    \<and> (\<forall>a. balance_of (data p') a = lookup0 agg a)"
proof -
  let ?bs = "map (\<lambda>(a, b). balance_new a b) (drain agg)"
  have rows: "map (\<lambda>b. (bal_address b, bal_balance b)) ?bs = drain agg"
    by (simp add: balance_new_def o_def split_beta)
  have addr: "map bal_address ?bs = map fst (drain agg)"
    by (simp add: balance_new_def o_def split_beta)
  have ne: "?bs \<noteq> []" using assms(4,5) permuting_set [OF assms(5), of agg] by auto
  have cat: "concat (chunks_of balance_chunk_size ?bs) = ?bs"
    by (rule concat_chunks_of) (simp add: balance_chunk_size_def)
  have d: "distinct (map bal_address ?bs)"
    unfolding addr using assms(3,5) by (simp add: permuting_distinct agg_ok_def)
  have small: "\<forall>b\<in>set ?bs. in_signed 64 (bal_balance b) \<and> length (bal_address b) \<le> 100"
    using assms(3) permuting_set [OF assms(5), of agg] by (auto simp: balance_new_def agg_ok_def)
  from upsert_loop [of p "chunks_of balance_chunk_size ?bs" 0, unfolded cat rows, OF assms(1) d small]
  obtain n where "update_balances_absolute ?bs p =
      (Inr n, p\<lparr>data := (data p)\<lparr>t_balances := t_balances (data p) ++ map_of (drain agg)\<rparr>\<rparr>)"
    unfolding update_balances_absolute_def if_not_P [OF ne] by blast
  moreover have "map_of (drain agg) = map_of agg"
  proof (rule map_of_inject_set [THEN iffD2])
    show "distinct (map fst (drain agg))" "distinct (map fst agg)"
      using assms(3,5) by (simp_all add: permuting_distinct agg_ok_def)
    show "set (drain agg) = set agg" using permuting_set [OF assms(5)] .
  qed
  ultimately show ?thesis
    using assms(2) by (intro exI conjI) (assumption, simp add: balance_of_def lookup0_def)
qed

section \<open>The import's balances\<close>

text \<open>The chunks received before the end of the set, and their pairs.\<close>

fun imported_chunks :: "p2p_event list \<Rightarrow> utxo_pair list list" where
  "imported_chunks (Message (PruningPointUtxoSetChunk ps) sends # es) = ps # imported_chunks es"
| "imported_chunks (Message DonePruningPointUtxoSetChunks sends # es) = []"
| "imported_chunks (e # es) = imported_chunks es"
| "imported_chunks [] = []"

abbreviation imported_pairs :: "p2p_event list \<Rightarrow> utxo_pair list" where
  "imported_pairs es \<equiv> concat (imported_chunks es)"

lemma handle_chunk_Continue:
  assumes "handle_chunk L P perm cfg pairs ok s p = (Inr (Continue s'), p')"
  obtains acc outs agg where
    "persist_utxos_chunk L P perm cfg pairs (im_balances s) p = (Inr (acc, outs, length agg, agg), p')"
    "im_balances s' = agg" "im_chunks s' = im_chunks s + 1" "im_total_utxos s' = im_total_utxos s + length agg"
    "im_sent s' = im_sent s @ (if (im_chunks s + 1) mod ibd_batch_size = 0 then [SentRequestNextChunk] else [])"
proof -
  from assms obtain acc outs n agg where
    1: "persist_utxos_chunk L P perm cfg pairs (im_balances s) p = (Inr (acc, outs, n, agg), p')"
    by (auto simp: handle_chunk_def bnd_Inr_iff ret_def Let_def split: if_splits)
  then have n: "n = length agg" by (rule persist_Inr)
  show thesis
  proof (rule that)
    show "persist_utxos_chunk L P perm cfg pairs (im_balances s) p = (Inr (acc, outs, length agg, agg), p')"
      using assms 1 n by (auto simp: handle_chunk_def bnd_def ret_def Let_def split: if_splits)
  qed (use assms 1 n in \<open>auto simp: handle_chunk_def bnd_def ret_def Let_def publish_counts_def split: if_splits\<close>)
qed

lemma finish_not_Continue: "finish_import drain cfg s p \<noteq> (Inr (Continue s'), p')"
  by (auto simp: finish_import_def bnd_Inr_iff ret_def)

text \<open>The other messages touch neither the database nor the accumulated state.\<close>

lemma handle_other:
  assumes "handle_message L P perm drain cfg m sends s p = (Inr (Continue s'), p')"
    and "\<And>ps. m \<noteq> PruningPointUtxoSetChunk ps"
  shows "m \<noteq> DonePruningPointUtxoSetChunks \<and> p' = p \<and> im_balances s' = im_balances s \<and> im_chunks s' = im_chunks s
    \<and> im_total_utxos s' = im_total_utxos s
    \<and> filter (\<lambda>x. x = SentRequestNextChunk) (im_sent s') = filter (\<lambda>x. x = SentRequestNextChunk) (im_sent s)"
  using assms by (cases m) (auto simp: ret_def Let_def finish_not_Continue split: if_splits)

lemma handle_Finished:
  assumes "handle_message L P perm drain cfg m sends s p = (Inr (Finished s'), p')"
  shows "m = DonePruningPointUtxoSetChunks \<and> finish_import drain cfg s p = (Inr (Finished s'), p')"
  using assms by (cases m) (auto simp: ret_def Let_def handle_chunk_def bnd_Inr_iff split: if_splits)

lemma finish_balances:
  assumes "finish_import drain cfg s p = (Inr (Finished s'), p')" "healthy p"
    and "t_balances (data p) = Map.empty" "agg_ok (im_balances s)" "ic_address cfg" "permuting drain"
  shows "balance_of (data p') a = lookup0 (im_balances s) a"
proof (cases "im_balances s = []")
  case True
  then show ?thesis using assms(1,3) by (simp add: finish_import_def ret_def balance_of_def lookup0_def)
next
  case False
  from update_absolute_ok [OF assms(2-4) False assms(6)] obtain n q where
    "update_balances_absolute (map (\<lambda>(a, b). balance_new a b) (drain (im_balances s))) p = (Inr n, q)"
    "balance_of (data q) a = lookup0 (im_balances s) a" by blast
  then show ?thesis
    using assms(1,5) False by (simp add: finish_import_def bnd_def or_default_def ret_def)
qed

text \<open>The runs that finish, by their messages: the rule the properties of the loop rest on.\<close>

lemma receive_Finished_induct [consumes 1, case_names Chunk Other Done]:
  assumes "receive_and_handle L P perm drain cfg es s p = (Inr (Finished s'), p')"
    and chunk: "\<And>ps sends es s p s1 q. handle_chunk L P perm cfg ps (sends 0) s p = (Inr (Continue s1), q) \<Longrightarrow>
      Q es s1 q \<Longrightarrow> Q (Message (PruningPointUtxoSetChunk ps) sends # es) s p"
    and other: "\<And>e es s p s1. imported_chunks (e # es) = imported_chunks es \<Longrightarrow> im_balances s1 = im_balances s \<Longrightarrow>
      im_chunks s1 = im_chunks s \<Longrightarrow> im_total_utxos s1 = im_total_utxos s \<Longrightarrow>
      filter (\<lambda>x. x = SentRequestNextChunk) (im_sent s1) = filter (\<lambda>x. x = SentRequestNextChunk) (im_sent s) \<Longrightarrow>
      Q es s1 p \<Longrightarrow> Q (e # es) s p"
    and finish: "\<And>sends es s p. finish_import drain cfg s p = (Inr (Finished s'), p') \<Longrightarrow>
      Q (Message DonePruningPointUtxoSetChunks sends # es) s p"
  shows "Q es s p"
  using assms(1)
proof (induction es arbitrary: s p)
  case (Cons e es)
  show ?case
  proof (cases e)
    case (Message m sends)
    from Cons.prems obtain t q where t: "handle_message L P perm drain cfg m sends s p = (Inr t, q)"
      and rest: "(case t of Continue s1 \<Rightarrow> receive_and_handle L P perm drain cfg es s1 | _ \<Rightarrow> ret t) q = (Inr (Finished s'), p')"
      by (auto simp: Message bnd_Inr_iff)
    show ?thesis
    proof (cases t)
      case (Continue s1)
      with rest Cons.IH have q: "Q es s1 q" by simp
      show ?thesis
      proof (cases "\<exists>ps. m = PruningPointUtxoSetChunk ps")
        case True
        with t q show ?thesis by (auto simp: Message Continue intro!: chunk)
      next
        case False
        note h = handle_other [OF t [unfolded Continue]]
        have "imported_chunks (e # es) = imported_chunks es" using False h by (cases m) (simp_all add: Message)
        then show ?thesis by (rule other) (use h q False in auto)
      qed
    next
      case (Finished s1)
      with rest have "s1 = s'" "q = p'" by (simp_all add: ret_def)
      with handle_Finished [OF t [unfolded Finished]] show ?thesis by (simp add: Message finish)
    next
      case (Failed e s1)
      with rest show ?thesis by (simp add: ret_def)
    qed
  qed (use Cons.prems in \<open>simp_all add: ret_def\<close>)
qed (simp add: ret_def)

lemma import_loop_balances:
  assumes "receive_and_handle L P perm drain cfg es s p = (Inr (Finished s'), p')"
    and "healthy p" "t_balances (data p) = Map.empty" "agg_ok (im_balances s)"
    and "ic_address cfg" "permuting drain" "p2p_ok L P"
  shows "balance_of (data p') a = lookup0 (im_balances s) a + credited_sum L P a (imported_pairs es)"
  using assms(1-4)
proof (induction rule: receive_Finished_induct)
  case (Chunk ps sends es s p s1 q)
  from Chunk.hyps obtain acc outs agg where
    c: "persist_utxos_chunk L P perm cfg ps (im_balances s) p = (Inr (acc, outs, length agg, agg), q)"
    "im_balances s1 = agg" by (rule handle_chunk_Continue)
  from c(1) obtain rows ids where "import_pairs L P cfg ps (im_balances s) = Inr (rows, ids, agg)"
    by (rule persist_Inr)
  note i = import_pairs_Inr [OF this assms(5,7) Chunk.prems(3)]
  from persist_quiet [OF c(1) Chunk.prems(1)] Chunk.prems(2) i c(2) Chunk.IH show ?case by simp
next
  case (Done sends es s p)
  from finish_balances [OF Done.hyps Done.prems assms(5,6)] show ?case by simp
qed simp

lemma receive_rebuilds_balances:
  assumes "receive_and_handle L P perm drain cfg es (import_new m) p = (Inr (Finished s'), p')"
    and "healthy p" "t_balances (data p) = Map.empty"
    and "ic_address cfg" "permuting drain" "p2p_ok L P"
  shows "balance_of (data p') a = credited_sum L P a (imported_pairs es)"
  using import_loop_balances [OF assms(1-3) _ assms(4-6), of a]
  by (simp add: import_new_def agg_ok_def lookup0_def)

text \<open>The connection stays healthy through an attempt that fails.\<close>

lemma bnd_healthy:
  assumes "healthy (snd (m p))" "\<And>a q. m p = (Inr a, q) \<Longrightarrow> healthy (snd (f a q))"
  shows "healthy (snd (bnd m f p))"
  using assms by (cases "m p") (auto simp: bnd_def split: sum.splits)

lemma or_default_healthy: "healthy (snd (m p)) \<Longrightarrow> healthy (snd (or_default d m p))"
  by (auto simp: or_default_def split: prod.splits sum.splits)

lemma absolute_run:
  "(healthy p \<longrightarrow> healthy (snd (update_balances_absolute bs p)))
   \<and> (\<exists>t. data (snd (update_balances_absolute bs p)) = (data p)\<lparr>t_balances := t\<rparr>)" (is "?Q p (update_balances_absolute bs p)")
proof -
  have step: "(healthy q \<longrightarrow> healthy q') \<and> (\<exists>t. data q' = (data q)\<lparr>t_balances := t\<rparr>)"
    if "db_call (execute (upsert_balances rows)) q = (r, q')" for rows q r q'
  proof -
    from that obtain x where x: "execute (upsert_balances rows) q = (x, q')"
      by (auto simp: db_call_def split: prod.splits sum.splits)
    have "healthy q \<longrightarrow> healthy q'" using x execute_healthy_after by blast
    moreover have "\<exists>t. data q' = (data q)\<lparr>t_balances := t\<rparr>"
    proof (cases x)
      case (Inl e)
      then have "data q' = (data q)\<lparr>t_balances := t_balances (data q)\<rparr>" using x execute_error [of _ q e q'] by simp
      then show ?thesis by blast
    next
      case (Inr n)
      from execute_Inr [OF x [unfolded Inr]]
      have "data q' = (data q)\<lparr>t_balances := t_balances (data q) ++ map_of rows\<rparr>"
        by (auto simp: upsert_balances_def split: if_splits)
      then show ?thesis by blast
    qed
    ultimately show ?thesis ..
  qed
  have "?Q q (sum_loop (\<lambda>c. db_call (execute (upsert_balances (g c)))) cs acc q)"
    for cs acc q and g :: "balance list \<Rightarrow> (string \<times> int) list"
  proof (induction cs arbitrary: acc q)
    case Nil
    have "data q = (data q)\<lparr>t_balances := t_balances (data q)\<rparr>" by simp
    then show ?case unfolding sum_loop.simps ret_def snd_conv by blast
  next
    case (Cons c cs)
    obtain r q' where c: "db_call (execute (upsert_balances (g c))) q = (r, q')" by (cases "db_call (execute (upsert_balances (g c))) q")
    note st = step [OF c]
    show ?case
    proof (cases r)
      case (Inl e)
      with st c show ?thesis by (simp add: bnd_def)
    next
      case (Inr n)
      have b: "bnd (db_call (execute (upsert_balances (g c)))) f q = f n q'" for f :: "nat \<Rightarrow> (pool, failure, nat) sem"
        using c Inr by (simp add: bnd_Inr)
      from st Cons.IH [of q' "acc + n"] show ?thesis by (auto simp: b)
    qed
  qed
  moreover have "?Q p (ret 0 p :: (failure + nat) \<times> pool)"
    by (simp add: ret_def) (rule exI [of _ "t_balances (data p)"], simp)
  ultimately show ?thesis unfolding update_balances_absolute_def by (cases "bs = []") auto
qed

lemma absolute_healthy: "healthy p \<Longrightarrow> healthy (snd (update_balances_absolute bs p))"
  using absolute_run [of p bs] by blast

lemma message_healthy:
  assumes "handle_message L P perm drain cfg m sends s p = (Inr t, p')" "healthy p"
  shows "healthy p'"
proof (cases m)
  case (PruningPointUtxoSetChunk ps)
  with assms(1) obtain acc outs n agg q where
    q: "persist_utxos_chunk L P perm cfg ps (im_balances s) p = (Inr (acc, outs, n, agg), q)" "p' = q"
    by (auto simp: handle_chunk_def bnd_Inr_iff ret_def Let_def split: if_splits)
  then show ?thesis using persist_quiet [OF q(1) assms(2)] by simp
next
  case DonePruningPointUtxoSetChunks
  then have "p' = snd (finish_import drain cfg s p)" using assms(1) by simp
  moreover have "healthy q" if "(or_default 0 (update_balances_absolute bs) :: (pool, panic, nat) sem) p = (r, q)" for bs r q
    using or_default_healthy [of "update_balances_absolute bs" p 0] absolute_healthy [OF assms(2), of bs] that
    by (metis snd_conv)
  ultimately show ?thesis using assms(2)
    by (auto simp: finish_import_def ret_def bnd_def split: prod.splits sum.splits)
qed (use assms in \<open>auto simp: ret_def Let_def split: if_splits\<close>)

lemma receive_healthy:
  "receive_and_handle L P perm drain cfg es s p = (Inr t, p') \<Longrightarrow> healthy p \<Longrightarrow> healthy p'"
proof (induction es arbitrary: s p)
  case (Cons e es)
  show ?case
  proof (cases e)
    case (Message m sends)
    from Cons.prems(1) obtain t1 q where t: "handle_message L P perm drain cfg m sends s p = (Inr t1, q)"
      and rest: "(case t1 of Continue s1 \<Rightarrow> receive_and_handle L P perm drain cfg es s1 | _ \<Rightarrow> ret t1) q = (Inr t, p')"
      by (auto simp: Message bnd_Inr_iff)
    from message_healthy [OF t Cons.prems(2)] rest Cons.IH show ?thesis
      by (cases t1) (auto simp: ret_def)
  qed (use Cons.prems in \<open>simp_all add: ret_def\<close>)
qed (simp add: ret_def)

lemma attempt_healthy:
  assumes "import_attempt L P perm drain cfg a m p = (Inr (completed, m'), p')" "healthy p"
  shows "healthy p'"
proof (cases "an_address a")
  case (Some x)
  from Some assms(1) obtain u q where
    u: "(if ic_address cfg then or_default () truncate_balances else ret ()) p = (Inr u :: panic + unit, q)"
    and rest: "(if \<not> an_connects a then ret (False, import_metrics_reset m)
      else bnd (receive_and_handle L P perm drain cfg (an_events a) (import_new (import_metrics_reset m))) (\<lambda>t.
        ret (case t of Finished s \<Rightarrow> (True, im_metrics s) | _ \<Rightarrow> (False, im_metrics (state_of_turn t))))) q
      = (Inr (completed, m'), p')"
    by (auto simp: import_attempt_def Let_def bnd_Inr_iff)
  have "healthy q"
    using u assms(2) by (auto simp: truncate_balances_def or_default_def execute_healthy ret_def split: if_splits)
  with rest show ?thesis by (auto simp: ret_def bnd_Inr_iff split: if_splits dest: receive_healthy)
qed (use assms in \<open>simp add: import_attempt_def ret_def\<close>)

lemma start_healthy:
  "start_import L P perm drain cfg as m p = (Inr m', p') \<Longrightarrow> healthy p \<Longrightarrow> healthy p'"
proof (induction as arbitrary: m p)
  case (Cons a as)
  from Cons.prems(1) obtain completed m1 q where
    a: "import_attempt L P perm drain cfg a m p = (Inr (completed, m1), q)"
    and "(if completed then ret (m1\<lparr>mu_completed := Some True\<rparr>) else start_import L P perm drain cfg as m1) q = (Inr m', p')"
    by (auto simp: bnd_Inr_iff)
  with Cons.IH attempt_healthy [OF a Cons.prems(2)] show ?case by (auto simp: ret_def split: if_splits)
qed (simp add: ret_def)

text \<open>Only the end of the set writes balances: an attempt that fails leaves the emptied table empty.\<close>

lemma message_balances:
  assumes "handle_message L P perm drain cfg m sends s p = (Inr t, p')" "healthy p" "\<nexists>s'. t = Finished s'"
  shows "t_balances (data p') = t_balances (data p)"
proof (cases m)
  case (PruningPointUtxoSetChunk ps)
  with assms(1) obtain acc outs n agg q where
    q: "persist_utxos_chunk L P perm cfg ps (im_balances s) p = (Inr (acc, outs, n, agg), q)" "p' = q"
    by (auto simp: handle_chunk_def bnd_Inr_iff ret_def Let_def split: if_splits)
  then show ?thesis using persist_quiet [OF q(1) assms(2)] by simp
next
  case DonePruningPointUtxoSetChunks
  with assms show ?thesis by (auto simp: finish_import_def bnd_Inr_iff ret_def split: if_splits)
qed (use assms in \<open>auto simp: ret_def Let_def split: if_splits\<close>)

lemma receive_failed_balances:
  "receive_and_handle L P perm drain cfg es s p = (Inr t, p') \<Longrightarrow> healthy p \<Longrightarrow> \<nexists>s'. t = Finished s' \<Longrightarrow>
     t_balances (data p') = t_balances (data p)"
proof (induction es arbitrary: s p)
  case (Cons e es)
  show ?case
  proof (cases e)
    case (Message m sends)
    from Cons.prems(1) obtain t1 q where t: "handle_message L P perm drain cfg m sends s p = (Inr t1, q)"
      and rest: "(case t1 of Continue s1 \<Rightarrow> receive_and_handle L P perm drain cfg es s1 | _ \<Rightarrow> ret t1) q = (Inr t, p')"
      by (auto simp: Message bnd_Inr_iff)
    have "\<nexists>s'. t1 = Finished s'" using rest Cons.prems(3) by (auto simp: ret_def)
    from message_balances [OF t Cons.prems(2) this] message_healthy [OF t Cons.prems(2)] rest Cons.IH Cons.prems(3)
    show ?thesis by (cases t1) (auto simp: ret_def)
  qed (use Cons.prems in \<open>simp_all add: ret_def\<close>)
qed (simp add: ret_def)

lemma start_not_completed_balances:
  assumes "start_import L P perm drain cfg as m p = (Inr m', p')" "mu_completed m' \<noteq> Some True"
    and "healthy p" "ic_address cfg" "t_balances (data p) = Map.empty"
  shows "t_balances (data p') = Map.empty"
  using assms(1,3,5)
proof (induction as arbitrary: m p)
  case (Cons a as)
  from Cons.prems(1) obtain completed m1 q where a: "import_attempt L P perm drain cfg a m p = (Inr (completed, m1), q)"
    and rest: "(if completed then ret (m1\<lparr>mu_completed := Some True\<rparr>) else start_import L P perm drain cfg as m1) q
      = (Inr m', p')"
    by (auto simp: bnd_Inr_iff)
  have c: "\<not> completed" using rest assms(2) by (auto simp: ret_def)
  have tr: "(or_default () truncate_balances :: (pool, panic, unit) sem) p = (Inr (), p)"
    using Cons.prems(2,3) by (cases p, cases "data p") (simp add: truncate_balances_def or_default_def execute_healthy)
  have "t_balances (data q) = Map.empty"
  proof (cases "an_connects a")
    case True
    with a c tr assms(4) obtain t where
      t: "receive_and_handle L P perm drain cfg (an_events a) (import_new (import_metrics_reset m)) p = (Inr t, q)"
      and "(case t of Finished s \<Rightarrow> (True, im_metrics s) | _ \<Rightarrow> (False, im_metrics (state_of_turn t))) = (False, m1)"
      by (cases "an_address a") (auto simp: import_attempt_def bnd_Inr_iff ret_def Let_def)
    moreover from this(2) have "\<nexists>s'. t = Finished s'" by auto
    ultimately show ?thesis using receive_failed_balances [OF t Cons.prems(2)] Cons.prems(3) by simp
  qed (use a c tr assms(4) Cons.prems(3) in \<open>auto simp: import_attempt_def bnd_Inr_iff ret_def Let_def split: option.splits\<close>)
  with Cons.IH [of m1 q] rest c attempt_healthy [OF a Cons.prems(2)] show ?case by simp
qed (simp add: ret_def)

lemma attempt_cases:
  assumes "import_attempt L P perm drain cfg a m p = (Inr (completed, m'), p')" "healthy p"
    and "ic_address cfg" "permuting drain" "p2p_ok L P" "an_address a \<noteq> None"
  shows "healthy p' \<and> (completed \<longrightarrow>
    (\<forall>x. balance_of (data p') x = credited_sum L P x (imported_pairs (an_events a))))"
proof -
  let ?q = "p\<lparr>data := (data p)\<lparr>t_balances := Map.empty\<rparr>\<rparr>"
  have tr: "(or_default () truncate_balances :: (pool, panic, unit) sem) p = (Inr (), ?q)"
    using assms(2) by (simp add: truncate_balances_def or_default_def execute_healthy)
  show ?thesis
  proof (cases "an_connects a")
    case False
    with assms tr show ?thesis by (auto simp: import_attempt_def bnd_def ret_def Let_def)
  next
    case True
    with assms(1,3,6) tr obtain t where
      t: "receive_and_handle L P perm drain cfg (an_events a) (import_new (import_metrics_reset m)) ?q = (Inr t, p')"
      "(case t of Finished s \<Rightarrow> (True, im_metrics s) | _ \<Rightarrow> (False, im_metrics (state_of_turn t))) = (completed, m')"
      by (auto simp: import_attempt_def bnd_Inr_iff Let_def ret_def)
    from t(2) have "completed \<longleftrightarrow> (\<exists>s. t = Finished s)" by (cases t) auto
    with t show ?thesis
      using receive_healthy [OF t(1)] receive_rebuilds_balances [of L P perm drain cfg "an_events a" _ ?q _ p']
        assms(2-5) by auto
  qed
qed

lemma start_rebuilds:
  assumes "start_import L P perm drain cfg as m p = (Inr m', p')" "mu_completed m' = Some True"
    and "healthy p" "ic_address cfg" "permuting drain" "p2p_ok L P" "\<forall>a\<in>set as. an_address a \<noteq> None"
  shows "\<exists>a\<in>set as. \<forall>x. balance_of (data p') x = credited_sum L P x (imported_pairs (an_events a))"
  using assms(1,3,7)
proof (induction as arbitrary: m p)
  case Nil
  then show ?case using assms(2) by (auto simp: ret_def)
next
  case (Cons a as)
  from Cons.prems(1) obtain completed m1 q where a: "import_attempt L P perm drain cfg a m p = (Inr (completed, m1), q)"
    and rest: "(if completed then ret (m1\<lparr>mu_completed := Some True\<rparr>) else start_import L P perm drain cfg as m1) q
      = (Inr m', p')"
    by (auto simp: bnd_Inr_iff)
  note c = attempt_cases [OF a Cons.prems(2) assms(4-6)]
  show ?case
  proof (cases completed)
    case True
    with rest c Cons.prems(3) show ?thesis by (auto simp: ret_def)
  next
    case False
    with rest c Cons.prems(3) Cons.IH [of m1 q] show ?thesis by simp
  qed
qed

text \<open>C10: a completed import rebuilds the balances exactly: on a healthy connection (on another the error of the
  final write is dropped and the import completes all the same), with the addresses not
  excluded and a peer address resolved for each attempt, whatever was in the
  table, and however many attempts failed halfway before, the balance of every address is the
  sum of the amounts that the UTXO set of one of the attempts credits to it, over all its chunks,
  whatever else the peer sent in between and in whatever order the hash map is drained.\<close>

theorem import_rebuilds_balances:
  assumes "start_import L P perm drain cfg as m p = (Inr m', p')" "mu_completed m' = Some True"
    and "healthy p" "ic_address cfg" "permuting drain" "p2p_ok L P" "\<forall>a\<in>set as. an_address a \<noteq> None"
  shows "\<exists>a\<in>set as. \<forall>x. balance_of (data p') x = credited_sum L P x (imported_pairs (an_events a))"
  using start_rebuilds [OF assms] .

section \<open>The protocol with the peer\<close>

text \<open>The requests for more chunks.\<close>

definition next_requests :: "import_state \<Rightarrow> nat" where
  "next_requests s = length (filter (\<lambda>x. x = SentRequestNextChunk) (im_sent s))"

lemma Suc_div: "Suc n div k = n div k + (if Suc n mod k = 0 then 1 else 0)" for k :: nat
  by (simp add: div_Suc)

lemma finish_state:
  "finish_import drain cfg s p = (Inr (Finished s'), p') \<Longrightarrow>
     im_chunks s' = im_chunks s \<and> im_sent s' = im_sent s
     \<and> mu_utxos_imported (im_metrics s') = Some (of_nat (im_total_utxos s))"
  by (auto simp: finish_import_def bnd_Inr_iff ret_def publish_counts_def split: if_splits)

lemma protocol_loop:
  assumes "receive_and_handle L P perm drain cfg es s p = (Inr (Finished s'), p')"
    and "next_requests s = im_chunks s div ibd_batch_size"
  shows "next_requests s' = im_chunks s' div ibd_batch_size \<and> im_chunks s' = im_chunks s + length (imported_chunks es)"
  using assms
proof (induction rule: receive_Finished_induct)
  case (Chunk ps sends es s p s1 q)
  from Chunk.hyps have c: "im_chunks s1 = im_chunks s + 1"
    "im_sent s1 = im_sent s @ (if (im_chunks s + 1) mod ibd_batch_size = 0 then [SentRequestNextChunk] else [])"
    by (rule handle_chunk_Continue; simp)+
  then have "next_requests s1 = im_chunks s1 div ibd_batch_size"
    using Chunk.prems Suc_div [of "im_chunks s" ibd_batch_size] by (simp add: next_requests_def)
  from Chunk.IH [OF this] c(1) show ?case by simp
next
  case (Done sends es s p)
  from finish_state [OF Done.hyps] Done.prems show ?case by (simp add: next_requests_def)
qed (simp add: next_requests_def)

text \<open>The peer is asked for more exactly once per 99 chunks: a finished import has counted every chunk
  before the end of the set, and sent one request for the next chunks per full batch of 99.\<close>

lemma import_requests_per_batch:
  assumes "receive_and_handle L P perm drain cfg es (import_new m) p = (Inr (Finished s'), p')"
  shows "im_chunks s' = length (imported_chunks es) \<and> next_requests s' = length (imported_chunks es) div 99"
  using protocol_loop [OF assms] by (simp add: import_new_def next_requests_def ibd_batch_size_def)

section \<open>The report\<close>

lemma import_pairs_excluded:
  "import_pairs L P cfg ps agg = Inr (rows, ids, agg') \<Longrightarrow> \<not> ic_address cfg \<Longrightarrow> agg' = agg"
  by (induction ps arbitrary: agg rows ids) (auto simp: sbind_Inr_iff import_pair_def Let_def)

lemma excluded_loop:
  assumes "receive_and_handle L P perm drain cfg es s p = (Inr (Finished s'), p')" "\<not> ic_address cfg"
    and "im_balances s = []" "im_total_utxos s = 0"
  shows "mu_utxos_imported (im_metrics s') = Some 0"
  using assms(1,3,4)
proof (induction rule: receive_Finished_induct)
  case (Chunk ps sends es s p s1 q)
  from Chunk.hyps obtain acc outs agg where c: "persist_utxos_chunk L P perm cfg ps (im_balances s) p
      = (Inr (acc, outs, length agg, agg), q)" "im_balances s1 = agg"
      "im_total_utxos s1 = im_total_utxos s + length agg"
    by (rule handle_chunk_Continue)
  from c(1) have "agg = im_balances s"
    by (rule persist_Inr) (use import_pairs_excluded assms(2) in blast)
  with c Chunk.prems Chunk.IH show ?case by simp
next
  case (Done sends es s p)
  from finish_state [OF Done.hyps] Done.prems show ?case by simp
qed simp

text \<open>The number of imported UTXOs in the report is not one: it adds up the distinct addresses seen so
  far, so with the addresses excluded from the rows a finished import reports no UTXOs at all,
  however many it wrote.\<close>

lemma import_report_without_addresses:
  assumes "receive_and_handle L P perm drain cfg es (import_new m) p = (Inr (Finished s'), p')"
    and "\<not> ic_address cfg"
  shows "mu_utxos_imported (im_metrics s') = Some 0"
  using excluded_loop [OF assms] by (simp add: import_new_def)

section \<open>The rows\<close>

text \<open>A pair is stored: its output is a row, and its transaction counts as accepted.\<close>

definition pair_stored :: "'k p2p_libs \<Rightarrow> db \<Rightarrow> utxo_pair \<Rightarrow> bool" where
  "pair_stored P d pair = (case up_outpoint pair of
     Some (Some bytes, idx) \<Rightarrow> (case hash_from_slice P bytes of
         Some h \<Rightarrow> Some (h, as_i16 (ucast idx)) \<in> output_key ` set (t_outputs d)
           \<and> Some h \<in> ta_transaction_id ` set (t_acceptances d)
       | None \<Rightarrow> False)
   | _ \<Rightarrow> False)"

lemma import_pair_key:
  assumes "import_pair L P cfg pair agg = Inr (row, txid, agg')"
  shows "\<exists>bytes idx. up_outpoint pair = Some (Some bytes, idx) \<and> hash_from_slice P bytes = Some txid
    \<and> output_key row = Some (txid, as_i16 (ucast idx))"
  using assms by (auto simp: import_pair_def sbind_Inr_iff Let_def output_key_def)

lemma import_pairs_keys:
  "import_pairs L P cfg ps agg = Inr (rows, ids, agg') \<Longrightarrow> pair \<in> set ps \<Longrightarrow>
     \<exists>bytes idx h row. up_outpoint pair = Some (Some bytes, idx) \<and> hash_from_slice P bytes = Some h
       \<and> output_key row = Some (h, as_i16 (ucast idx)) \<and> row \<in> set rows \<and> h \<in> set ids"
proof (induction ps arbitrary: agg rows ids)
  case (Cons p ps)
  then show ?case by (fastforce simp: sbind_Inr_iff dest: import_pair_key)
qed simp

lemma import_pairs_length:
  "import_pairs L P cfg ps agg = Inr (rows, ids, agg') \<Longrightarrow> length rows = length ps \<and> length ids = length ps"
proof (induction ps arbitrary: agg rows ids)
  case (Cons p ps)
  then show ?case by (fastforce simp: sbind_Inr_iff)
qed simp

definition fitting :: "utxo_pair list \<Rightarrow> bool" where
  "fitting ps \<longleftrightarrow> ps \<noteq> [] \<and> length ps * 6 \<le> bind_limit"

lemma persist_stores:
  assumes "persist_utxos_chunk L P perm cfg pairs agg p = (Inr (acc, outs, n, agg'), p')" "healthy p"
    and "permuting perm" "fitting pairs"
  shows "\<forall>pair\<in>set pairs. pair_stored P (data p') pair"
proof
  fix pair assume pair: "pair \<in> set pairs"
  from assms(1) obtain rows ids p1 where c: "import_pairs L P cfg pairs agg = Inr (rows, ids, agg')"
    "or_default 0 (insert_transaction_acceptances
       (map (\<lambda>h. \<lparr>ta_transaction_id = Some h, ta_block_hash = None\<rparr>) (perm (remdups ids)))) p
       = (Inr acc :: panic + nat, p1)"
    "or_default 0 (insert_transaction_outputs rows) p1 = (Inr outs :: panic + nat, p')"
    by (rule persist_Inr)
  let ?as = "map (\<lambda>h. \<lparr>ta_transaction_id = Some h, ta_block_hash = None\<rparr>) (perm (remdups ids))"
  from import_pairs_keys [OF c(1) pair] obtain bytes idx h row where
    k: "up_outpoint pair = Some (Some bytes, idx)" "hash_from_slice P bytes = Some h"
      "output_key row = Some (h, as_i16 (ucast idx))" "row \<in> set rows" "h \<in> set ids" by blast
  note len = import_pairs_length [OF c(1)]
  have set: "set (perm (remdups ids)) = set ids" using permuting_set [OF assms(3)] by simp
  have "length (perm (remdups ids)) \<le> length pairs"
    using mset_eq_length [of "perm (remdups ids)" "remdups ids"] assms(3) length_remdups_leq [of ids] len
    by (simp add: permuting_def)
  then have "?as \<noteq> []" "length ?as * 2 \<le> bind_limit"
    using assms(4) k(5) set by (auto simp: fitting_def)
  note a = acceptances.ins_ok [OF assms(2) this]
  from a c(2) have p1: "insert_transaction_acceptances ?as p = (Inr acc, p1)" by (simp add: or_default_def)
  have "acceptance_key \<lparr>ta_transaction_id = Some h, ta_block_hash = None\<rparr>
      \<in> acceptance_key ` set (t_acceptances (data p1))"
    by (rule acceptances.ins_Inr_keys [OF p1]) (use k(5) set in \<open>auto simp: acceptance_key_def\<close>)
  then have acc: "Some h \<in> ta_transaction_id ` set (t_acceptances (data p1))"
    by (force simp: acceptance_key_def)
  have "healthy p1" using quiet_inserts(1) [OF assms(2) c(2)] by blast
  moreover have "rows \<noteq> []" "length rows * 6 \<le> bind_limit" using len assms(4) by (auto simp: fitting_def)
  ultimately have p': "insert_transaction_outputs rows p1 = (Inr outs, p')"
    using c(3) outputs.ins_ok [of p1 rows] by (simp add: or_default_def)
  from outputs.ins_Inr_keys [OF this k(4)] k(3) outputs.ins_only [OF p'] acc
  show "pair_stored P (data p') pair" by (auto simp: pair_stored_def k)
qed

text \<open>What is stored stays: inserts only add, and the end writes the balances alone.\<close>

lemma pair_stored_mono:
  assumes "pair_stored P d pair" "set (t_outputs d) \<subseteq> set (t_outputs d')" "set (t_acceptances d) \<subseteq> set (t_acceptances d')"
  shows "pair_stored P d' pair"
  using assms(1) image_mono [OF assms(2), of output_key] image_mono [OF assms(3), of ta_transaction_id]
  by (cases "up_outpoint pair"; cases "fst (the (up_outpoint pair))")
    (auto simp: pair_stored_def split: option.splits prod.splits)

lemma or_default_run:
  assumes "or_default d m p = (Inr x, q)"
  obtains r where "m p = (r, q)"
  using assms by (auto simp: or_default_def split: prod.splits sum.splits)

lemma persist_grows:
  assumes "persist_utxos_chunk L P perm cfg pairs agg p = (Inr (acc, outs, n, agg'), p')"
  shows "set (t_outputs (data p)) \<subseteq> set (t_outputs (data p'))
    \<and> set (t_acceptances (data p)) \<subseteq> set (t_acceptances (data p'))"
proof -
  from assms obtain rows as p1 where
    1: "or_default 0 (insert_transaction_acceptances as) p = (Inr acc :: panic + nat, p1)"
    and 2: "or_default 0 (insert_transaction_outputs rows) p1 = (Inr outs :: panic + nat, p')"
    by (rule persist_Inr) blast
  from 1 obtain r1 where a: "insert_transaction_acceptances as p = (r1, p1)" by (rule or_default_run)
  from 2 obtain r2 where b: "insert_transaction_outputs rows p1 = (r2, p')" by (rule or_default_run)
  show ?thesis
    using acceptances.ins_keeps [OF a] outputs.ins_keeps [OF b] acceptances.ins_only [OF a] outputs.ins_only [OF b]
    by auto
qed

lemma finish_only_balances:
  assumes "finish_import drain cfg s p = (Inr (Finished s'), p')"
  shows "\<exists>t. data p' = (data p)\<lparr>t_balances := t\<rparr>"
proof (cases "ic_address cfg \<and> im_balances s \<noteq> []")
  case True
  let ?u = "update_balances_absolute (map (\<lambda>(a, b). balance_new a b) (drain (im_balances s)))"
  from True assms obtain x where "or_default 0 ?u p = (Inr x :: panic + nat, p')"
    by (auto simp: finish_import_def bnd_Inr_iff ret_def)
  then obtain r where "?u p = (r, p')" by (rule or_default_run)
  moreover obtain t where "data (snd (?u p)) = (data p)\<lparr>t_balances := t\<rparr>" using absolute_run by blast
  ultimately show ?thesis by auto
next
  case False
  then have "data p' = (data p)\<lparr>t_balances := t_balances (data p)\<rparr>" using assms by (auto simp: finish_import_def ret_def)
  then show ?thesis by blast
qed

lemma finish_other_tables:
  assumes "finish_import drain cfg s p = (Inr (Finished s'), p')"
  shows "t_outputs (data p') = t_outputs (data p) \<and> t_acceptances (data p') = t_acceptances (data p)"
  using finish_only_balances [OF assms] by auto

lemma import_loop_stores:
  assumes "receive_and_handle L P perm drain cfg es s p = (Inr (Finished s'), p')"
    and "healthy p" "permuting perm" "\<forall>ps\<in>set (imported_chunks es). fitting ps"
  shows "(\<forall>pair\<in>set (imported_pairs es). pair_stored P (data p') pair)
    \<and> set (t_outputs (data p)) \<subseteq> set (t_outputs (data p')) \<and> set (t_acceptances (data p)) \<subseteq> set (t_acceptances (data p'))"
  using assms(1,2,4)
proof (induction rule: receive_Finished_induct)
  case (Chunk ps sends es s p s1 q)
  from Chunk.hyps obtain acc outs agg where
    c: "persist_utxos_chunk L P perm cfg ps (im_balances s) p = (Inr (acc, outs, length agg, agg), q)"
    by (rule handle_chunk_Continue)
  have IH: "(\<forall>pair\<in>set (imported_pairs es). pair_stored P (data p') pair)"
    "set (t_outputs (data q)) \<subseteq> set (t_outputs (data p'))" "set (t_acceptances (data q)) \<subseteq> set (t_acceptances (data p'))"
    using Chunk.IH persist_quiet [OF c Chunk.prems(1)] Chunk.prems(2) by simp_all
  moreover have "\<forall>pair\<in>set ps. pair_stored P (data p') pair"
    using persist_stores [OF c Chunk.prems(1) assms(3)] Chunk.prems(2) pair_stored_mono [OF _ IH(2,3)] by auto
  ultimately show ?case using persist_grows [OF c] by auto
next
  case (Done sends es s p)
  from finish_other_tables [OF Done.hyps] show ?case by simp
qed auto

text \<open>C25: a finished import has stored the whole set, when its statements can succeed: on a healthy connection and
  with chunks that are not empty and fit one statement (the error of a failed insert is dropped), every
  output the peer sent before the end is a row of the outputs table, and its
  transaction counts as accepted.\<close>

theorem import_stores_outputs:
  assumes "receive_and_handle L P perm drain cfg es (import_new m) p = (Inr (Finished s'), p')"
    and "healthy p" "permuting perm" "\<forall>ps\<in>set (imported_chunks es). fitting ps"
  shows "\<forall>ps\<in>set (imported_chunks es). \<forall>pair\<in>set ps. pair_stored P (data p') pair"
  using import_loop_stores [OF assms] by auto

section \<open>Completion\<close>

definition well_behaved :: "p2p_event \<Rightarrow> bool" where
  "well_behaved e = (case e of Message m sends \<Rightarrow> m \<noteq> UnexpectedPruningPoint \<and> sends 0 \<and> sends 1 | _ \<Rightarrow> False)"

lemma import_pairs_append:
  "import_pairs L P cfg (ps @ qs) agg = Inr (rows, ids, agg') \<Longrightarrow>
     \<exists>r1 i1 agg1 r2 i2. import_pairs L P cfg ps agg = Inr (r1, i1, agg1)
       \<and> import_pairs L P cfg qs agg1 = Inr (r2, i2, agg')"
  by (induction ps arbitrary: agg rows ids) (fastforce simp: sbind_Inr_iff)+

lemma or_default_total: obtains x q where "or_default d m p = (Inr x, q)"
  by (cases "m p"; cases "fst (m p)") (auto simp: or_default_def)

lemma persist_total:
  assumes "import_pairs L P cfg pairs agg = Inr (rows, ids, agg')"
  shows "\<exists>acc outs q. persist_utxos_chunk L P perm cfg pairs agg p = (Inr (acc, outs, length agg', agg'), q)"
proof -
  let ?as = "map (\<lambda>h. \<lparr>ta_transaction_id = Some h, ta_block_hash = None\<rparr>) (perm (remdups ids))"
  obtain acc p1 where 1: "or_default 0 (insert_transaction_acceptances ?as) p = (Inr acc :: panic + nat, p1)"
    by (rule or_default_total)
  obtain outs q where 2: "or_default 0 (insert_transaction_outputs rows) p1 = (Inr outs :: panic + nat, q)"
    by (rule or_default_total)
  show ?thesis using assms 1 2 by (simp add: persist_utxos_chunk_def lift_res_def bnd_def ret_def)
qed

lemma receive_completes:
  assumes "list_all well_behaved es" "Message DonePruningPointUtxoSetChunks sends \<in> set es"
    and "import_pairs L P cfg (imported_pairs es) (im_balances s) = Inr (rows, ids, agg)"
  shows "\<exists>s' p'. receive_and_handle L P perm drain cfg es s p = (Inr (Finished s'), p')"
  using assms
proof (induction es arbitrary: s p rows ids)
  case (Cons e es)
  then obtain m ss where e: "e = Message m ss" "m \<noteq> UnexpectedPruningPoint" "ss 0" "ss 1"
    by (cases e) (auto simp: well_behaved_def)
  show ?case
  proof (cases m)
    case (PruningPointUtxoSetChunk ps)
    with Cons.prems(3) e have "import_pairs L P cfg (ps @ imported_pairs es) (im_balances s) = Inr (rows, ids, agg)" by simp
    from import_pairs_append [OF this] obtain r1 i1 agg1 r2 i2 where
      c: "import_pairs L P cfg ps (im_balances s) = Inr (r1, i1, agg1)"
      "import_pairs L P cfg (imported_pairs es) agg1 = Inr (r2, i2, agg)" by auto
    from persist_total [OF c(1)] obtain acc outs q where
      "persist_utxos_chunk L P perm cfg ps (im_balances s) p = (Inr (acc, outs, length agg1, agg1), q)" by blast
    then obtain s1 where "handle_chunk L P perm cfg ps True s p = (Inr (Continue s1), q)" "im_balances s1 = agg1"
      by (cases "(im_chunks s + 1) mod ibd_batch_size = 0")
        (auto simp: handle_chunk_def bnd_def ret_def Let_def publish_counts_def)
    with Cons.IH [of s1 r2 i2 q] c(2) Cons.prems(1,2) e PruningPointUtxoSetChunk show ?thesis
      by (simp add: bnd_def)
  next
    case DonePruningPointUtxoSetChunks
    obtain n q where "or_default 0 (update_balances_absolute (map (\<lambda>(a, b). balance_new a b) (drain (im_balances s)))) p
        = (Inr n :: panic + nat, q)"
      by (rule or_default_total)
    then have "\<exists>s' p'. finish_import drain cfg s p = (Inr (Finished s'), p')"
      by (simp add: finish_import_def bnd_def ret_def)
    with e DonePruningPointUtxoSetChunks show ?thesis by (auto simp: bnd_def ret_def)
  next
    case RequestAddresses
    then show ?thesis
      using Cons.IH [of "s\<lparr>im_sent := (im_sent s @ [SentAddresses]) @ [SentRequestUtxoSet (ic_pruning_point cfg)]\<rparr>" rows ids p]
        Cons.prems e by (simp add: bnd_def ret_def Let_def)
  next
    case (Ping n)
    then show ?thesis
      using Cons.IH [of "s\<lparr>im_sent := im_sent s @ [SentPong n]\<rparr>" rows ids p] Cons.prems e by (simp add: bnd_def ret_def)
  qed (use Cons.IH [of s rows ids p] Cons.prems e in \<open>simp_all add: bnd_def ret_def\<close>)
qed simp

lemma start_completes:
  assumes "list_all well_behaved (an_events a)" "Message DonePruningPointUtxoSetChunks sends \<in> set (an_events a)"
    and "import_pairs L P cfg (imported_pairs (an_events a)) [] = Inr (rows, ids, agg)" "an_connects a"
  shows "\<exists>m' p'. start_import L P perm drain cfg (a # as) m p = (Inr m', p') \<and> mu_completed m' = Some True"
proof -
  let ?m = "import_metrics_reset m"
  obtain u q where q: "(if ic_address cfg then or_default () truncate_balances else ret ()) p = (Inr u :: panic + unit, q)"
    by (rule or_default_total [of "()" truncate_balances p]; cases "ic_address cfg") (auto simp: ret_def)
  obtain s' p' where "receive_and_handle L P perm drain cfg (an_events a) (import_new ?m) q = (Inr (Finished s'), p')"
    using receive_completes [OF assms(1,2), of L P cfg "import_new ?m" rows ids agg perm drain q] assms(3)
    by (auto simp: import_new_def)
  with q assms(4) show ?thesis
    by (cases "an_address a") (simp_all add: import_attempt_def bnd_def ret_def Let_def)
qed

text \<open>C24: the import completes: when a peer sends a set whose pairs convert, answers every send, and ends the
  set, the attempt finishes, whatever the database does, and \<open>start\<close> reports it completed.\<close>

theorem import_completes:
  assumes "list_all well_behaved (an_events a)" "Message DonePruningPointUtxoSetChunks sends \<in> set (an_events a)"
    and "import_pairs L P cfg (imported_pairs (an_events a)) [] = Inr (rows, ids, agg)" "an_connects a"
  shows "\<exists>m' p'. start_import L P perm drain cfg (a # as) m p = (Inr m', p') \<and> mu_completed m' = Some True"
  using start_completes [OF assms] .

section \<open>A concrete import\<close>

definition sample_p2p :: "byte list p2p_libs" where
  "sample_p2p = \<lparr>hash_from_slice = (\<lambda>b. Some (Hash b)), script_public_key = (\<lambda>(v, b). Some b),
     script_bytes = (\<lambda>b. b), script_address = (\<lambda>b. if b = [] then None else Some ''a'')\<rparr>"

lemma sample_p2p_ok: "p2p_ok sample_libs sample_p2p"
  by (simp add: p2p_ok_def sample_libs_def sample_p2p_def)

definition sample_pair :: "byte \<Rightarrow> u64 \<Rightarrow> utxo_pair" where
  "sample_pair b v = \<lparr>up_outpoint = Some (Some [b], 0), up_entry = Some (v, Some (0, [1]))\<rparr>"

text \<open>Two outputs of one address in two chunks, a ping between them.\<close>

definition sample_events :: "p2p_event list" where
  "sample_events = [Message RequestAddresses (\<lambda>_. True), Message (PruningPointUtxoSetChunk [sample_pair 1 5]) (\<lambda>_. True),
     Message (Ping 7) (\<lambda>_. True), Message (PruningPointUtxoSetChunk [sample_pair 2 7]) (\<lambda>_. True),
     Message DonePruningPointUtxoSetChunks (\<lambda>_. True)]"

definition sample_import_config :: "bool \<Rightarrow> import_config" where
  "sample_import_config address = \<lparr>ic_amount = True, ic_script = True, ic_address = address, ic_block_time = True,
     ic_pruning_point = Hash [1]\<rparr>"

definition sample_attempt :: "bool \<Rightarrow> attempt" where
  "sample_attempt connects = \<lparr>an_address = Some ''p'', an_connects = connects, an_events = sample_events\<rparr>"

lemma sample_pairs:
  "\<exists>rows ids agg. import_pairs sample_libs sample_p2p (sample_import_config b) (imported_pairs sample_events) []
     = Inr (rows, ids, agg)"
proof -
  have "as_i64 5 = 5" "as_i64 7 = 7" by (simp_all add: as_i64_def)
  then show ?thesis
    by (cases b) (simp_all add: sample_events_def import_pair_def sample_pair_def sample_p2p_def sample_libs_def
        expect_def add_balance_def in_signed_def sample_import_config_def)
qed

lemma sample_well_behaved:
  "list_all well_behaved sample_events" "Message DonePruningPointUtxoSetChunks (\<lambda>_. True) \<in> set sample_events"
  by (simp_all add: sample_events_def well_behaved_def)

definition sample_import_start :: "attempt list \<Rightarrow> (panic + metrics_utxo_importer) \<times> pool" where
  "sample_import_start as = start_import sample_libs sample_p2p (\<lambda>xs. xs) (\<lambda>xs. xs) (sample_import_config True) as
     (me_utxo_importer metrics_new) (pool_of schema_db)"

definition sample_receive :: "bool \<Rightarrow> (panic + turn) \<times> pool" where
  "sample_receive address = receive_and_handle sample_libs sample_p2p (\<lambda>xs. xs) (\<lambda>xs. xs)
     (sample_import_config address) sample_events (import_new (me_utxo_importer metrics_new)) (pool_of schema_db)"

lemma sample_receive_runs:
  obtains s p where "sample_receive b = (Inr (Finished s), p)"
proof -
  obtain rows ids agg where "import_pairs sample_libs sample_p2p (sample_import_config b) (imported_pairs sample_events) []
     = Inr (rows, ids, agg)" using sample_pairs by blast
  then have "import_pairs sample_libs sample_p2p (sample_import_config b) (imported_pairs sample_events)
     (im_balances (import_new (me_utxo_importer metrics_new))) = Inr (rows, ids, agg)"
    by (simp add: import_new_def)
  from receive_completes [OF sample_well_behaved this] that show thesis unfolding sample_receive_def by blast
qed

theorem import_completes_witness:
  "\<exists>m p. sample_import_start [sample_attempt True] = (Inr m, p) \<and> mu_completed m = Some True"
proof -
  obtain rows ids agg where "import_pairs sample_libs sample_p2p (sample_import_config True) (imported_pairs sample_events) []
     = Inr (rows, ids, agg)" using sample_pairs by blast
  then show ?thesis
    using import_completes [of "sample_attempt True" "\<lambda>_. True"] sample_well_behaved
    unfolding sample_import_start_def by (simp add: sample_attempt_def)
qed

text \<open>The first attempt does not connect.\<close>

lemma sample_import_start_runs:
  obtains m p where "sample_import_start [sample_attempt False, sample_attempt True] = (Inr m, p)" "mu_completed m = Some True"
proof -
  let ?m = "import_metrics_reset (import_metrics_reset (me_utxo_importer metrics_new))"
  have e: "(pool_of schema_db)\<lparr>data := (data (pool_of schema_db))\<lparr>t_balances := Map.empty\<rparr>\<rparr> = pool_of schema_db"
    by (simp add: schema_db_def)
  obtain rows ids agg where "import_pairs sample_libs sample_p2p (sample_import_config True) (imported_pairs sample_events) []
     = Inr (rows, ids, agg)" using sample_pairs by blast
  then have "import_pairs sample_libs sample_p2p (sample_import_config True) (imported_pairs sample_events)
     (im_balances (import_new ?m)) = Inr (rows, ids, agg)" by (simp add: import_new_def)
  then obtain s p where r: "receive_and_handle sample_libs sample_p2p (\<lambda>xs. xs) (\<lambda>xs. xs) (sample_import_config True)
      sample_events (import_new ?m) (pool_of schema_db) = (Inr (Finished s), p)"
    using receive_completes [OF sample_well_behaved] by blast
  have "or_default () truncate_balances (pool_of schema_db) = (Inr () :: panic + unit, pool_of schema_db)"
    using e by (simp add: truncate_balances_def or_default_def execute_healthy)
  with r that show thesis
    by (simp add: sample_import_start_def import_attempt_def sample_attempt_def bnd_def ret_def sample_import_config_def)
qed

theorem import_rebuilds_balances_witness:
  "\<exists>m p. sample_import_start [sample_attempt False, sample_attempt True] = (Inr m, p) \<and> balance_of (data p) ''a'' = 12"
proof -
  obtain m p where r: "sample_import_start [sample_attempt False, sample_attempt True] = (Inr m, p)" "mu_completed m = Some True"
    by (rule sample_import_start_runs)
  have "\<exists>a\<in>set [sample_attempt False, sample_attempt True].
      \<forall>x. balance_of (data p) x = credited_sum sample_libs sample_p2p x (imported_pairs (an_events a))"
    by (rule import_rebuilds_balances [OF r(1) [unfolded sample_import_start_def] r(2)])
      (use sample_p2p_ok permuting_id in \<open>simp_all add: sample_import_config_def sample_attempt_def\<close>)
  moreover have "as_i64 5 = 5" "as_i64 7 = 7" by (simp_all add: as_i64_def)
  ultimately show ?thesis using r(1)
    by (simp add: sample_attempt_def sample_events_def sample_pair_def credited_def sample_p2p_def sample_libs_def)
qed

theorem import_stores_outputs_witness:
  "\<exists>s p. sample_receive True = (Inr (Finished s), p) \<and> Some (Hash [1], 0) \<in> output_key ` set (t_outputs (data p))"
proof -
  obtain s p where r: "sample_receive True = (Inr (Finished s), p)" by (rule sample_receive_runs)
  have "\<forall>ps\<in>set (imported_chunks sample_events). \<forall>pair\<in>set ps. pair_stored sample_p2p (data p) pair"
    by (rule import_stores_outputs [OF r [unfolded sample_receive_def] _ permuting_id])
      (simp_all add: sample_events_def fitting_def bind_limit_def)
  with r show ?thesis by (simp add: sample_events_def pair_stored_def sample_pair_def sample_p2p_def as_i16_def)
qed

end
