(* ===== verification/Import_Ledger.thy ===== *)
theory Import_Ledger
  imports Utxo_Import_Props Ledger
begin

text \<open>
  The UTXO import starts the ledger that the live updates carry on: it leaves the rows of
  \<open>transactions_outputs\<close> and \<open>transactions_acceptances\<close> and the balances in agreement.
\<close>

section \<open>The rows of a chunk\<close>

text \<open>The primary key of a pair's row: the transaction and the index, cut to 16 bits.\<close>

definition pair_key :: "'k p2p_libs \<Rightarrow> utxo_pair \<Rightarrow> (hash \<times> int) option" where
  "pair_key P pair = (case up_outpoint pair of
     Some (Some bytes, idx) \<Rightarrow> map_option (\<lambda>h. (h, as_i16 (ucast idx))) (hash_from_slice P bytes)
   | _ \<Rightarrow> None)"

lemma import_pair_row:
  assumes "import_pair L P cfg pair agg = Inr (row, txid, agg')" "ic_address cfg" "ic_amount cfg"
  shows "output_key row = pair_key P pair \<and> out_transaction_id row = txid \<and> amount_to a row = credited L P a pair"
  using assms by (auto simp: import_pair_def sbind_Inr_iff Let_def output_key_def pair_key_def amount_to_def
      credited_def then_some_def split: option.splits)

lemma import_pairs_rows:
  assumes "import_pairs L P cfg ps agg = Inr (rows, ids, agg')" "ic_address cfg" "ic_amount cfg"
  shows "map output_key rows = map (pair_key P) ps \<and> map out_transaction_id rows = ids
    \<and> sum_list (map (amount_to a) rows) = credited_sum L P a ps"
  using assms(1)
proof (induction ps arbitrary: agg rows ids)
  case (Cons p ps)
  from Cons.prems obtain row txid agg1 rows1 ids1 where
    1: "import_pair L P cfg p agg = Inr (row, txid, agg1)" and
    2: "import_pairs L P cfg ps agg1 = Inr (rows1, ids1, agg')" "rows = row # rows1" "ids = txid # ids1"
    by (auto simp: sbind_Inr_iff)
  from import_pair_row [OF 1 assms(2,3)] Cons.IH [OF 2(1)] 2(2,3) show ?case by simp
qed simp

section \<open>The imported tables\<close>

text \<open>All that is there comes from the import: every acceptance is without a block, and every output's
  transaction has one.\<close>

definition imported_only :: "db \<Rightarrow> bool" where
  "imported_only d \<longleftrightarrow> unique_keys acceptance_key (t_acceptances d) \<and> (\<forall>a\<in>set (t_acceptances d). ta_block_hash a = None)
     \<and> (\<forall>r\<in>set (t_outputs d). Some (out_transaction_id r) \<in> ta_transaction_id ` set (t_acceptances d))"

lemma persist_rows:
  assumes "persist_utxos_chunk L P perm cfg pairs agg p = (Inr (acc, outs, n, agg'), p')" "healthy p"
    and "permuting perm" "fitting pairs" "ic_address cfg" "ic_amount cfg" "imported_only (data p)"
    and "distinct (map output_key (t_outputs (data p)) @ map (pair_key P) pairs)"
  obtains rows as where "data p' = (data p)\<lparr>t_acceptances := as, t_outputs := t_outputs (data p) @ rows\<rparr>"
    "imported_only (data p')" "map output_key rows = map (pair_key P) pairs"
    "\<And>a. sum_list (map (amount_to a) rows) = credited_sum L P a pairs"
proof -
  from assms(1) obtain rows ids p1 where c: "import_pairs L P cfg pairs agg = Inr (rows, ids, agg')"
    "or_default 0 (insert_transaction_acceptances
       (map (\<lambda>h. \<lparr>ta_transaction_id = Some h, ta_block_hash = None\<rparr>) (perm (remdups ids)))) p
       = (Inr acc :: panic + nat, p1)"
    "or_default 0 (insert_transaction_outputs rows) p1 = (Inr outs :: panic + nat, p')"
    by (rule persist_Inr)
  let ?as = "map (\<lambda>h. \<lparr>ta_transaction_id = Some h, ta_block_hash = None\<rparr>) (perm (remdups ids))"
  note len = import_pairs_length [OF c(1)]
  have set: "set (perm (remdups ids)) = set ids" using permuting_set [OF assms(3)] by simp
  have "length (perm (remdups ids)) \<le> length pairs"
    using mset_eq_length [of "perm (remdups ids)" "remdups ids"] assms(3) length_remdups_leq [of ids] len
    by (simp add: permuting_def)
  moreover have "ids \<noteq> []" using len assms(4) by (auto simp: fitting_def)
  ultimately have "?as \<noteq> []" "length ?as * 2 \<le> bind_limit"
    using assms(4) set by (auto simp: fitting_def)
  note a = acceptances.ins_ok [OF assms(2) this]
  let ?t = "snd (insert_rows acceptance_key ?as (t_acceptances (data p)))"
  from a c(2) have p1: "p1 = p\<lparr>data := (data p)\<lparr>t_acceptances := ?t\<rparr>\<rparr>"
    by (simp add: or_default_def)
  have "healthy p1" "rows \<noteq> []" "length rows * 6 \<le> bind_limit"
    using assms(2,4) len p1 by (auto simp: fitting_def)
  note o = outputs.ins_ok [OF this]
  have rows: "map output_key rows = map (pair_key P) pairs" "map out_transaction_id rows = ids"
    "\<And>a. sum_list (map (amount_to a) rows) = credited_sum L P a pairs"
    using import_pairs_rows [OF c(1) assms(5,6)] by auto
  have ins: "insert_rows output_key rows (t_outputs (data p1)) = (length rows, t_outputs (data p1) @ rows)"
  proof (rule insert_rows_fresh)
    show "distinct (map output_key rows)" using assms(8) rows(1) by simp
    show "output_key r \<notin> set (map output_key (t_outputs (data p1)))" if "r \<in> set rows" for r
    proof -
      have "output_key r \<in> set (map (pair_key P) pairs)" using that rows(1) by (metis image_eqI set_map)
      then show ?thesis using assms(8) p1 by auto
    qed
  qed
  obtain x where "insert_transaction_outputs rows p1 = (x, p')" using c(3) by (rule or_default_run)
  then have "data p' = (data p1)\<lparr>t_outputs := t_outputs (data p1) @ rows\<rparr>"
    using o ins by (metis Pair_inject pool.select_convs(1) pool.surjective pool.update_convs(1) snd_conv)
  then have d: "data p' = (data p)\<lparr>t_acceptances := ?t, t_outputs := t_outputs (data p) @ rows\<rparr>"
    by (simp add: p1)
  obtain us where us: "?t = t_acceptances (data p) @ us" "set us \<subseteq> set ?as"
    using insert_rows_prefix [of acceptance_key ?as "t_acceptances (data p)"] by blast
  have key: "Some (out_transaction_id r) \<in> set (map acceptance_key ?t)" if "r \<in> set rows" for r
  proof -
    have "out_transaction_id r \<in> set ids" using that rows(2) by auto
    then have "Some (out_transaction_id r) \<in> set (map acceptance_key ?as)"
      using set by (auto simp: acceptance_key_def image_image)
    then show ?thesis using insert_rows_key_iff [of "Some (out_transaction_id r)" acceptance_key ?as] by blast
  qed
  have "imported_only (data p')"
    unfolding imported_only_def d
  proof (simp, intro conjI ballI)
    show "unique_keys acceptance_key ?t"
      using assms(7) by (intro insert_rows_unique) (simp add: imported_only_def)
    show "ta_block_hash x = None" if "x \<in> set ?t" for x
      using that us assms(7) by (auto simp: imported_only_def)
    show "Some (out_transaction_id r) \<in> ta_transaction_id ` set ?t"
      if "r \<in> set (t_outputs (data p)) \<union> set rows" for r
    proof (cases "r \<in> set rows")
      case True
      from key [OF this] show ?thesis by (auto simp: acceptance_key_def)
    next
      case False
      then show ?thesis using that us(1) assms(7) by (auto simp: imported_only_def)
    qed
  qed
  from that [OF d this rows(1,3)] show thesis .
qed

lemma import_loop_rows:
  assumes "receive_and_handle L P perm drain cfg es s p = (Inr (Finished s'), p')"
    and "healthy p" "imported_only (data p)" "\<forall>ps\<in>set (imported_chunks es). fitting ps"
    and "distinct (map output_key (t_outputs (data p)) @ map (pair_key P) (imported_pairs es))"
    and "permuting perm" "ic_address cfg" "ic_amount cfg"
  shows "imported_only (data p') \<and> t_inputs (data p') = t_inputs (data p) \<and> t_blocks (data p') = t_blocks (data p)
    \<and> map output_key (t_outputs (data p')) = map output_key (t_outputs (data p)) @ map (pair_key P) (imported_pairs es)
    \<and> sum_list (map (amount_to a) (t_outputs (data p')))
      = sum_list (map (amount_to a) (t_outputs (data p))) + credited_sum L P a (imported_pairs es)"
  using assms(1-5)
proof (induction rule: receive_Finished_induct)
  case (Chunk ps sends es s p s1 q)
  from Chunk.hyps obtain acc outs agg where
    c: "persist_utxos_chunk L P perm cfg ps (im_balances s) p = (Inr (acc, outs, length agg, agg), q)"
    by (rule handle_chunk_Continue)
  have fit: "fitting ps" "\<forall>ps\<in>set (imported_chunks es). fitting ps" using Chunk.prems(3) by simp_all
  have d: "distinct (map output_key (t_outputs (data p)) @ map (pair_key P) ps)" using Chunk.prems(4) by auto
  obtain rows as where r: "data q = (data p)\<lparr>t_acceptances := as, t_outputs := t_outputs (data p) @ rows\<rparr>"
    "imported_only (data q)" "map output_key rows = map (pair_key P) ps"
    "\<And>a. sum_list (map (amount_to a) rows) = credited_sum L P a ps"
    by (rule persist_rows [OF c Chunk.prems(1) assms(6) fit(1) assms(7,8) Chunk.prems(2) d]) (rule that; assumption)
  have "distinct (map output_key (t_outputs (data q)) @ map (pair_key P) (imported_pairs es))"
    using Chunk.prems(4) by (simp add: r(1) r(3))
  from Chunk.IH [OF _ r(2) fit(2) this] persist_quiet [OF c Chunk.prems(1)]
  show ?case by (simp add: r(1) r(3,4))
next
  case (Done sends es s p)
  have "\<exists>t. data p' = (data p)\<lparr>t_balances := t\<rparr>" using finish_only_balances [OF Done.hyps] .
  then obtain t where "data p' = (data p)\<lparr>t_balances := t\<rparr>" by blast
  with Done.prems show ?case by (simp add: imported_only_def)
qed simp

section \<open>The ledger starts here\<close>

lemma imported_accepted:
  assumes "imported_only d" "r \<in> set (t_outputs d)"
  shows "accepted_at d s (out_transaction_id r)"
  using assms by (fastforce simp: imported_only_def accepted_at_def)

lemma imported_ledger:
  assumes "imported_only d" "t_inputs d = []" "distinct (map blk_hash (t_blocks d))"
  shows "ledger_ok d \<and> utxo_balance d a s = sum_list (map (amount_to a) (t_outputs d))"
proof -
  have "unspent_at d s = t_outputs d"
    unfolding unspent_at_def
    by (rule filter_True) (use imported_accepted [OF assms(1)] assms(2) in \<open>simp add: spent_at_def\<close>)
  moreover have "acceptance_key = ta_transaction_id" by (simp add: fun_eq_iff acceptance_key_def)
  ultimately show ?thesis
    using assms by (simp add: ledger_ok_def utxo_balance_def imported_only_def spent_at_def)
qed

text \<open>C14: the UTXO import starts the ledger: on a healthy connection, into tables without outputs, inputs,
  acceptances and balances, and with addresses and amounts not excluded, a finished import of chunks
  that each fit one statement, with outpoints distinct as the columns hold them, leaves tables that are a ledger,
  and every balance is that of the ledger's unspent outputs, at every blue score the stored blocks
  may have.\<close>

theorem import_starts_ledger:
  assumes "receive_and_handle L P perm drain cfg es (import_new m) p = (Inr (Finished s'), p')"
    and "healthy p" "permuting perm" "permuting drain" "p2p_ok L P" "ic_address cfg" "ic_amount cfg"
    and "t_outputs (data p) = []" "t_inputs (data p) = []" "t_acceptances (data p) = []"
    and "t_balances (data p) = Map.empty" "distinct (map blk_hash (t_blocks (data p)))"
    and "\<forall>ps\<in>set (imported_chunks es). fitting ps" "distinct (map (pair_key P) (imported_pairs es))"
  shows "ledger_ok (data p') \<and> (\<forall>a s. balance_of (data p') a = utxo_balance (data p') a s)"
proof -
  have start: "imported_only (data p)" using assms(8,10) by (simp add: imported_only_def unique_keys_def)
  have rows: "imported_only (data p') \<and> t_inputs (data p') = [] \<and> t_blocks (data p') = t_blocks (data p)
      \<and> sum_list (map (amount_to a) (t_outputs (data p'))) = credited_sum L P a (imported_pairs es)" for a
    using import_loop_rows [OF assms(1,2) start assms(13) _ assms(3,6,7), of a] assms(8,9,14) by simp
  then show ?thesis
    using imported_ledger [of "data p'"] assms(12) receive_rebuilds_balances [OF assms(1,2,11,6,4,5)] by simp
qed

theorem import_starts_ledger_witness:
  "\<exists>s p. sample_receive True = (Inr (Finished s), p) \<and> ledger_ok (data p)
     \<and> (\<forall>a s. balance_of (data p) a = utxo_balance (data p) a s)"
proof -
  obtain s p where r: "sample_receive True = (Inr (Finished s), p)" by (rule sample_receive_runs)
  have "ledger_ok (data p) \<and> (\<forall>a s. balance_of (data p) a = utxo_balance (data p) a s)"
    by (rule import_starts_ledger [OF r [unfolded sample_receive_def] _ permuting_id permuting_id sample_p2p_ok])
      (simp_all add: sample_events_def fitting_def bind_limit_def sample_import_config_def schema_db_def pair_key_def
        sample_pair_def sample_p2p_def)
  with r show ?thesis by blast
qed

end
