(* ===== verification/Mapping_Props.thy ===== *)
theory Mapping_Props
  imports Mapping
begin

text \<open>
  Properties of the mapping from RPC data to rows: when it panics, that the rows keep the
  order and the amounts, and that they are ready for the tables' keys.
\<close>

declare in_signed_uint [simp] in_signed_int [simp]

section \<open>Outputs\<close>

text \<open>What the columns can hold.\<close>

definition output_fits :: "rpc_tx_verbose \<Rightarrow> nat \<Rightarrow> rpc_output \<Rightarrow> bool" where
  "output_fits v i output \<longleftrightarrow> i < 2 ^ 15 \<and> uint (ro_value output) < 2 ^ 63 \<and> uint (tv_block_time v) < 2 ^ 63"

lemma map_output_Inr:
  "output_by f m v (i, output) = Inr r \<longleftrightarrow>
     (\<exists>a. ro_address output = Some a \<and> output_fits v i output \<and>
        r = \<lparr>out_transaction_id = tv_transaction_id v, out_index = int i,
          out_amount = then_some (m_tx_out_amount m) (uint (ro_value output)),
          out_script_public_key = then_some (m_tx_out_script_public_key m) (ro_script output),
          out_script_public_key_address = then_some (m_tx_out_script_public_key_address m) (f a),
          out_block_time = then_some (m_tx_out_block_time m) (uint (tv_block_time v))\<rparr>)"
  by (auto simp: map_output_def sbind_Inr_iff output_fits_def)

lemma map_transaction_outputs_Inr:
  "map_transaction_outputs f m t = Inr rows \<longleftrightarrow>
     (\<exists>v. rt_verbose t = Some v \<and> length rows = length (rt_outputs t) \<and>
       (\<forall>i<length (rt_outputs t). output_by f m v (i, rt_outputs t ! i) = Inr (rows ! i)))"
  by (auto simp: mapping_defs sbind_Inr_iff traverse_Inr_iff list_all2_conv_all_nth nth_enumerate_eq)

text \<open>C23: the outputs of a transaction map to one row each, in order: exactly when every output has its address
  and its index, amount and time fit the columns does the mapping return, and then row \<open>i\<close> has
  index \<open>i\<close>, the amount and the script of output \<open>i\<close> without loss, and the keys are distinct;
  otherwise it panics.\<close>

theorem outputs_map_in_order:
  assumes "rt_verbose t = Some v"
  shows "(case map_transaction_outputs f m t of
      Inl _ \<Rightarrow> (\<exists>i<length (rt_outputs t). ro_address (rt_outputs t ! i) = None \<or> \<not> output_fits v i (rt_outputs t ! i))
    | Inr rows \<Rightarrow> length rows = length (rt_outputs t) \<and> distinct (map output_key rows)
        \<and> (\<forall>i<length rows. output_fits v i (rt_outputs t ! i) \<and> out_transaction_id (rows ! i) = tv_transaction_id v
            \<and> out_index (rows ! i) = int i
            \<and> (m_tx_out_amount m \<longrightarrow> out_amount (rows ! i) = Some (uint (ro_value (rt_outputs t ! i))))
            \<and> (m_tx_out_script_public_key m \<longrightarrow> out_script_public_key (rows ! i) = Some (ro_script (rt_outputs t ! i)))))"
proof (cases "map_transaction_outputs f m t")
  case (Inl e)
  have "\<exists>i<length (rt_outputs t). \<exists>e. output_by f m v (i, rt_outputs t ! i) = Inl e"
    using Inl assms traverse_fails_iff [of "output_by f m v" "enumerate 0 (rt_outputs t)"]
    by (auto simp: mapping_defs in_set_enumerate_eq)
  then obtain i e where i: "i < length (rt_outputs t)" "output_by f m v (i, rt_outputs t ! i) = Inl e" by blast
  then have "\<nexists>r. output_by f m v (i, rt_outputs t ! i) = Inr r" by simp
  then have "ro_address (rt_outputs t ! i) = None \<or> \<not> output_fits v i (rt_outputs t ! i)"
    by (auto simp: map_output_Inr)
  with i(1) Inl show ?thesis by auto
next
  case (Inr rows)
  note m = Inr [unfolded map_transaction_outputs_Inr assms option.inject]
  then have len: "length rows = length (rt_outputs t)" by blast
  have row: "output_fits v i (rt_outputs t ! i) \<and> out_transaction_id (rows ! i) = tv_transaction_id v
      \<and> out_index (rows ! i) = int i \<and> out_amount (rows ! i) = then_some (m_tx_out_amount m) (uint (ro_value (rt_outputs t ! i)))
      \<and> out_script_public_key (rows ! i) = then_some (m_tx_out_script_public_key m) (ro_script (rt_outputs t ! i))"
    if "i < length rows" for i
    using m that by (auto simp: map_output_Inr)
  have "distinct (map output_key rows)"
    using row by (auto simp: distinct_conv_nth output_key_def)
  with row len Inr show ?thesis by simp
qed

definition sample_tx :: rpc_transaction where
  "sample_tx = \<lparr>rt_inputs = [], rt_outputs =
       [\<lparr>ro_value = 7, ro_script = [1], ro_address = Some ''a''\<rparr>, \<lparr>ro_value = 8, ro_script = [2], ro_address = Some ''b''\<rparr>],
     rt_subnetwork_id = [], rt_payload = [],
     rt_verbose = Some \<lparr>tv_transaction_id = Hash [1], tv_hash = Hash [2], tv_compute_mass = 5,
       tv_block_hash = Hash [3], tv_block_time = 9\<rparr>\<rparr>"

theorem outputs_map_in_order_witness:
  "\<exists>rows. map_transaction_outputs id (mapper_new sample_args) sample_tx = Inr rows \<and> map out_amount rows = [Some 7, Some 8]"
proof -
  let ?t = "sample_tx" and ?m = "mapper_new sample_args"
  obtain v where v: "rt_verbose ?t = Some v" "tv_block_time v = 9" by (simp add: sample_tx_def)
  have m: "m_tx_out_amount ?m" by (simp add: mapper_new_def is_excluded_def sample_args_def)
  have fits: "ro_address (rt_outputs ?t ! i) \<noteq> None \<and> output_fits v i (rt_outputs ?t ! i)" if "i < length (rt_outputs ?t)" for i
    using that v by (auto simp: sample_tx_def output_fits_def less_Suc_eq)
  obtain rows where r: "map_transaction_outputs id ?m ?t = Inr rows"
    using outputs_map_in_order [OF v(1), where f = id and m = ?m] fits
    by (cases "map_transaction_outputs id ?m ?t") (fastforce, blast)
  with outputs_map_in_order [OF v(1), where f = id and m = ?m] m have len: "length rows = 2"
    and out: "out_amount (rows ! 0) = Some 7" "out_amount (rows ! 1) = Some 8"
    by (simp_all add: sample_tx_def)
  from len obtain a b where "rows = [a, b]" by (auto simp: length_Suc_conv numeral_2_eq_2)
  with r out show ?thesis by simp
qed

end
