(* ===== verification/Schema.thy ===== *)
theory Schema
  imports Db_Insert Cli
begin

text \<open>
  The schema of the database: the migrations \<open>database/migrations/schema/up.sql\<close> and
  \<open>down.sql\<close> as lists of their statements, \<open>execute_ddl\<close> (\<open>database/src/query/misc.rs\<close>),
  \<open>create_schema\<close> and \<open>drop_schema\<close> (\<open>database/src/client.rs\<close>), and what \<open>main\<close> does with
  them. The statements of a migration run one by one, outside a transaction.
\<close>

section \<open>The server\<close>

datatype ddl =
    CreateTable string
  | CreateIndex "string option" string   \<comment> \<open>its name, or one the server picks\<close>
  | InsertVar string string
  | DropTable string

datatype ddl_error = Sql sql_error | DuplicateRelation | DuplicateKey | UndefinedTable

text \<open>
  The tables that exist, the named indexes with their tables, and the pool of connections with
  the contents of the tables; a table that does not exist is empty in it.
\<close>

record server =
  sv_tables :: "string list"
  sv_indexes :: "(string \<times> string) list"
  sv_pool :: pool

definition empty_table :: "string \<Rightarrow> db \<Rightarrow> db" where
  "empty_table t d =
     (if t = ''vars'' then d\<lparr>t_vars := Map.empty\<rparr>
      else if t = ''blocks'' then d\<lparr>t_blocks := []\<rparr>
      else if t = ''block_parent'' then d\<lparr>t_block_parent := []\<rparr>
      else if t = ''subnetworks'' then d\<lparr>t_subnetworks := [], subnetworks_seq := 1\<rparr>
      else if t = ''transactions'' then d\<lparr>t_transactions := []\<rparr>
      else if t = ''transactions_acceptances'' then d\<lparr>t_acceptances := []\<rparr>
      else if t = ''blocks_transactions'' then d\<lparr>t_blocks_transactions := []\<rparr>
      else if t = ''transactions_inputs'' then d\<lparr>t_inputs := []\<rparr>
      else if t = ''transactions_outputs'' then d\<lparr>t_outputs := []\<rparr>
      else if t = ''addresses_transactions'' then d\<lparr>t_addresses_transactions := []\<rparr>
      else if t = ''scripts_transactions'' then d\<lparr>t_scripts_transactions := []\<rparr>
      else if t = ''balances'' then d\<lparr>t_balances := Map.empty\<rparr>
      else d)"

definition in_pool :: "(pool \<Rightarrow> pool) \<Rightarrow> server \<Rightarrow> server" where
  "in_pool f s = s\<lparr>sv_pool := f (sv_pool s)\<rparr>"

fun apply_ddl :: "ddl \<Rightarrow> server \<Rightarrow> ddl_error + server" where
  "apply_ddl (CreateTable t) s =
     (if t \<in> set (sv_tables s) then Inl DuplicateRelation else Inr (s\<lparr>sv_tables := sv_tables s @ [t]\<rparr>))"
| "apply_ddl (CreateIndex name t) s =
     (if t \<notin> set (sv_tables s) then Inl UndefinedTable
      else case name of None \<Rightarrow> Inr s
        | Some i \<Rightarrow> if i \<in> fst ` set (sv_indexes s) then Inl DuplicateRelation
            else Inr (s\<lparr>sv_indexes := sv_indexes s @ [(i, t)]\<rparr>))"
| "apply_ddl (InsertVar k v) s =
     (if ''vars'' \<notin> set (sv_tables s) then Inl UndefinedTable
      else if t_vars (data (sv_pool s)) k \<noteq> None then Inl DuplicateKey
      else Inr (in_pool (\<lambda>p. p\<lparr>data := (data p)\<lparr>t_vars := (t_vars (data p))(k \<mapsto> v)\<rparr>\<rparr>) s))"
| "apply_ddl (DropTable t) s =
     Inr (in_pool (\<lambda>p. p\<lparr>data := empty_table t (data p)\<rparr>)
       (s\<lparr>sv_tables := filter (\<lambda>u. u \<noteq> t) (sv_tables s),
          sv_indexes := filter (\<lambda>i. snd i \<noteq> t) (sv_indexes s)\<rparr>))"

definition run_statement :: "ddl \<Rightarrow> (server, ddl_error, unit) sem" where
  "run_statement st s =
     (let fails = faults (sv_pool s) \<noteq> [] \<and> hd (faults (sv_pool s));
          s' = in_pool (\<lambda>p. p\<lparr>faults := tl (faults p)\<rparr>) s in
      if fails then (Inl (Sql ConnectionError), s')
      else case apply_ddl st s' of Inl e \<Rightarrow> (Inl e, s') | Inr s'' \<Rightarrow> (Inr (), s''))"

fun execute_ddl :: "ddl list \<Rightarrow> (server, ddl_error, unit) sem" where
  "execute_ddl [] = ret ()"
| "execute_ddl (st # sts) = bnd (run_statement st) (\<lambda>_. execute_ddl sts)"

text \<open>A query on a table: an error where the table does not exist.\<close>

definition on_table :: "string \<Rightarrow> 'a db_op \<Rightarrow> (server, ddl_error, 'a) sem" where
  "on_table t m s =
     (if t \<in> set (sv_tables s) then
        (case m (sv_pool s) of
           (Inl e, p) \<Rightarrow> (Inl (Sql e), s\<lparr>sv_pool := p\<rparr>)
         | (Inr a, p) \<Rightarrow> (Inr a, s\<lparr>sv_pool := p\<rparr>))
      else (Inl UndefinedTable, in_pool (\<lambda>p. p\<lparr>faults := tl (faults p)\<rparr>) s))"

section \<open>The migrations\<close>

definition up_sql :: "ddl list" where
  "up_sql =
     [CreateTable ''vars'', InsertVar ''schema_version'' ''10'',
      CreateTable ''blocks'', CreateIndex None ''blocks'',
      CreateTable ''block_parent'', CreateIndex None ''block_parent'',
      CreateTable ''subnetworks'',
      CreateTable ''transactions'', CreateIndex None ''transactions'',
      CreateTable ''transactions_acceptances'', CreateIndex None ''transactions_acceptances'',
      CreateTable ''blocks_transactions'', CreateIndex None ''blocks_transactions'',
      CreateTable ''transactions_inputs'', CreateTable ''transactions_outputs'',
      CreateTable ''addresses_transactions'', CreateIndex None ''addresses_transactions'',
      CreateTable ''scripts_transactions'', CreateIndex None ''scripts_transactions'',
      CreateTable ''balances'',
      CreateIndex (Some ''idx_balances_balance_desc'') ''balances'',
      CreateIndex (Some ''idx_balances_balance_asc'') ''balances'',
      CreateIndex (Some ''idx_balances_address'') ''balances'',
      CreateIndex (Some ''idx_balances_nonzero'') ''balances'']"

definition down_sql :: "ddl list" where
  "down_sql = map DropTable
     [''scripts_transactions'', ''addresses_transactions'', ''transactions_inputs'', ''transactions_outputs'',
      ''blocks_transactions'', ''transactions_acceptances'', ''transactions'', ''subnetworks'',
      ''block_parent'', ''blocks'', ''vars'', ''balances'']"

section \<open>Checking and creating the schema\<close>

text \<open>\<open>str::parse::<u8>\<close>: an optional plus sign, then at least one digit, and no overflow.\<close>

definition digit_of :: "char \<Rightarrow> nat option" where
  "digit_of c = (let n = of_char c :: nat in if 48 \<le> n \<and> n \<le> 57 then Some (n - 48) else None)"

fun parse_digits :: "nat \<Rightarrow> string \<Rightarrow> nat option" where
  "parse_digits n [] = Some n"
| "parse_digits n (c # cs) = (case digit_of c of None \<Rightarrow> None
     | Some d \<Rightarrow> if n * 10 + d < 256 then parse_digits (n * 10 + d) cs else None)"

fun parse_u8 :: "string \<Rightarrow> nat option" where
  "parse_u8 [] = None"
| "parse_u8 (c # cs) = (if c = CHR ''+'' then if cs = [] then None else parse_digits 0 cs else parse_digits 0 (c # cs))"

definition schema_version :: nat where
  "schema_version = 10"

text \<open>
  The \<open>upgrade_db\<close> flag is an argument that is not used. An error of the migration is
  returned, and \<open>main\<close> panics on it.
\<close>

definition create_schema :: "bool \<Rightarrow> (server, panic, unit) sem" where
  "create_schema upgrade s =
     (case on_table ''vars'' (select_var ''schema_version'') s of
        (Inr v, s') \<Rightarrow>
          (case parse_u8 v of
             None \<Rightarrow> (Inl (Panic ''Invalid schema_version''), s')
           | Some version \<Rightarrow>
               if version \<noteq> schema_version then (Inl (Panic ''Schema version mismatch''), s') else (Inr (), s'))
      | (Inl _, s') \<Rightarrow> or_panic ''Unable to create schema'' (execute_ddl up_sql) s')"

definition drop_schema :: "(server, ddl_error, unit) sem" where
  "drop_schema = execute_ddl down_sql"

definition prepare_database :: "cli_args \<Rightarrow> (server, panic, unit) sem" where
  "prepare_database args =
     bnd (if initialize_db args then or_panic ''Unable to drop schema'' drop_schema else ret ())
       (\<lambda>_. create_schema (upgrade_db args))"

section \<open>A migration that runs through\<close>

abbreviation steady :: "server \<Rightarrow> bool" where
  "steady s \<equiv> healthy (sv_pool s)"

definition no_tables :: db where
  "no_tables = schema_db\<lparr>t_vars := Map.empty\<rparr>"

definition fresh_server :: server where
  "fresh_server = \<lparr>sv_tables = [], sv_indexes = [], sv_pool = pool_of no_tables\<rparr>"

text \<open>A statement's tables and named indexes.\<close>

definition tables_of :: "ddl list \<Rightarrow> string list" where
  "tables_of sts = concat (map (\<lambda>st. case st of CreateTable t \<Rightarrow> [t] | _ \<Rightarrow> []) sts)"

definition indexes_of :: "ddl list \<Rightarrow> (string \<times> string) list" where
  "indexes_of sts = concat (map (\<lambda>st. case st of CreateIndex (Some i) t \<Rightarrow> [(i, t)] | _ \<Rightarrow> []) sts)"

definition schema_server :: "db \<Rightarrow> server" where
  "schema_server d = \<lparr>sv_tables = tables_of up_sql, sv_indexes = indexes_of up_sql, sv_pool = pool_of d\<rparr>"

lemma run_statement_steady:
  "steady s \<Longrightarrow> run_statement st s = (case apply_ddl st s of Inl e \<Rightarrow> (Inl e, s) | Inr s' \<Rightarrow> (Inr (), s'))"
  by (simp add: run_statement_def in_pool_def)

lemma up_runs: "execute_ddl up_sql fresh_server = (Inr (), schema_server schema_db)"
  by (simp add: up_sql_def fresh_server_def bnd_def ret_def run_statement_steady in_pool_def schema_server_def
      tables_of_def indexes_of_def no_tables_def schema_db_def)

lemma down_runs: "execute_ddl down_sql (schema_server d) = (Inr (), fresh_server)"
  by (cases d) (simp add: down_sql_def bnd_def ret_def run_statement_steady in_pool_def
      fresh_server_def schema_server_def tables_of_def indexes_of_def up_sql_def empty_table_def no_tables_def schema_db_def)

lemma down_on_nothing: "execute_ddl down_sql fresh_server = (Inr (), fresh_server)"
  by (simp add: down_sql_def bnd_def ret_def run_statement_steady in_pool_def fresh_server_def empty_table_def
      no_tables_def schema_db_def)

section \<open>What a start does to the schema\<close>

definition vars_of :: "server \<Rightarrow> string \<rightharpoonup> string" where
  "vars_of s = t_vars (data (sv_pool s))"

lemma schema_version_parses: "parse_u8 ''10'' = Some schema_version"
  by (simp add: digit_of_def schema_version_def)

lemma on_table_var:
  assumes "on_table ''vars'' (select_var k) s = (r, s')"
  shows "sv_tables s' = sv_tables s \<and> sv_indexes s' = sv_indexes s \<and> data (sv_pool s') = data (sv_pool s)"
    and "r = Inr v \<Longrightarrow> vars_of s k = Some v"
proof -
  have q: "data p' = data p" if "select_var k p = (x, p')" for p x p'
    using that query_data [of "\<lambda>d. case t_vars d k of None \<Rightarrow> Inl RowNotFound | Some v \<Rightarrow> Inr v" p]
    by (simp add: select_var_def)
  show "sv_tables s' = sv_tables s \<and> sv_indexes s' = sv_indexes s \<and> data (sv_pool s') = data (sv_pool s)"
    using assms q by (auto simp: on_table_def in_pool_def split: if_splits sum.splits prod.splits)
  show "r = Inr v \<Longrightarrow> vars_of s k = Some v"
    using assms by (auto simp: on_table_def vars_of_def select_var_def split: if_splits sum.splits prod.splits option.splits
        dest!: query_Inr)
qed

lemma run_statement_Inl:
  "run_statement st s = (Inl e, s') \<Longrightarrow>
     sv_tables s' = sv_tables s \<and> sv_indexes s' = sv_indexes s \<and> data (sv_pool s') = data (sv_pool s)"
  by (auto simp: run_statement_def in_pool_def Let_def split: if_splits sum.splits)

lemma run_statement_Inr:
  assumes "run_statement st s = (Inr u, s')" "\<nexists>t. st = DropTable t"
  shows "sv_tables s' = sv_tables s @ tables_of [st]" "sv_indexes s' = sv_indexes s @ indexes_of [st]"
    and "vars_of s' k = Some v \<Longrightarrow> vars_of s k = Some v \<or> st = InsertVar k v"
  using assms by (cases st; auto simp: run_statement_def in_pool_def Let_def tables_of_def indexes_of_def vars_of_def
      split: if_splits sum.splits option.splits)+

lemma migration_stops:
  assumes "execute_ddl sts s = (Inl e, s')" "\<forall>t. DropTable t \<notin> set sts"
  shows "(\<exists>n<length sts. sv_tables s' = sv_tables s @ tables_of (take n sts)
      \<and> sv_indexes s' = sv_indexes s @ indexes_of (take n sts))
    \<and> (\<forall>k v. vars_of s' k = Some v \<longrightarrow> vars_of s k = Some v \<or> InsertVar k v \<in> set sts)"
  using assms
proof (induction sts arbitrary: s)
  case (Cons st sts)
  show ?case
  proof (cases "run_statement st s")
    case (Pair r s1)
    show ?thesis
    proof (cases r)
      case (Inl e1)
      with Pair Cons.prems(1) have "s' = s1" by (simp add: bnd_def)
      with run_statement_Inl [OF Pair [unfolded Inl]] show ?thesis
        by (auto simp: vars_of_def tables_of_def indexes_of_def intro!: exI [of _ 0])
    next
      case (Inr u)
      with Pair Cons.prems(1) have rest: "execute_ddl sts s1 = (Inl e, s')" by (simp add: bnd_def)
      have d: "\<nexists>t. st = DropTable t" "\<forall>t. DropTable t \<notin> set sts" using Cons.prems(2) by auto
      from Cons.IH [OF rest d(2)] obtain n where n: "n < length sts"
        "sv_tables s' = sv_tables s1 @ tables_of (take n sts)" "sv_indexes s' = sv_indexes s1 @ indexes_of (take n sts)"
        and v: "\<forall>k v. vars_of s' k = Some v \<longrightarrow> vars_of s1 k = Some v \<or> InsertVar k v \<in> set sts" by blast
      note r = run_statement_Inr [OF Pair [unfolded Inr] d(1)]
      have "Suc n < length (st # sts) \<and> sv_tables s' = sv_tables s @ tables_of (take (Suc n) (st # sts))
        \<and> sv_indexes s' = sv_indexes s @ indexes_of (take (Suc n) (st # sts))"
        using n r(1,2) by (simp add: tables_of_def indexes_of_def)
      moreover have "\<forall>k v. vars_of s' k = Some v \<longrightarrow> vars_of s k = Some v \<or> InsertVar k v \<in> set (st # sts)"
        using v r(3) by auto
      ultimately show ?thesis by blast
    qed
  qed
qed (simp add: ret_def)

lemma prepare_keeps:
  assumes "\<not> initialize_db args" "''vars'' \<in> set (sv_tables s)" "prepare_database args s = (r, s')"
  shows "sv_tables s' = sv_tables s \<and> sv_indexes s' = sv_indexes s \<and> data (sv_pool s') = data (sv_pool s)
    \<and> (r = Inr () \<longrightarrow> Option.bind (vars_of s ''schema_version'') parse_u8 = Some schema_version)"
proof -
  from assms(1,3) have c: "create_schema (upgrade_db args) s = (r, s')"
    by (simp add: prepare_database_def bnd_def ret_def)
  obtain x s1 where q: "on_table ''vars'' (select_var ''schema_version'') s = (x, s1)" by fastforce
  note k = on_table_var [OF q]
  show ?thesis
  proof (cases x)
    case (Inl e)
    have "\<exists>e s2. run_statement (CreateTable ''vars'') s1 = (Inl e, s2)"
      using k(1) assms(2) by (auto simp: run_statement_def in_pool_def Let_def)
    then obtain e2 s2 where r: "run_statement (CreateTable ''vars'') s1 = (Inl e2, s2)" by blast
    then have "execute_ddl up_sql s1 = (Inl e2, s2)" by (simp add: up_sql_def bnd_def)
    with c q Inl have "s' = s2" "r = Inl (Panic ''Unable to create schema'')"
      by (simp_all add: create_schema_def or_panic_def)
    with run_statement_Inl [OF r] k(1) show ?thesis by simp
  next
    case (Inr v)
    with c q have "s' = s1" "r = Inr () \<longrightarrow> parse_u8 v = Some schema_version"
      by (auto simp: create_schema_def split: option.splits if_splits)
    with k(1) k(2) [OF Inr] show ?thesis by simp
  qed
qed



text \<open>C17: an interrupted migration is taken for a complete one: \<open>up.sql\<close> stores the schema version with its second
  statement, and its statements run one by one; when a later one fails, only the tables and
  indexes of the statements before it exist, and the next start, with a connection that works,
  finds the version, accepts the schema and creates nothing.\<close>

theorem interrupted_migration_accepted:
  assumes "execute_ddl up_sql s = (Inl e, s')" "sv_tables s = []" "sv_indexes s = []" "vars_of s = Map.empty"
    and "vars_of s' ''schema_version'' \<noteq> None" "''vars'' \<in> set (sv_tables s')" "\<not> initialize_db args"
  defines "t \<equiv> in_pool (\<lambda>p. p\<lparr>faults := []\<rparr>) s'"
  shows "prepare_database args t = (Inr (), t)
    \<and> (\<exists>n<length up_sql. sv_tables t = tables_of (take n up_sql) \<and> sv_indexes t = indexes_of (take n up_sql))"
proof -
  have "\<forall>t. DropTable t \<notin> set up_sql" by (simp add: up_sql_def)
  note m = migration_stops [OF assms(1) this]
  from assms(5) obtain v where v: "vars_of s' ''schema_version'' = Some v" by blast
  with m assms(4) have "InsertVar ''schema_version'' v \<in> set up_sql" by fastforce
  then have "v = ''10''" by (simp add: up_sql_def)
  with v assms(6) have "on_table ''vars'' (select_var ''schema_version'') t = (Inr ''10'', t)"
    by (simp add: t_def on_table_def in_pool_def select_var_def query_healthy vars_of_def)
  then have "prepare_database args t = (Inr (), t)"
    using assms(7) by (simp add: prepare_database_def bnd_def ret_def create_schema_def schema_version_parses del: parse_u8.simps)
  with m assms(2,3) show ?thesis by (simp add: t_def in_pool_def)
qed

theorem interrupted_migration_accepted_witness:
  "\<exists>e s'. execute_ddl up_sql (fresh_server\<lparr>sv_pool := \<lparr>data = no_tables, faults = [False, False, False, True]\<rparr>\<rparr>) = (Inl e, s')
     \<and> sv_tables s' = [''vars'', ''blocks'']
     \<and> fst (prepare_database sample_args (in_pool (\<lambda>p. p\<lparr>faults := []\<rparr>) s')) = Inr ()"
proof -
  let ?s = "fresh_server\<lparr>sv_pool := \<lparr>data = no_tables, faults = [False, False, False, True]\<rparr>\<rparr>"
  have "\<exists>e s'. execute_ddl up_sql ?s = (Inl e, s') \<and> sv_tables s' = [''vars'', ''blocks'']
      \<and> vars_of s' ''schema_version'' \<noteq> None"
    by (simp add: up_sql_def fresh_server_def bnd_def run_statement_def in_pool_def Let_def no_tables_def schema_db_def vars_of_def)
  then obtain e s' where r: "execute_ddl up_sql ?s = (Inl e, s')" "sv_tables s' = [''vars'', ''blocks'']"
    "vars_of s' ''schema_version'' \<noteq> None" by blast
  from interrupted_migration_accepted [OF r(1) _ _ _ r(3), of sample_args] r(1,2) show ?thesis
    by (simp add: fresh_server_def vars_of_def no_tables_def sample_args_def)
qed

end
