(* ===== verification/Startup.thy ===== *)
theory Startup
  imports Schema Checkpoint Utxo_Import_Props
begin

text \<open>
  The start of the program (\<open>indexer/src/main.rs\<close>) on a database with its schema (theory
  \<open>Schema\<close>): the decision to rebuild the balances, the checkpoint to start from, the capacity of
  the queues, the settings, the first metrics and the tasks started. What the node answers and the messages of its peers are inputs.
\<close>

section \<open>The node's answers\<close>

text \<open>The answers to \<open>get_block_dag_info\<close> until one succeeds; the list ends at the shutdown.\<close>

fun wait_dag_info :: "'d option list \<Rightarrow> 'd option" where
  "wait_dag_info [] = None"
| "wait_dag_info (Some d # ds) = Some d"
| "wait_dag_info (None # ds) = wait_dag_info ds"

text \<open>
  \<open>en_old_block\<close>, \<open>en_parent_block\<close>: the blue scores asked for before a rebuild, \<open>None\<close> without
  a connection or without the block; \<open>en_connection\<close>, \<open>en_block\<close>: the last request.
\<close>

record startup_env =
  en_pruning_point :: hash
  en_virtual_parents :: "hash list"
  en_old_block :: "hash \<Rightarrow> u64 option"
  en_parent_block :: "hash \<Rightarrow> u64 option"
  en_connection :: bool
  en_block :: "hash \<Rightarrow> rpc_header option"

section \<open>The rebuild of the balances\<close>

text \<open>\<open>if let Ok(a) = ..\<close>\<close>

definition attempted :: "('s, 'e, 'a) sem \<Rightarrow> ('s, 'f, 'a option) sem" where
  "attempted m s = (case m s of (Inl e, s') \<Rightarrow> (Inr None, s') | (Inr a, s') \<Rightarrow> (Inr (Some a), s'))"

definition rebuild_threshold_blue :: nat where
  "rebuild_threshold_blue = 200000"

definition checkpoint_too_old :: "startup_env \<Rightarrow> hash \<Rightarrow> bool" where
  "checkpoint_too_old e h =
     (let last_blue = (case en_old_block e h of None \<Rightarrow> 0 | Some b \<Rightarrow> unat b);
          current_blue = (case en_virtual_parents e of [] \<Rightarrow> 0
            | v # _ \<Rightarrow> (case en_parent_block e v of None \<Rightarrow> 0 | Some b \<Rightarrow> unat b)) in
      rebuild_threshold_blue < current_blue - last_blue)"

definition needs_rebuild :: "libs \<Rightarrow> startup_env \<Rightarrow> cli_args \<Rightarrow> (pool, panic, bool) sem" where
  "needs_rebuild L e args =
     (if force_balance_rebuild args then ret True
      else bnd (attempted load_block_checkpoint) (\<lambda>r. ret (case r of None \<Rightarrow> True
        | Some s \<Rightarrow> (case hash_from_str L s of None \<Rightarrow> False | Some h \<Rightarrow> checkpoint_too_old e h))))"

text \<open>The metrics of this import are thrown away.\<close>

definition rebuild_balances ::
  "libs \<Rightarrow> 'k p2p_libs \<Rightarrow> (hash list \<Rightarrow> hash list) \<Rightarrow> ((string \<times> int) list \<Rightarrow> (string \<times> int) list) \<Rightarrow>
     startup_env \<Rightarrow> cli_args \<Rightarrow> attempt list \<Rightarrow> (pool, panic, unit) sem" where
  "rebuild_balances L P perm drain e args attempts =
     bnd (or_panic ''Cannot continue without clean balances state'' truncate_balances) (\<lambda>_.
     bnd (start_import L P perm drain (import_config_of args (en_pruning_point e)) attempts
            (me_utxo_importer metrics_new)) (\<lambda>_.
     bnd (attempted (save_checkpoint (hex_encode L (as_bytes (en_pruning_point e))))) (\<lambda>_.
     ret ())))"

section \<open>The checkpoint to start from\<close>

definition ignoring_checkpoint :: "libs \<Rightarrow> startup_env \<Rightarrow> string \<Rightarrow> panic + hash" where
  "ignoring_checkpoint L e s =
     (if s = ''p'' then Inr (en_pruning_point e)
      else if s = ''v'' then
        expect ''Virtual parent not found'' (case en_virtual_parents e of [] \<Rightarrow> None | v # _ \<Rightarrow> Some v)
      else expect ''Invalid block hash'' (hash_from_str L s))"

text \<open>The block, its hash as saved, and whether to import the UTXO set.\<close>

definition choose_checkpoint ::
  "libs \<Rightarrow> startup_env \<Rightarrow> cli_args \<Rightarrow> bool \<Rightarrow> (pool, panic, hash \<times> string \<times> bool) sem" where
  "choose_checkpoint L e args utxo_set_import =
     (case ignore_checkpoint args of
        Some s \<Rightarrow> bnd (lift_res (ignoring_checkpoint L e s)) (\<lambda>h.
          ret (h, hex_encode L (as_bytes h), utxo_set_import))
      | None \<Rightarrow> bnd (attempted load_block_checkpoint) (\<lambda>r. case r of
            Some saved \<Rightarrow> bnd (lift_res (expect ''Invalid saved checkpoint'' (hash_from_str L saved))) (\<lambda>h.
              ret (h, saved, utxo_set_import))
          | None \<Rightarrow> ret (en_pruning_point e, hex_encode L (as_bytes (en_pruning_point e)),
              \<not> is_disabled args InitialUtxoImport)))"

definition start_checkpoint ::
  "libs \<Rightarrow> 'k p2p_libs \<Rightarrow> (hash list \<Rightarrow> hash list) \<Rightarrow> ((string \<times> int) list \<Rightarrow> (string \<times> int) list) \<Rightarrow>
     startup_env \<Rightarrow> cli_args \<Rightarrow> attempt list \<Rightarrow> (pool, panic, hash \<times> string \<times> bool) sem" where
  "start_checkpoint L P perm drain e args attempts =
     bnd (needs_rebuild L e args) (\<lambda>rebuild.
     bnd (if rebuild then rebuild_balances L P perm drain e args attempts else ret ()) (\<lambda>_.
     bnd (choose_checkpoint L e args (is_enabled args ForceUtxoImport \<and> \<not> rebuild)) (\<lambda>(h, previous, utxo).
     bnd (attempted (save_checkpoint previous)) (\<lambda>_.
     ret (h, previous, utxo)))))"

section \<open>Queues, settings, metrics and tasks\<close>

text \<open>\<open>(batch_scale * 1000f64) as usize\<close>; \<open>ArrayQueue::new(0)\<close> panics.\<close>

definition queue_capacity :: "cli_args \<Rightarrow> nat" where
  "queue_capacity args = f64_as_unsigned 64 (f64_scale 1000 (batch_scale args))"

definition new_queue :: "nat \<Rightarrow> panic + nat" where
  "new_queue capacity = (if capacity = 0 then Inl (Panic ''capacity must be non-zero'') else Inr capacity)"

definition initial_checkpoint_block :: "startup_env \<Rightarrow> hash \<Rightarrow> panic + checkpoint_block option" where
  "initial_checkpoint_block e h =
     (if \<not> en_connection e then Inl (Panic unwrap_msg)
      else Inr (map_option (\<lambda>b. \<lparr>cb_origin = OriginInitial, cb_hash = h_hash b, cb_timestamp = h_timestamp b,
        cb_daa_score = h_daa_score b, cb_blue_score = h_blue_score b\<rparr>) (en_block e h)))"

definition settings_of :: "cli_args \<Rightarrow> hash \<Rightarrow> bool \<Rightarrow> settings" where
  "settings_of args h utxo_set_import = \<lparr>s_cli_args = args, s_net_bps = 1, s_net_tps_max = 300,
     s_checkpoint = h, s_disable_vcp_wait_for_sync = (is_disabled args VcpWaitForSync \<or> utxo_set_import)\<rparr>"

definition hidden :: "settings \<Rightarrow> settings" where
  "hidden s = s\<lparr>s_cli_args := (s_cli_args s)\<lparr>
     rpc_url := map_option (\<lambda>_. ''**hidden**'') (rpc_url (s_cli_args s)),
     p2p_url := map_option (\<lambda>_. ''**hidden**'') (p2p_url (s_cli_args s)),
     database_url := ''**hidden**''\<rparr>\<rparr>"

definition startup_metrics :: "libs \<Rightarrow> settings \<Rightarrow> nat \<Rightarrow> checkpoint_block option \<Rightarrow> panic + metrics" where
  "startup_metrics L s capacity block =
     sbind (case block of None \<Rightarrow> Inr None | Some c \<Rightarrow> sbind (metrics_block_of L c) (\<lambda>b. Inr (Some b))) (\<lambda>b.
     Inr (metrics_new\<lparr>me_settings := Some (hidden s),
       me_queues := (me_queues metrics_new)\<lparr>mq_blocks_capacity := of_nat capacity,
         mq_transactions_capacity := of_nat capacity\<rparr>,
       me_checkpoint := \<lparr>mc_origin = map_option cb_origin block, mc_block = b\<rparr>,
       me_transaction_processor := (me_transaction_processor metrics_new)
         \<lparr>mp_enabled := \<not> is_disabled (s_cli_args s) TransactionProcessing\<rparr>,
       me_vcp := (me_vcp metrics_new)\<lparr>mv_enabled := \<not> is_disabled (s_cli_args s) VirtualChainProcessing,
         mv_only_blocks := is_disabled (s_cli_args s) TransactionAcceptance\<rparr>\<rparr>))"

datatype task = WebServer | BlockFetcher | BlockProcessor | CheckpointProcessor
  | TransactionProcessor | VirtualChainProcessor | DbPruner

definition started_tasks :: "cli_args \<Rightarrow> task list" where
  "started_tasks args = [WebServer, BlockFetcher, BlockProcessor, CheckpointProcessor]
     @ (if \<not> is_disabled args TransactionProcessing then [TransactionProcessor] else [])
     @ (if \<not> is_disabled args VirtualChainProcessing then [VirtualChainProcessor] else [])
     @ [DbPruner]"

text \<open>What the tasks start with.\<close>

record started =
  sd_settings :: settings
  sd_previous :: string
  sd_metrics :: metrics
  sd_capacity :: nat
  sd_tasks :: "task list"

definition start_processing ::
  "libs \<Rightarrow> 'k p2p_libs \<Rightarrow> (hash list \<Rightarrow> hash list) \<Rightarrow> ((string \<times> int) list \<Rightarrow> (string \<times> int) list) \<Rightarrow>
     startup_env \<Rightarrow> cli_args \<Rightarrow> attempt list \<Rightarrow> attempt list \<Rightarrow> (pool, panic, started) sem" where
  "start_processing L P perm drain e args rebuild_attempts import_attempts =
     bnd (start_checkpoint L P perm drain e args rebuild_attempts) (\<lambda>(h, previous, utxo).
     bnd (lift_res (initial_checkpoint_block e h)) (\<lambda>block.
     bnd (lift_res (new_queue (queue_capacity args))) (\<lambda>capacity.
     let s = settings_of args h utxo in
     bnd (lift_res (startup_metrics L s capacity block)) (\<lambda>m.
     bnd (if utxo then start_import L P perm drain (import_config_of args (en_pruning_point e)) import_attempts
            (me_utxo_importer m) else ret (me_utxo_importer m)) (\<lambda>mu.
     ret \<lparr>sd_settings = s, sd_previous = previous, sd_metrics = m\<lparr>me_utxo_importer := mu\<rparr>,
       sd_capacity = capacity, sd_tasks = started_tasks args\<rparr>)))))"

end
