(* ===== verification/Startup_Props.thy ===== *)
theory Startup_Props
  imports Startup
begin

text \<open>
  Properties of the start: which balances and which checkpoint the tasks start from, after a
  rebuild, on a resume, after an interrupted rebuild and with a forced import; the queues.
\<close>

section \<open>The parts of the start\<close>

lemma truncate_healthy:
  "healthy p \<Longrightarrow> or_panic msg truncate_balances p = (Inr (), p\<lparr>data := (data p)\<lparr>t_balances := Map.empty\<rparr>\<rparr>)"
  by (simp add: truncate_balances_def or_panic_def execute_healthy)

lemma save_healthy:
  "healthy p \<Longrightarrow> save_checkpoint v p = (Inr 1, p\<lparr>data := (data p)\<lparr>t_vars := (t_vars (data p))(var_key_block_checkpoint \<mapsto> v)\<rparr>\<rparr>)"
  by (simp add: save_checkpoint_def upsert_var_def execute_healthy)

lemma load_healthy:
  "healthy p \<Longrightarrow> load_block_checkpoint p =
     (case t_vars (data p) var_key_block_checkpoint of Some v \<Rightarrow> (Inr v, p)
      | None \<Rightarrow> (case t_vars (data p) var_key_legacy_checkpoint of Some v \<Rightarrow> (Inr v, p) | None \<Rightarrow> (Inl (), p)))"
  by (simp add: load_block_checkpoint_def select_var_def query_healthy split: option.splits)

lemma needs_rebuild_healthy: "healthy p \<Longrightarrow> \<exists>b. needs_rebuild L e args p = (Inr b, p)"
  by (auto simp: needs_rebuild_def attempted_def load_healthy bnd_def ret_def split: option.splits)

lemma start_checkpoint_parts:
  assumes "start_checkpoint L P perm drain e args as p = (Inr (h, previous, utxo), p')" "healthy p"
  obtains rebuild q where "needs_rebuild L e args p = (Inr rebuild, p)"
    "(if rebuild then rebuild_balances L P perm drain e args as else ret ()) p = (Inr (), q)" "healthy q"
    "choose_checkpoint L e args (is_enabled args ForceUtxoImport \<and> \<not> rebuild) q = (Inr (h, previous, utxo), q)"
    "p' = q\<lparr>data := (data q)\<lparr>t_vars := (t_vars (data q))(var_key_block_checkpoint \<mapsto> previous)\<rparr>\<rparr>"
proof -
  obtain b where b: "needs_rebuild L e args p = (Inr b, p)" using needs_rebuild_healthy [OF assms(2)] by blast
  from assms(1) b obtain q where
    q: "(if b then rebuild_balances L P perm drain e args as else ret ()) p = (Inr (), q)"
    and rest: "bnd (choose_checkpoint L e args (is_enabled args ForceUtxoImport \<and> \<not> b)) (\<lambda>(h, previous, utxo).
       bnd (attempted (save_checkpoint previous)) (\<lambda>_. ret (h, previous, utxo))) q = (Inr (h, previous, utxo), p')"
    by (auto simp: start_checkpoint_def bnd_Inr_iff)
  have hq: "healthy q"
  proof (cases b)
    case True
    with q assms(2) show ?thesis
      by (auto simp: rebuild_balances_def bnd_Inr_iff truncate_healthy attempted_def save_healthy ret_def
          dest!: start_healthy)
  qed (use q assms(2) in \<open>simp add: ret_def\<close>)
  have c: "snd (choose_checkpoint L e args u q) = q" for u
    using hq by (auto simp: choose_checkpoint_def bnd_def lift_res_def ret_def attempted_def load_healthy
        split: option.splits sum.splits)
  from rest obtain q' x where
    q': "choose_checkpoint L e args (is_enabled args ForceUtxoImport \<and> \<not> b) q = (Inr (h, previous, utxo), q')"
    "attempted (save_checkpoint previous) q' = (Inr x :: panic + nat option, p')"
    by (auto simp: bnd_Inr_iff ret_def)
  have "q' = q" using q'(1) c [of "is_enabled args ForceUtxoImport \<and> \<not> b"] by simp
  with q' hq have "p' = q\<lparr>data := (data q)\<lparr>t_vars := (t_vars (data q))(var_key_block_checkpoint \<mapsto> previous)\<rparr>\<rparr>"
    by (simp add: attempted_def save_healthy)
  with b q hq q'(1) \<open>q' = q\<close> that show thesis by blast
qed

text \<open>The state after a rebuild: the import ran on the emptied table, and the pruning point is saved.\<close>

lemma rebuild_balances_parts:
  assumes "rebuild_balances L P perm drain e args as p = (Inr (), q)" "healthy p"
  obtains m q0 where
    "start_import L P perm drain (import_config_of args (en_pruning_point e)) as (me_utxo_importer metrics_new)
       (p\<lparr>data := (data p)\<lparr>t_balances := Map.empty\<rparr>\<rparr>) = (Inr m, q0)"
    "healthy q0"
    "q = q0\<lparr>data := (data q0)\<lparr>t_vars := (t_vars (data q0))(var_key_block_checkpoint \<mapsto>
       hex_encode L (as_bytes (en_pruning_point e)))\<rparr>\<rparr>"
proof -
  let ?p = "p\<lparr>data := (data p)\<lparr>t_balances := Map.empty\<rparr>\<rparr>"
  from assms obtain m q0 x where i: "start_import L P perm drain (import_config_of args (en_pruning_point e)) as
      (me_utxo_importer metrics_new) ?p = (Inr m, q0)"
    and s: "attempted (save_checkpoint (hex_encode L (as_bytes (en_pruning_point e)))) q0
      = (Inr x :: panic + nat option, q)"
    by (auto simp: rebuild_balances_def bnd_Inr_iff truncate_healthy ret_def)
  have "healthy q0" using start_healthy [OF i] assms(2) by simp
  with s i that show thesis by (simp add: attempted_def save_healthy)
qed

lemma balance_of_vars [simp]: "balance_of (d\<lparr>t_vars := v\<rparr>) = balance_of d"
  by (simp add: balance_of_def fun_eq_iff)

lemma chosen_after_save:
  assumes "choose_checkpoint L e args u q = (Inr (h, previous, utxo), q)" "healthy q" "ignore_checkpoint args = None"
    and "t_vars (data q) var_key_block_checkpoint = Some v"
  shows "previous = v \<and> utxo = u \<and> hash_from_str L v = Some h"
  using assms by (auto simp: choose_checkpoint_def bnd_Inr_iff attempted_def load_healthy lift_res_def ret_def
      expect_def split: option.splits)

section \<open>What the tasks start from\<close>

text \<open>C13: a rebuild starts the tasks consistently: on a healthy connection, with no checkpoint ignored, the addresses
  not excluded and a peer address resolved for each attempt, when the balances are rebuilt and
  the import completes, the processing starts at the pruning point, the pruning point is the
  saved checkpoint and the previous one of the balance updates, every balance is what the UTXO
  set of one of the attempts credits, and no second import is started. An import that does not complete is
  another matter (see below).\<close>

theorem rebuild_starts_consistently:
  assumes "start_checkpoint L P perm drain e args as p = (Inr (h, previous, utxo), p')" "healthy p"
    and "needs_rebuild L e args p = (Inr True, p)" "ignore_checkpoint args = None"
    and "start_import L P perm drain (import_config_of args (en_pruning_point e)) as (me_utxo_importer metrics_new)
      (p\<lparr>data := (data p)\<lparr>t_balances := Map.empty\<rparr>\<rparr>) = (Inr m, q)" "mu_completed m = Some True"
    and "\<not> is_excluded args TxOutScriptPublicKeyAddress" "permuting drain" "p2p_ok L P"
    and "\<forall>a\<in>set as. an_address a \<noteq> None"
    and "hash_from_str L (hex_encode L (as_bytes (en_pruning_point e))) = Some (en_pruning_point e)"
  shows "h = en_pruning_point e \<and> previous = hex_encode L (as_bytes (en_pruning_point e)) \<and> \<not> utxo
    \<and> load_block_checkpoint p' = (Inr previous, p')
    \<and> (\<exists>a\<in>set as. \<forall>x. balance_of (data p') x = credited_sum L P x (imported_pairs (an_events a)))"
proof -
  let ?hex = "hex_encode L (as_bytes (en_pruning_point e))"
  from assms(1,2) obtain r q1 where parts: "needs_rebuild L e args p = (Inr r, p)"
    "(if r then rebuild_balances L P perm drain e args as else ret ()) p = (Inr (), q1)" "healthy q1"
    "choose_checkpoint L e args (is_enabled args ForceUtxoImport \<and> \<not> r) q1 = (Inr (h, previous, utxo), q1)"
    "p' = q1\<lparr>data := (data q1)\<lparr>t_vars := (t_vars (data q1))(var_key_block_checkpoint \<mapsto> previous)\<rparr>\<rparr>"
    by (rule start_checkpoint_parts)
  then have r using assms(3) by simp
  with parts(2) have "rebuild_balances L P perm drain e args as p = (Inr (), q1)" by simp
  then obtain m0 q0 where i: "start_import L P perm drain (import_config_of args (en_pruning_point e)) as
      (me_utxo_importer metrics_new) (p\<lparr>data := (data p)\<lparr>t_balances := Map.empty\<rparr>\<rparr>) = (Inr m0, q0)"
    and q1: "q1 = q0\<lparr>data := (data q0)\<lparr>t_vars := (t_vars (data q0))(var_key_block_checkpoint \<mapsto> ?hex)\<rparr>\<rparr>"
    using assms(2) by (rule rebuild_balances_parts)
  then have m: "m0 = m" "q0 = q" using assms(5) by simp_all
  have "\<exists>a\<in>set as. \<forall>x. balance_of (data q) x = credited_sum L P x (imported_pairs (an_events a))"
    by (rule start_rebuilds [OF assms(5,6)]) (use assms(2,7-10) in \<open>simp_all add: import_config_of_def\<close>)
  moreover have "previous = ?hex \<and> utxo = False \<and> hash_from_str L ?hex = Some h"
    using chosen_after_save [OF parts(4,3) assms(4)] \<open>r\<close> by (simp add: q1)
  ultimately show ?thesis
    using assms(11) parts(3,5) by (simp add: load_healthy q1 m)
qed

lemma resume_parts:
  assumes "start_checkpoint L P perm drain e args as p = (Inr (h, previous, utxo), p')" "healthy p"
    and "needs_rebuild L e args p = (Inr False, p)" "ignore_checkpoint args = None"
  shows "load_block_checkpoint p = (Inr previous, p) \<and> hash_from_str L previous = Some h
    \<and> utxo = is_enabled args ForceUtxoImport
    \<and> data p' = (data p)\<lparr>t_vars := (t_vars (data p))(var_key_block_checkpoint \<mapsto> previous)\<rparr>"
proof -
  from assms(1,2) obtain r q1 where parts: "needs_rebuild L e args p = (Inr r, p)"
    "(if r then rebuild_balances L P perm drain e args as else ret ()) p = (Inr (), q1)" "healthy q1"
    "choose_checkpoint L e args (is_enabled args ForceUtxoImport \<and> \<not> r) q1 = (Inr (h, previous, utxo), q1)"
    "p' = q1\<lparr>data := (data q1)\<lparr>t_vars := (t_vars (data q1))(var_key_block_checkpoint \<mapsto> previous)\<rparr>\<rparr>"
    by (rule start_checkpoint_parts)
  then have r: "\<not> r" "q1 = p" using assms(3) by (simp_all add: ret_def)
  have "fst (load_block_checkpoint p) \<noteq> Inl ()"
    using assms(3) by (auto simp: needs_rebuild_def attempted_def load_healthy [OF assms(2)] bnd_def ret_def
        split: if_splits option.splits)
  then show ?thesis
    using parts(4,5) r assms(2,4)
    by (auto simp: choose_checkpoint_def bnd_Inr_iff attempted_def load_healthy lift_res_def ret_def expect_def
        split: option.splits)
qed

text \<open>C38: an interrupted rebuild is taken for a finished one: when the import does not complete, as a shutdown
  ends it, the balances are empty and yet the pruning point is saved as checkpoint; the next
  start, unless it is forced or finds the checkpoint too old, does not rebuild and goes on from
  the empty balances.\<close>

theorem interrupted_rebuild_is_kept:
  assumes "start_checkpoint L P perm drain e args as p = (Inr (h, previous, utxo), p')" "healthy p"
    and "needs_rebuild L e args p = (Inr True, p)" "ignore_checkpoint args = None"
    and "start_import L P perm drain (import_config_of args (en_pruning_point e)) as (me_utxo_importer metrics_new)
      (p\<lparr>data := (data p)\<lparr>t_balances := Map.empty\<rparr>\<rparr>) = (Inr m, q)" "mu_completed m \<noteq> Some True"
    and "\<not> is_excluded args TxOutScriptPublicKeyAddress"
    and "hash_from_str L (hex_encode L (as_bytes (en_pruning_point e))) = Some (en_pruning_point e)"
    and "\<not> force_balance_rebuild args'" "\<not> checkpoint_too_old e' (en_pruning_point e)"
  shows "t_balances (data p') = Map.empty \<and> needs_rebuild L e' args' p' = (Inr False, p')"
proof -
  let ?hex = "hex_encode L (as_bytes (en_pruning_point e))"
  from assms(1,2) obtain r q1 where parts: "needs_rebuild L e args p = (Inr r, p)"
    "(if r then rebuild_balances L P perm drain e args as else ret ()) p = (Inr (), q1)" "healthy q1"
    "choose_checkpoint L e args (is_enabled args ForceUtxoImport \<and> \<not> r) q1 = (Inr (h, previous, utxo), q1)"
    "p' = q1\<lparr>data := (data q1)\<lparr>t_vars := (t_vars (data q1))(var_key_block_checkpoint \<mapsto> previous)\<rparr>\<rparr>"
    by (rule start_checkpoint_parts)
  then have "rebuild_balances L P perm drain e args as p = (Inr (), q1)" using assms(3) by simp
  then obtain m0 q0 where i: "start_import L P perm drain (import_config_of args (en_pruning_point e)) as
      (me_utxo_importer metrics_new) (p\<lparr>data := (data p)\<lparr>t_balances := Map.empty\<rparr>\<rparr>) = (Inr m0, q0)"
    and q1: "q1 = q0\<lparr>data := (data q0)\<lparr>t_vars := (t_vars (data q0))(var_key_block_checkpoint \<mapsto> ?hex)\<rparr>\<rparr>"
    using assms(2) by (rule rebuild_balances_parts)
  have "previous = ?hex"
    using chosen_after_save [OF parts(4,3) assms(4)] by (simp add: q1)
  moreover have "t_balances (data q0) = Map.empty"
    by (rule start_not_completed_balances [OF i])
      (use i assms(2,5-7) in \<open>simp_all add: import_config_of_def\<close>)
  ultimately show ?thesis
    using assms(8-10) parts(3,5) by (simp add: q1 needs_rebuild_def attempted_def load_healthy bnd_def ret_def)
qed

section \<open>The whole start\<close>

lemma whole_start:
  assumes "start_processing L P perm drain e args as bs p = (Inr s, p')"
  obtains h previous utxo q and m :: metrics and mu where
    "start_checkpoint L P perm drain e args as p = (Inr (h, previous, utxo), q)"
    "(if utxo then start_import L P perm drain (import_config_of args (en_pruning_point e)) bs (me_utxo_importer m)
      else ret (me_utxo_importer m)) q = (Inr mu, p')"
    "sd_settings s = settings_of args h utxo" "sd_previous s = previous" "me_utxo_importer (sd_metrics s) = mu"
  using assms by (auto simp: start_processing_def bnd_Inr_iff lift_res_def Let_def ret_def)

text \<open>C19: a resume changes nothing but the saved variable: on a healthy connection, when no rebuild is
  needed, no checkpoint is ignored and no import is forced, a whole start that goes through hands the
  tasks the checkpoint that was saved, as checkpoint and as previous checkpoint, and changes no
  table; the saved value is written again, under the current name.\<close>

theorem resume_keeps_data:
  assumes "start_processing L P perm drain e args as bs p = (Inr s, p')" "healthy p"
    and "needs_rebuild L e args p = (Inr False, p)" "ignore_checkpoint args = None" "\<not> is_enabled args ForceUtxoImport"
  shows "load_block_checkpoint p = (Inr (sd_previous s), p)
    \<and> hash_from_str L (sd_previous s) = Some (s_checkpoint (sd_settings s))
    \<and> data p' = (data p)\<lparr>t_vars := (t_vars (data p))(var_key_block_checkpoint \<mapsto> sd_previous s)\<rparr>"
proof -
  from assms(1) obtain h previous utxo q and m :: metrics and mu where
    c: "start_checkpoint L P perm drain e args as p = (Inr (h, previous, utxo), q)"
    and i: "(if utxo then start_import L P perm drain (import_config_of args (en_pruning_point e)) bs (me_utxo_importer m)
      else ret (me_utxo_importer m)) q = (Inr mu, p')"
    and s: "sd_settings s = settings_of args h utxo" "sd_previous s = previous"
    by (rule whole_start) (rule that; assumption)
  from resume_parts [OF c assms(2-4)] assms(5) i s show ?thesis by (simp add: settings_of_def ret_def)
qed

text \<open>A forced import moves the balances and not the checkpoint: started with ForceUtxoImport and a saved
  checkpoint that is kept, a completed import sets every balance to that of the pruning point,
  while the balance updates go on from the saved checkpoint, whatever lies between the two.\<close>

lemma forced_import_moves_balances_only:
  assumes "start_processing L P perm drain e args as bs p = (Inr s, p')" "healthy p"
    and "needs_rebuild L e args p = (Inr False, p)" "ignore_checkpoint args = None" "is_enabled args ForceUtxoImport"
    and "mu_completed (me_utxo_importer (sd_metrics s)) = Some True"
    and "\<not> is_excluded args TxOutScriptPublicKeyAddress" "permuting drain" "p2p_ok L P"
    and "\<forall>a\<in>set bs. an_address a \<noteq> None"
  shows "load_block_checkpoint p = (Inr (sd_previous s), p) \<and> hash_from_str L (sd_previous s) = Some (s_checkpoint (sd_settings s))
    \<and> (\<exists>a\<in>set bs. \<forall>x. balance_of (data p') x = credited_sum L P x (imported_pairs (an_events a)))"
proof -
  from assms(1) obtain h previous utxo q and m :: metrics and mu where
    c: "start_checkpoint L P perm drain e args as p = (Inr (h, previous, utxo), q)"
    and i: "(if utxo then start_import L P perm drain (import_config_of args (en_pruning_point e)) bs (me_utxo_importer m)
      else ret (me_utxo_importer m)) q = (Inr mu, p')"
    and s: "sd_settings s = settings_of args h utxo" "sd_previous s = previous" "me_utxo_importer (sd_metrics s) = mu"
    by (rule whole_start) (rule that; assumption)
  note r = resume_parts [OF c assms(2-4)]
  have q: "healthy q" using c assms(2) by (rule start_checkpoint_parts) simp
  have i': "start_import L P perm drain (import_config_of args (en_pruning_point e)) bs (me_utxo_importer m) q
      = (Inr mu, p')"
    using i r assms(5) by simp
  have "\<exists>a\<in>set bs. \<forall>x. balance_of (data p') x = credited_sum L P x (imported_pairs (an_events a))"
    by (rule start_rebuilds [OF i' _ q _ assms(8-10)]) (use assms(6,7) s in \<open>simp_all add: import_config_of_def\<close>)
  with r s show ?thesis by (simp add: settings_of_def)
qed

section \<open>Queues\<close>

text \<open>C39: of the batch scales that pass the check of the arguments, exactly NaN panics when the queues are
  created, and the others give queues of at least one and at most ten thousand places.\<close>

theorem queue_capacity_bounds:
  assumes "check_batch_args args = Inr ()"
  shows "(case new_queue (queue_capacity args) of Inr n \<Rightarrow> batch_scale args \<noteq> NaN \<and> 1 \<le> n \<and> n \<le> 10000
    | Inl _ \<Rightarrow> batch_scale args = NaN)"
  using assms f64_as_unsigned_bounds [of "batch_scale args" 1000 64]
  by (auto simp: check_batch_args_Inr new_queue_def queue_capacity_def scale_ok_def)

section \<open>Concrete starts\<close>

definition sample_env :: startup_env where
  "sample_env = \<lparr>en_pruning_point = Hash [1], en_virtual_parents = [Hash [2]], en_old_block = (\<lambda>_. Some 5),
     en_parent_block = (\<lambda>_. Some 100), en_connection = True, en_block = (\<lambda>_. None)\<rparr>"

definition saved_db :: db where
  "saved_db = schema_db\<lparr>t_vars := (t_vars schema_db)(var_key_block_checkpoint \<mapsto> [CHR 0x02])\<rparr>"

definition import_args :: cli_args where
  "import_args = sample_args\<lparr>enable := Some [ForceUtxoImport]\<rparr>"

lemma sample_round_trip:
  "hash_from_str sample_libs (hex_encode sample_libs [1]) = Some (Hash [1])"
  "hash_from_str sample_libs [CHR 0x02] = Some (Hash [2])"
  by (simp_all add: sample_libs_def)

lemma sample_vars:
  "t_vars schema_db var_key_block_checkpoint = None" "t_vars schema_db var_key_legacy_checkpoint = None"
  "t_vars saved_db var_key_block_checkpoint = Some [CHR 0x02]"
  by (simp_all add: schema_db_def saved_db_def var_key_block_checkpoint_def var_key_legacy_checkpoint_def)

lemma too_old: "\<not> checkpoint_too_old sample_env h"
  by (simp add: checkpoint_too_old_def sample_env_def rebuild_threshold_blue_def)

lemma sample_needs:
  "needs_rebuild sample_libs sample_env args (pool_of schema_db) = (Inr True, pool_of schema_db)"
  "\<not> force_balance_rebuild args \<Longrightarrow>
     needs_rebuild sample_libs sample_env args (pool_of saved_db) = (Inr False, pool_of saved_db)"
  by (simp_all add: needs_rebuild_def attempted_def load_healthy sample_vars bnd_def ret_def sample_round_trip
      checkpoint_too_old_def sample_env_def rebuild_threshold_blue_def)

lemma sample_args_facts:
  "\<not> force_balance_rebuild sample_args" "ignore_checkpoint sample_args = None" "\<not> is_excluded sample_args field"
  "\<not> force_balance_rebuild import_args" "ignore_checkpoint import_args = None" "\<not> is_excluded import_args field"
  "is_enabled import_args ForceUtxoImport" "\<not> is_enabled sample_args ForceUtxoImport"
  "en_pruning_point sample_env = Hash [1]"
  by (simp_all add: sample_args_def import_args_def is_excluded_def is_enabled_def sample_env_def)

lemma sample_configs:
  "import_config_of sample_args (Hash [1]) = sample_import_config True"
  "import_config_of import_args (Hash [1]) = sample_import_config True"
  by (simp_all add: import_config_of_def sample_args_def import_args_def sample_import_config_def is_excluded_def)

lemma sample_import_runs:
  obtains m' p' where "start_import sample_libs sample_p2p (\<lambda>xs. xs) (\<lambda>xs. xs) (sample_import_config True)
      [sample_attempt True] m p = (Inr m', p')" "mu_completed m' = Some True"
proof -
  obtain rows ids agg where "import_pairs sample_libs sample_p2p (sample_import_config True)
      (imported_pairs (an_events (sample_attempt True))) [] = Inr (rows, ids, agg)"
    using sample_pairs [of True] by (auto simp: sample_attempt_def)
  have a: "list_all well_behaved (an_events (sample_attempt True))" "an_connects (sample_attempt True)"
    "Message DonePruningPointUtxoSetChunks (\<lambda>_. True) \<in> set (an_events (sample_attempt True))"
    using sample_well_behaved by (simp_all add: sample_attempt_def)
  from start_completes [OF a(1,3) \<open>import_pairs _ _ _ _ _ = _\<close> a(2)] that show thesis by blast
qed

definition sample_start_checkpoint :: "cli_args \<Rightarrow> attempt list \<Rightarrow> db \<Rightarrow> (panic + hash \<times> string \<times> bool) \<times> pool" where
  "sample_start_checkpoint args as d =
     start_checkpoint sample_libs sample_p2p (\<lambda>xs. xs) (\<lambda>xs. xs) sample_env args as (pool_of d)"

lemma schema_balances: "(pool_of schema_db)\<lparr>data := (data (pool_of schema_db))\<lparr>t_balances := Map.empty\<rparr>\<rparr> = pool_of schema_db"
  by (simp add: schema_db_def)

text \<open>A rebuild goes through with any attempts whose import ends.\<close>

lemma sample_rebuild:
  assumes "start_import sample_libs sample_p2p (\<lambda>xs. xs) (\<lambda>xs. xs) (sample_import_config True) as
      (me_utxo_importer metrics_new) (pool_of schema_db) = (Inr m, q)"
  shows "\<exists>p'. sample_start_checkpoint sample_args as schema_db = (Inr (Hash [1], hex_encode sample_libs [1], False), p')"
proof -
  have h: "healthy q" using start_healthy [OF assms] by simp
  have "rebuild_balances sample_libs sample_p2p (\<lambda>xs. xs) (\<lambda>xs. xs) sample_env sample_args as (pool_of schema_db)
      = (Inr (), q\<lparr>data := (data q)\<lparr>t_vars := (t_vars (data q))(var_key_block_checkpoint \<mapsto> hex_encode sample_libs [1])\<rparr>\<rparr>)"
    using h assms schema_balances
    by (simp add: rebuild_balances_def sample_configs sample_args_facts truncate_healthy bnd_def ret_def
        attempted_def save_healthy)
  then show ?thesis
    using h by (simp add: sample_start_checkpoint_def start_checkpoint_def sample_needs bnd_def ret_def
        choose_checkpoint_def sample_args_facts attempted_def load_healthy lift_res_def save_healthy sample_round_trip)
qed

theorem rebuild_starts_consistently_witness:
  "\<exists>p'. sample_start_checkpoint sample_args [sample_attempt True] schema_db = (Inr (Hash [1], hex_encode sample_libs [1], False), p')
     \<and> balance_of (data p') ''a'' = 12"
proof -
  obtain m q where i: "start_import sample_libs sample_p2p (\<lambda>xs. xs) (\<lambda>xs. xs) (sample_import_config True)
      [sample_attempt True] (me_utxo_importer metrics_new) (pool_of schema_db) = (Inr m, q)"
    "mu_completed m = Some True" by (rule sample_import_runs)
  obtain p' where p': "sample_start_checkpoint sample_args [sample_attempt True] schema_db
      = (Inr (Hash [1], hex_encode sample_libs [1], False), p')"
    using sample_rebuild [OF i(1)] by blast
  have "\<exists>a\<in>set [sample_attempt True]. \<forall>x. balance_of (data p') x
      = credited_sum sample_libs sample_p2p x (imported_pairs (an_events a))"
    by (rule rebuild_starts_consistently [OF p' [unfolded sample_start_checkpoint_def], where m = m and q = q,
          THEN conjunct2, THEN conjunct2, THEN conjunct2, THEN conjunct2])
      (use i sample_p2p_ok permuting_id in \<open>simp_all add: sample_configs sample_needs sample_round_trip
        sample_attempt_def sample_args_facts schema_balances [simplified]\<close>)
  moreover have "as_i64 5 = 5" "as_i64 7 = 7" by (simp_all add: as_i64_def)
  ultimately show ?thesis using p'
    by (simp add: sample_attempt_def sample_events_def sample_pair_def credited_def sample_p2p_def sample_libs_def)
qed

theorem interrupted_rebuild_is_kept_witness:
  "\<exists>p'. sample_start_checkpoint sample_args [] schema_db = (Inr (Hash [1], hex_encode sample_libs [1], False), p')
     \<and> t_balances (data p') = Map.empty \<and> needs_rebuild sample_libs sample_env sample_args p' = (Inr False, p')"
proof -
  let ?m = "(me_utxo_importer metrics_new)\<lparr>mu_completed := Some False\<rparr>"
  have i: "start_import sample_libs sample_p2p (\<lambda>xs. xs) (\<lambda>xs. xs) (sample_import_config True)
      [] (me_utxo_importer metrics_new) (pool_of schema_db) = (Inr ?m, pool_of schema_db)" by (simp add: ret_def)
  obtain p' where p': "sample_start_checkpoint sample_args [] schema_db = (Inr (Hash [1], hex_encode sample_libs [1], False), p')"
    using sample_rebuild [OF i] by blast
  have "t_balances (data p') = Map.empty \<and> needs_rebuild sample_libs sample_env sample_args p' = (Inr False, p')"
    by (rule interrupted_rebuild_is_kept [OF p' [unfolded sample_start_checkpoint_def],
          where m = ?m and q = "pool_of schema_db"])
      (use i in \<open>simp_all add: sample_configs sample_needs sample_round_trip sample_args_facts
        schema_balances [simplified] too_old\<close>)
  with p' show ?thesis by blast
qed

lemma sample_resume:
  "\<not> force_balance_rebuild args \<Longrightarrow> ignore_checkpoint args = None \<Longrightarrow>
     sample_start_checkpoint args as saved_db =
       (Inr (Hash [2], [CHR 0x02], is_enabled args ForceUtxoImport), pool_of saved_db)"
proof -
  have "save_checkpoint [CHR 0x02] (pool_of saved_db) = (Inr 1, pool_of saved_db)"
    by (simp add: save_healthy) (simp add: saved_db_def)
  moreover assume "\<not> force_balance_rebuild args" "ignore_checkpoint args = None"
  ultimately show ?thesis
    by (simp add: sample_start_checkpoint_def start_checkpoint_def sample_needs bnd_def ret_def choose_checkpoint_def
        attempted_def load_healthy sample_vars lift_res_def sample_round_trip)
qed

lemma sample_whole_resume:
  "\<exists>s. start_processing sample_libs sample_p2p (\<lambda>xs. xs) (\<lambda>xs. xs) sample_env sample_args [] [] (pool_of saved_db)
     = (Inr s, pool_of saved_db) \<and> sd_previous s = [CHR 0x02]"
proof -
  let ?s = "settings_of sample_args (Hash [2]) False"
  obtain c where c: "new_queue (queue_capacity sample_args) = Inr c"
    by (simp add: new_queue_def queue_capacity_def sample_args_def fl_of_nat [of 1000, simplified])
  obtain m where "startup_metrics sample_libs ?s c None = Inr m" by (simp add: startup_metrics_def)
  moreover have "initial_checkpoint_block sample_env h = Inr None" for h
    by (simp add: initial_checkpoint_block_def sample_env_def)
  ultimately show ?thesis
    using c sample_resume [OF sample_args_facts(1,2), of "[]", unfolded sample_start_checkpoint_def]
    by (simp add: start_processing_def sample_args_facts bnd_def lift_res_def ret_def Let_def)
qed

theorem resume_keeps_data_witness:
  "\<exists>s. start_processing sample_libs sample_p2p (\<lambda>xs. xs) (\<lambda>xs. xs) sample_env sample_args [] [] (pool_of saved_db)
     = (Inr s, pool_of saved_db) \<and> hash_from_str sample_libs (sd_previous s) = Some (s_checkpoint (sd_settings s))"
proof -
  obtain s where s: "start_processing sample_libs sample_p2p (\<lambda>xs. xs) (\<lambda>xs. xs) sample_env sample_args [] []
     (pool_of saved_db) = (Inr s, pool_of saved_db)" using sample_whole_resume by blast
  from resume_keeps_data [OF s _ _ sample_args_facts(2,8)] s show ?thesis by (simp add: sample_needs sample_args_facts)
qed

theorem queue_capacity_bounds_witness: "\<exists>n. new_queue (queue_capacity sample_args) = Inr n \<and> n \<le> 10000"
  using queue_capacity_bounds [of sample_args]
  by (simp add: check_batch_args_def sample_args_def lit_0_1_def split: sum.splits)

end
