(* ===== verification/Web_Metrics.thy ===== *)
theory Web_Metrics
  imports Pipeline Db_Insert
begin

text \<open>
  The metrics as the web endpoints show them (\<open>indexer/src/web/model/metrics.rs\<close>): the
  record the tasks write (theory \<open>Pipeline\<close>) with the figures of the process and of the
  database, and \<open>update_metrics\<close> (\<open>web/endpoint/metrics.rs\<close>), which refreshes them. The
  figures of the system and the rows of the PostgreSQL statistics are inputs; the formatting of
  durations, sizes and times is the libraries'.
\<close>

section \<open>Model\<close>

text \<open>The share of the processor is a finite \<open>f32\<close>, the rational it stands for.\<close>

record metrics_process =
  mx_cpu_used_percent :: rat
  mx_memory_used :: u64
  mx_memory_used_pretty :: "string option"
  mx_memory_free :: u64
  mx_memory_free_pretty :: "string option"
  mx_uptime :: u64
  mx_uptime_pretty :: "string option"

definition metrics_process_new :: metrics_process where
  "metrics_process_new = \<lparr>mx_cpu_used_percent = 0, mx_memory_used = 0, mx_memory_used_pretty = None,
     mx_memory_free = 0, mx_memory_free_pretty = None, mx_uptime = 0, mx_uptime_pretty = None\<rparr>"

record metrics_db_table =
  mt_name :: string
  mt_total_size :: nat
  mt_total_size_pretty :: string
  mt_indexes_size :: nat
  mt_indexes_size_pretty :: string
  mt_approximate_row_count :: nat

record metrics_db =
  ms_database_name :: "string option"
  ms_schema_name :: "string option"
  ms_database_size :: "nat option"
  ms_database_size_pretty :: "string option"
  ms_active_queries :: "nat option"
  ms_blocked_queries :: "nat option"
  ms_active_connections :: "nat option"
  ms_max_connections :: "nat option"
  ms_tables :: "metrics_db_table list option"

definition metrics_db_new :: metrics_db where
  "metrics_db_new = \<lparr>ms_database_name = None, ms_schema_name = None, ms_database_size = None,
     ms_database_size_pretty = None, ms_active_queries = None, ms_blocked_queries = None,
     ms_active_connections = None, ms_max_connections = None, ms_tables = None\<rparr>"

text \<open>The whole of \<open>Metrics\<close>: what the tasks write, and the rest.\<close>

record web_metrics = metrics +
  wm_name :: string
  wm_version :: string
  wm_commit_id :: string
  wm_process :: metrics_process
  wm_database :: metrics_db

definition web_metrics_of :: "string \<Rightarrow> string \<Rightarrow> string \<Rightarrow> metrics \<Rightarrow> web_metrics" where
  "web_metrics_of name version commit_id m = metrics.extend m (web_metrics.fields name version commit_id
     metrics_process_new metrics_db_new)"

section \<open>The statistics of the database\<close>

record database_details =
  dd_database_name :: string
  dd_schema_name :: string
  dd_database_size :: int
  dd_active_queries :: int
  dd_blocked_queries :: int
  dd_active_connections :: int
  dd_max_connections :: int

record table_details =
  ta_name :: string
  ta_total_size :: int
  ta_indexes_size :: int
  ta_approximate_row_count :: int

record format_libs =
  format_secs :: "nat \<Rightarrow> string"   \<comment> \<open>\<open>humantime::format_duration\<close> of whole seconds\<close>
  format_bytes :: "nat \<Rightarrow> string"  \<comment> \<open>\<open>ByteSize\<close>\<close>
  format_time :: "int \<Rightarrow> string"   \<comment> \<open>\<open>DateTime\<close>\<close>

text \<open>\<open>to_u64().unwrap_or(0)\<close> of an \<open>i64\<close> or an \<open>i32\<close>: a negative count, as of a table never analysed, is 0.\<close>

definition to_u64_or_0 :: "int \<Rightarrow> nat" where
  "to_u64_or_0 n = (if n < 0 then 0 else nat n)"

definition metrics_db_of :: "format_libs \<Rightarrow> database_details \<Rightarrow> metrics_db" where
  "metrics_db_of F d = \<lparr>ms_database_name = Some (dd_database_name d), ms_schema_name = Some (dd_schema_name d),
     ms_database_size = Some (to_u64_or_0 (dd_database_size d)),
     ms_database_size_pretty = Some (format_bytes F (to_u64_or_0 (dd_database_size d))),
     ms_active_queries = Some (to_u64_or_0 (dd_active_queries d)),
     ms_blocked_queries = Some (to_u64_or_0 (dd_blocked_queries d)),
     ms_active_connections = Some (to_u64_or_0 (dd_active_connections d)),
     ms_max_connections = Some (to_u64_or_0 (dd_max_connections d)),
     ms_tables = None\<rparr>"

definition metrics_db_table_of :: "format_libs \<Rightarrow> table_details \<Rightarrow> metrics_db_table" where
  "metrics_db_table_of F t = \<lparr>mt_name = ta_name t, mt_total_size = to_u64_or_0 (ta_total_size t),
     mt_total_size_pretty = format_bytes F (to_u64_or_0 (ta_total_size t)),
     mt_indexes_size = to_u64_or_0 (ta_indexes_size t),
     mt_indexes_size_pretty = format_bytes F (to_u64_or_0 (ta_indexes_size t)),
     mt_approximate_row_count = to_u64_or_0 (ta_approximate_row_count t)\<rparr>"

section \<open>The refresh\<close>

text \<open>
  The two files of the control group, parsed, or \<open>None\<close>; \<open>max - current\<close> panics when the use
  is above the limit. Otherwise the system's available memory, or its free memory.
\<close>

definition get_free_memory :: "u64 option \<Rightarrow> u64 option \<Rightarrow> u64 \<Rightarrow> u64 \<Rightarrow> panic + u64" where
  "get_free_memory cgroup_max cgroup_current available free =
     (case (cgroup_max, cgroup_current) of
        (Some mx, Some cur) \<Rightarrow>
          if cur \<le> mx then Inr (mx - cur) else Inl (Panic ''attempt to subtract with overflow'')
      | _ \<Rightarrow> Inr (if available = 0 then free else available))"

text \<open>What the system says of the process, after the refresh.\<close>

record process_figures =
  pf_run_time :: nat
  pf_cpu_usage :: rat
  pf_memory :: u64

text \<open>\<open>(usage * 10.0).round() / 10.0\<close> on \<open>f32\<close>, for a usage of at least 0.\<close>

definition one_decimal :: "rat \<Rightarrow> rat" where
  "one_decimal x = fl 24 (of_int \<lfloor>fl 24 (x * 10) + 1 / 2\<rfloor> / 10)"

definition update_process ::
  "format_libs \<Rightarrow> process_figures option \<Rightarrow> panic + u64 \<Rightarrow> metrics_process \<Rightarrow> panic + metrics_process" where
  "update_process F proc free x =
     (case proc of None \<Rightarrow> Inr x
      | Some pf \<Rightarrow> sbind free (\<lambda>f.
          Inr \<lparr>mx_cpu_used_percent = one_decimal (pf_cpu_usage pf),
            mx_memory_used = pf_memory pf, mx_memory_used_pretty = Some (format_bytes F (unat (pf_memory pf))),
            mx_memory_free = f, mx_memory_free_pretty = Some (format_bytes F (unat f)),
            mx_uptime = of_nat (pf_run_time pf * 1000), mx_uptime_pretty = Some (format_secs F (pf_run_time pf))\<rparr>))"

text \<open>A failing query leaves its part as it was; the details of the database drop the list of tables.\<close>

definition update_database ::
  "format_libs \<Rightarrow> sql_error + database_details \<Rightarrow> sql_error + table_details list \<Rightarrow> metrics_db \<Rightarrow> metrics_db" where
  "update_database F details tables d =
     (let d1 = (case details of Inl _ \<Rightarrow> d | Inr dd \<Rightarrow> metrics_db_of F dd) in
      case tables of Inl _ \<Rightarrow> d1 | Inr ts \<Rightarrow> d1\<lparr>ms_tables := Some (map (metrics_db_table_of F) ts)\<rparr>)"

text \<open>What the system and the server answer during a refresh.\<close>

record refresh =
  rf_process :: "process_figures option"
  rf_cgroup_max :: "u64 option"
  rf_cgroup_current :: "u64 option"
  rf_available :: u64
  rf_free :: u64
  rf_database :: "sql_error + database_details"
  rf_tables :: "sql_error + table_details list"

definition update_metrics :: "format_libs \<Rightarrow> refresh \<Rightarrow> web_metrics \<Rightarrow> panic + web_metrics" where
  "update_metrics F r m =
     sbind (update_process F (rf_process r)
         (get_free_memory (rf_cgroup_max r) (rf_cgroup_current r) (rf_available r) (rf_free r)) (wm_process m)) (\<lambda>x.
     Inr (m\<lparr>wm_process := x, wm_database := update_database F (rf_database r) (rf_tables r) (wm_database m)\<rparr>))"

lemma update_metrics_Inr:
  assumes "update_metrics F r m = Inr m'"
  shows "metrics.truncate m' = metrics.truncate m" "wm_name m' = wm_name m"
    and "rf_process r \<noteq> None \<Longrightarrow> mx_memory_free_pretty (wm_process m') \<noteq> None"
  using assms by (auto simp: update_metrics_def sbind_Inr_iff update_process_def metrics.truncate_def split: option.splits)

lemma update_metrics_runs:
  assumes "\<And>mx cur. rf_cgroup_max r = Some mx \<Longrightarrow> rf_cgroup_current r = Some cur \<Longrightarrow> cur \<le> mx"
  shows "\<exists>m'. update_metrics F r m = Inr m'"
  using assms by (auto simp: update_metrics_def update_process_def get_free_memory_def sbind_def split: option.splits)

end
