(* ===== verification/Health.thy ===== *)
theory Health
  imports Web_Metrics
begin

text \<open>
  The health endpoint (\<open>indexer/src/web/endpoint/health.rs\<close>, \<open>web/model/health.rs\<close>) on the
  metrics of the theory \<open>Web_Metrics\<close>, and the signal handler (\<open>signal/src/signal_handler.rs\<close>).
  The node's answer, the clock and the system's figures are inputs.
\<close>

section \<open>Model\<close>

datatype health_status = UP | WARN | DOWN

record server_info =
  si_synced :: bool
  si_version :: string
  si_network :: string
  si_virtual_daa :: u64

record health_vecnod =
  hv_status :: health_status
  hv_is_synced :: "bool option"
  hv_server_version :: "string option"
  hv_network_id :: "string option"
  hv_virtual_daa_score :: "u64 option"
  hv_error :: "string option"

record health_details =
  hd_name :: string
  hd_status :: health_status
  hd_reason :: string

record health_info =
  hi_name :: string
  hi_version :: string
  hi_commit_id :: string
  hi_uptime :: "string option"

record health_indexer =
  hx_status :: health_status
  hx_info :: health_info
  hx_details :: "health_details list option"

record health =
  he_status :: health_status
  he_last_updated :: u64
  he_indexer :: health_indexer
  he_vecnod :: health_vecnod

definition vecnod_failed :: "string \<Rightarrow> health_vecnod" where
  "vecnod_failed err = \<lparr>hv_status = DOWN, hv_is_synced = None, hv_server_version = None, hv_network_id = None,
     hv_virtual_daa_score = None, hv_error = Some err\<rparr>"

definition vecnod_of :: "server_info \<Rightarrow> health_vecnod" where
  "vecnod_of i = \<lparr>hv_status = (if si_synced i then UP else DOWN), hv_is_synced = Some (si_synced i),
     hv_server_version = Some (si_version i), hv_network_id = Some (si_network i),
     hv_virtual_daa_score = Some (si_virtual_daa i),
     hv_error = (if si_synced i then None else Some ''Vecnod is not synced'')\<rparr>"

section \<open>The health of the indexer\<close>

text \<open>\<open>((alloc as f32 / cap as f32) * 100.0).round() as u32\<close>: NaN gives 0, infinity the maximum.\<close>

definition percent_allocation :: "u64 \<Rightarrow> u64 \<Rightarrow> nat" where
  "percent_allocation alloc cap =
     (if cap = 0 then if alloc = 0 then 0 else 2 ^ 32 - 1
      else let q = fl 24 (fl 24 (of_nat (unat alloc)) / fl 24 (of_nat (unat cap))) in
        min (nat \<lfloor>fl 24 (q * 100) + 1 / 2\<rfloor>) (2 ^ 32 - 1))"

definition lag_status :: "nat \<Rightarrow> nat \<Rightarrow> nat option \<Rightarrow> health_status" where
  "lag_status warn_lag down_lag lag =
     (case lag of None \<Rightarrow> DOWN
      | Some l \<Rightarrow> if l < warn_lag then UP else if l < down_lag then WARN else DOWN)"

text \<open>The lag behind the node's DAA score in seconds, or else behind the clock (milliseconds).\<close>

definition block_lag :: "nat \<Rightarrow> u64 option \<Rightarrow> u64 \<Rightarrow> metrics_block option \<Rightarrow> panic + nat option" where
  "block_lag net_bps current_daa now_ms block =
     (case block of None \<Rightarrow> Inr None
      | Some b \<Rightarrow> (case current_daa of
            Some c \<Rightarrow> if net_bps = 0 then Inl (Panic ''attempt to divide by zero'')
              else Inr (Some ((unat c - unat (mb_daa_score b)) div net_bps))
          | None \<Rightarrow> Inr (Some ((unat now_ms - unat (mb_timestamp b)) div 1000))))"

definition indexer_details ::
  "format_libs \<Rightarrow> string \<Rightarrow> nat \<Rightarrow> u64 option \<Rightarrow> nat \<Rightarrow> nat \<Rightarrow> u64 \<Rightarrow> metrics_block option \<Rightarrow>
     panic + health_details" where
  "indexer_details F component net_bps current_daa warn_lag down_lag now_ms block =
     sbind (block_lag net_bps current_daa now_ms block) (\<lambda>lag. Inr
      \<lparr>hd_name = component, hd_status = lag_status warn_lag down_lag lag,
       hd_reason = (case lag of None \<Rightarrow> ''No data'' | Some l \<Rightarrow> format_secs F l @ '' behind'')\<rparr>)"

definition queue_details :: "string \<Rightarrow> u64 \<Rightarrow> u64 \<Rightarrow> health_details" where
  "queue_details name alloc cap =
     (let u = percent_allocation alloc cap in
      \<lparr>hd_name = name, hd_status = (if u < 90 then UP else WARN),
       hd_reason = ''Utilization: '' @ digits u @ ''%''\<rparr>)"

definition memory_details :: "metrics_process \<Rightarrow> panic + health_details" where
  "memory_details x =
     sbind (expect unwrap_msg (mx_memory_free_pretty x)) (\<lambda>s.
     Inr \<lparr>hd_name = ''process.memory_free'',
       hd_status = (if 524288000 < mx_memory_free x then UP else WARN), hd_reason = ''Free memory: '' @ s\<rparr>)"

definition importer_details :: "metrics_utxo_importer \<Rightarrow> health_details" where
  "importer_details u =
     (if mu_enabled u then
        let completed = (mu_completed u = Some True);
            utxos = (case mu_utxos_imported u of None \<Rightarrow> 0 | Some n \<Rightarrow> n) in
        \<lparr>hd_name = ''component.utxo_importer'', hd_status = (if completed then UP else WARN),
         hd_reason = (if completed then ''Completed'' else ''In progress'') @ '' ('' @ digits (unat utxos) @ '' utxos imported)''\<rparr>
      else \<lparr>hd_name = ''component.utxo_importer'', hd_status = UP, hd_reason = ''Disabled''\<rparr>)"

definition pruner_details :: "format_libs \<Rightarrow> metrics_pruner \<Rightarrow> health_details" where
  "pruner_details F p =
     (if md_enabled p then
        let start_time = (case md_start_time p of None \<Rightarrow> 0 | Some t \<Rightarrow> t) in
        \<lparr>hd_name = ''component.db_pruner'',
         hd_status = (case md_completed_successfully p of None \<Rightarrow> UP | Some ok \<Rightarrow> if ok then UP else WARN),
         hd_reason = (case md_completed_successfully p of None \<Rightarrow> ''Not yet run''
           | Some ok \<Rightarrow> format_time F start_time @ '': '' @ (if ok then ''Success'' else ''Failure''))\<rparr>
      else \<lparr>hd_name = ''component.db_pruner'', hd_status = UP, hd_reason = ''Disabled''\<rparr>)"

definition net_bps_of :: "web_metrics \<Rightarrow> nat" where
  "net_bps_of m = (case me_settings m of None \<Rightarrow> 10 | Some s \<Rightarrow> unat (s_net_bps s))"

text \<open>All the details, in the code's order.\<close>

definition all_details ::
  "format_libs \<Rightarrow> web_metrics \<Rightarrow> u64 option \<Rightarrow> u64 \<Rightarrow> panic + health_details list" where
  "all_details F m current_daa now_ms = traverse (\<lambda>d. d) (
     [memory_details (wm_process m),
      Inr (queue_details ''queue.blocks'' (mq_blocks (me_queues m)) (mq_blocks_capacity (me_queues m))),
      Inr (queue_details ''queue.transactions'' (mq_transactions (me_queues m)) (mq_transactions_capacity (me_queues m))),
      indexer_details F ''checkpoint'' (net_bps_of m) current_daa 120 600 now_ms (mc_block (me_checkpoint m)),
      Inr (importer_details (me_utxo_importer m)),
      indexer_details F ''component.block_fetcher'' (net_bps_of m) current_daa 60 600 now_ms (mf_last_block (me_block_fetcher m)),
      indexer_details F ''component.block_processor'' (net_bps_of m) current_daa 60 600 now_ms
        (mk_last_block (me_block_processor m))]
     @ (if mp_enabled (me_transaction_processor m) then
          [indexer_details F ''component.transaction_processor'' (net_bps_of m) current_daa 60 600 now_ms
             (mp_last_block (me_transaction_processor m))] else [])
     @ (if mv_enabled (me_vcp m) then
          [indexer_details F ''component.virtual_chain_processor'' (net_bps_of m) current_daa 60 600 now_ms
             (mv_last_block (me_vcp m))] else [])
     @ [Inr (pruner_details F (me_db_pruner m))])"

definition worst_status :: "health_details list \<Rightarrow> health_status" where
  "worst_status ds =
     (if \<exists>d\<in>set ds. hd_status d = DOWN then DOWN else if \<exists>d\<in>set ds. hd_status d = WARN then WARN else UP)"

definition indexer_health ::
  "format_libs \<Rightarrow> web_metrics \<Rightarrow> u64 option \<Rightarrow> u64 \<Rightarrow> panic + health_indexer" where
  "indexer_health F m current_daa now_ms =
     sbind (all_details F m current_daa now_ms) (\<lambda>ds.
     Inr \<lparr>hx_status = worst_status ds,
       hx_info = \<lparr>hi_name = wm_name m, hi_version = wm_version m, hi_commit_id = wm_commit_id m,
         hi_uptime = mx_uptime_pretty (wm_process m)\<rparr>,
       hx_details = Some ds\<rparr>)"

text \<open>
  The refreshed metrics, and the response: the status code and the body. \<open>answer\<close>: the node's
  answer, or an error.
\<close>

definition get_health ::
  "format_libs \<Rightarrow> string + server_info \<Rightarrow> refresh \<Rightarrow> u64 \<Rightarrow> web_metrics \<Rightarrow> panic + web_metrics \<times> nat \<times> health" where
  "get_health F answer r now_ms m =
     (let v = (case answer of Inl err \<Rightarrow> vecnod_failed err | Inr i \<Rightarrow> vecnod_of i) in
      sbind (update_metrics F r m) (\<lambda>m'.
      sbind (indexer_health F m' (hv_virtual_daa_score v) now_ms) (\<lambda>ix.
      let status = (if hv_status v = DOWN then DOWN else hx_status ix);
          h = \<lparr>he_status = status, he_last_updated = now_ms, he_indexer = ix, he_vecnod = v\<rparr> in
      Inr (m', if he_status h \<noteq> DOWN then 200 else 503, h))))"

section \<open>Signals\<close>

datatype signal_outcome = Stopping bool | Exited nat

text \<open>\<open>handle_signal\<close> on \<open>shutdown_sent\<close>: the second signal ends the process.\<close>

definition handle_signal :: "bool \<Rightarrow> signal_outcome" where
  "handle_signal shutdown_sent = (if shutdown_sent then Exited 1 else Stopping True)"

text \<open>\<open>run\<close>: the signals received, in order.\<close>

fun handle_signals :: "string list \<Rightarrow> bool \<Rightarrow> signal_outcome" where
  "handle_signals [] sent = Stopping sent"
| "handle_signals (_ # ss) sent = (case handle_signal sent of
     Stopping b \<Rightarrow> handle_signals ss b | Exited n \<Rightarrow> Exited n)"

lemma handle_signals_count:
  "handle_signals ss False = (if length ss < 2 then Stopping (ss \<noteq> []) else Exited 1)"
  by (cases ss; cases "tl ss") (auto simp: handle_signal_def)

section \<open>What a good report means\<close>

text \<open>At most \<open>down_lag\<close> seconds behind, by the node's DAA score.\<close>

definition close_behind :: "nat \<Rightarrow> u64 \<Rightarrow> metrics_block option \<Rightarrow> bool" where
  "close_behind net_bps current_daa block \<longleftrightarrow>
     (\<exists>b. block = Some b \<and> unat current_daa < unat (mb_daa_score b) + 600 * net_bps)"

definition keeps_up :: "web_metrics \<Rightarrow> u64 \<Rightarrow> bool" where
  "keeps_up m daa \<longleftrightarrow>
     (\<forall>b\<in>set ([mc_block (me_checkpoint m), mf_last_block (me_block_fetcher m), mk_last_block (me_block_processor m)]
         @ (if mp_enabled (me_transaction_processor m) then [mp_last_block (me_transaction_processor m)] else [])
         @ (if mv_enabled (me_vcp m) then [mv_last_block (me_vcp m)] else [])).
      close_behind (net_bps_of m) daa b)"

lemma details_not_down:
  assumes "indexer_details F n bps (Some c) w 600 now b = Inr d" "hd_status d \<noteq> DOWN" "w \<le> 600"
  shows "close_behind bps c b"
proof -
  obtain blk where b: "b = Some blk" "0 < bps" and l: "(unat c - unat (mb_daa_score blk)) div bps < 600"
    using assms by (cases b) (auto simp: indexer_details_def block_lag_def lag_status_def sbind_Inr_iff split: if_splits)
  have "unat c - unat (mb_daa_score blk) < 600 * bps"
    using l b(2) by (simp add: div_less_iff_less_mult)
  with b show ?thesis by (auto simp: close_behind_def)
qed

lemma worst_not_down: "worst_status ds \<noteq> DOWN \<longleftrightarrow> (\<forall>d\<in>set ds. hd_status d \<noteq> DOWN)"
  by (auto simp: worst_status_def)

lemma traverse_runs: "(\<And>x. x \<in> set xs \<Longrightarrow> \<exists>y. f x = Inr y) \<Longrightarrow> \<exists>ys. traverse f xs = Inr ys"
  by (induction xs) (fastforce simp: sbind_def)+

text \<open>
  The endpoint answers as soon as the process is found: with settings in the metrics, as
  \<open>startup_metrics\<close> stores them, no division by zero; the free memory is formatted. The one
  panic left is a control group that uses more than its limit.
\<close>

lemma health_answers:
  assumes "rf_process r \<noteq> None" "net_bps_of m \<noteq> 0"
    and "\<And>mx cur. rf_cgroup_max r = Some mx \<Longrightarrow> rf_cgroup_current r = Some cur \<Longrightarrow> cur \<le> mx"
  shows "\<exists>m' code h. get_health F answer r now_ms m = Inr (m', code, h)"
proof -
  obtain m' where m': "update_metrics F r m = Inr m'" using update_metrics_runs assms(3) by blast
  then have bps: "net_bps_of m' \<noteq> 0"
    using assms(2) by (auto simp: update_metrics_def sbind_Inr_iff net_bps_of_def)
  have lag: "\<exists>d. indexer_details F n (net_bps_of m') c w l now_ms b = Inr d" for n c w l b
    using bps by (auto simp: indexer_details_def block_lag_def sbind_def split: option.splits)
  have mem: "\<exists>d. memory_details (wm_process m') = Inr d"
    using update_metrics_Inr(3) [OF m' assms(1)] by (auto simp: memory_details_def sbind_def expect_def)
  have "\<exists>ds. all_details F m' c now_ms = Inr ds" for c
    unfolding all_details_def by (rule traverse_runs) (auto simp: lag mem split: if_splits)
  then show ?thesis
    using m' by (simp add: get_health_def indexer_health_def sbind_def Let_def) (metis (no_types, lifting) sum.simps(6))
qed

text \<open>C20: the health endpoint answers 200 only for an indexer that keeps up: the node is synced, and the
  checkpoint, the fetcher, the block processor and every enabled processor have a last block
  less than 600 seconds behind the node's DAA score; otherwise it answers 503. The request
  changes nothing of what the tasks report.\<close>

theorem health_ok_means_close:
  assumes "get_health F answer r now_ms m = Inr (m', code, h)" "code \<noteq> 503"
  shows "\<exists>i. answer = Inr i \<and> si_synced i \<and> code = 200 \<and> metrics.truncate m' = metrics.truncate m
    \<and> keeps_up m (si_virtual_daa i)"
proof -
  from assms obtain i where i: "answer = Inr i" "si_synced i"
    by (cases answer) (auto simp: get_health_def vecnod_failed_def vecnod_of_def sbind_Inr_iff Let_def split: if_splits)
  let ?c = "Some (si_virtual_daa i)"
  from assms i obtain ix where u: "update_metrics F r m = Inr m'"
    and ix: "indexer_health F m' ?c now_ms = Inr ix" "hx_status ix \<noteq> DOWN" "code = 200"
    by (auto simp: get_health_def vecnod_of_def sbind_Inr_iff Let_def split: if_splits)
  then obtain ds where ds: "all_details F m' ?c now_ms = Inr ds" "\<forall>d\<in>set ds. hd_status d \<noteq> DOWN"
    by (auto simp: indexer_health_def sbind_Inr_iff worst_not_down)
  have close: "close_behind (net_bps_of m') (si_virtual_daa i) b"
    if "indexer_details F n (net_bps_of m') ?c w 600 now_ms b = r" "r = Inr d" "d \<in> set ds" "w \<le> 600" for n w b r d
    using details_not_down that ds(2) by blast
  have t: "metrics.truncate m' = metrics.truncate m" by (rule update_metrics_Inr(1) [OF u])
  obtain x d where m: "m' = m\<lparr>wm_process := x, wm_database := d\<rparr>"
    using u by (auto simp: update_metrics_def sbind_Inr_iff)
  have "keeps_up m' (si_virtual_daa i)"
    using ds(1) unfolding all_details_def traverse_Inr_iff
    by (auto simp: keeps_up_def list_all2_append1 list_all2_Cons1 split: if_splits intro: close [OF refl])
  then have "keeps_up m (si_virtual_daa i)"
    by (simp add: m net_bps_of_def keeps_up_def)
  with i ix(3) t show ?thesis by blast
qed

definition sample_block :: "metrics_block option" where
  "sample_block = Some \<lparr>mb_hash = [], mb_timestamp = 0, mb_date_time = 0, mb_daa_score = 100, mb_blue_score = 0\<rparr>"

definition sample_metrics :: web_metrics where
  "sample_metrics = (web_metrics_of [] [] [] metrics_new)\<lparr>me_checkpoint := \<lparr>mc_origin = None, mc_block = sample_block\<rparr>,
     me_block_fetcher := \<lparr>mf_last_block = sample_block\<rparr>,
     me_block_processor := \<lparr>mk_last_block = sample_block\<rparr>\<rparr>"

definition sample_refresh :: refresh where
  "sample_refresh = \<lparr>rf_process = Some \<lparr>pf_run_time = 60, pf_cpu_usage = 0, pf_memory = 1000\<rparr>,
     rf_cgroup_max = Some 900000000, rf_cgroup_current = Some 1000, rf_available = 0, rf_free = 0,
     rf_database = Inl ConnectionError, rf_tables = Inl ConnectionError\<rparr>"

definition sample_health :: "u64 \<Rightarrow> panic + web_metrics \<times> nat \<times> health" where
  "sample_health daa = get_health \<lparr>format_secs = digits, format_bytes = digits, format_time = (\<lambda>_. [])\<rparr>
     (Inr \<lparr>si_synced = True, si_version = [], si_network = [], si_virtual_daa = daa\<rparr>) sample_refresh 0 sample_metrics"

lemma sample_health_ok: "(case sample_health 150 of Inr (_, code, h) \<Rightarrow> code = 200 | _ \<Rightarrow> False)"
  by (simp add: sample_health_def get_health_def vecnod_of_def indexer_health_def all_details_def memory_details_def
      queue_details_def percent_allocation_def metrics_news importer_details_def pruner_details_def
      indexer_details_def block_lag_def lag_status_def net_bps_of_def worst_status_def sbind_def Let_def
      update_metrics_def update_process_def get_free_memory_def sample_refresh_def sample_metrics_def
      web_metrics_of_def web_metrics.fields_def metrics.extend_def sample_block_def expect_def)

theorem health_ok_means_close_witness:
  "\<exists>m' h. sample_health 150 = Inr (m', 200, h) \<and> close_behind 10 150 sample_block"
proof -
  obtain m' h where h: "sample_health 150 = Inr (m', 200, h)"
    using sample_health_ok by (auto split: sum.splits prod.splits)
  from health_ok_means_close [OF h [unfolded sample_health_def]] h show ?thesis
    by (simp add: keeps_up_def net_bps_of_def metrics_news sample_metrics_def web_metrics_of_def web_metrics.fields_def metrics.extend_def)
qed

end
