(* ===== verification/Connections.thy ===== *)
theory Connections
  imports Utxo_Import
begin

text \<open>
  The edges of the program: connecting an RPC client to a node and recycling it
  (\<open>vecnod/src/manager.rs\<close>), the handshake with a peer
  (\<open>indexer/src/utxo_import/p2p_initializer.rs\<close>), and the web server's routes and layers
  (\<open>indexer/src/web/web_server.rs\<close>). What the network answers is an input; the resolver, the
  client, the handshake and the HTTP stack are other crates'.
\<close>

section \<open>RPC connections\<close>

text \<open>The part of \<open>GetServerInfoResponse\<close> a new connection is judged by; networks are of a type \<open>'n\<close>.\<close>

record 'n node_info =
  ni_network :: 'n
  ni_synced :: bool
  ni_version :: string
  ni_virtual_daa :: u64

datatype client_error = ClientError string | NotSynced string

text \<open>What the crates answer, in the order asked: the resolver's URL, the client, the connection, the info.\<close>

record 'n node_answers =
  na_resolved :: "client_error + string"
  na_new_client :: "string \<Rightarrow> client_error + unit"
  na_connect :: "client_error + unit"
  na_server_info :: "client_error + 'n node_info"

definition connect_client :: "'n \<Rightarrow> 'n \<Rightarrow> string option \<Rightarrow> 'n node_answers \<Rightarrow> panic + (client_error + string)" where
  "connect_client mainnet network_id configured a =
     (case (sbind (case configured of Some u \<Rightarrow> Inr u | None \<Rightarrow> na_resolved a) (\<lambda>url.
            sbind (na_new_client a url) (\<lambda>_.
            sbind (na_connect a) (\<lambda>_.
            sbind (na_server_info a) (\<lambda>i. Inr (url, i)))))) of
        Inl e \<Rightarrow> Inr (Inl e)
      | Inr (url, i) \<Rightarrow>
          if network_id \<noteq> ni_network i then Inl (Panic ''Network mismatch'')
          else if \<not> ni_synced i \<or> ni_network i = mainnet \<and> ni_virtual_daa i < 1
          then Inr (Inl (NotSynced (ni_version i)))
          else Inr (Inr url))"

text \<open>What a client is asked to connect with; durations are nanoseconds.\<close>

record connect_options =
  co_block_async_connect :: bool
  co_strategy :: string            \<comment> \<open>the name of a \<open>ConnectStrategy\<close>\<close>
  co_url :: "string option"
  co_connect_timeout :: "duration option"
  co_retry_interval :: "duration option"

definition connect_options_of :: connect_options where
  "connect_options_of = \<lparr>co_block_async_connect = True, co_strategy = ''Fallback'', co_url = None,
     co_connect_timeout = Some (5 * 10 ^ 9), co_retry_interval = None\<rparr>"

text \<open>The manager of the pool: a connection is made for its network and url, and kept while it is connected.\<close>

record 'n vecnod_manager =
  vm_network_id :: 'n
  vm_rpc_url :: "string option"

definition create :: "'n \<Rightarrow> 'n vecnod_manager \<Rightarrow> 'n node_answers \<Rightarrow> panic + (client_error + string)" where
  "create mainnet M a = connect_client mainnet (vm_network_id M) (vm_rpc_url M) a"

definition recycle :: "bool \<Rightarrow> string + unit" where
  "recycle is_connected = (if is_connected then Inr () else Inl ''Vecnod connection lost'')"

text \<open>A client of the pool talks to a synced node of the configured network.\<close>

lemma connect_client_synced:
  "connect_client mainnet n u a = Inr (Inr url) \<Longrightarrow>
     \<exists>i. na_server_info a = Inr i \<and> ni_network i = n \<and> ni_synced i \<and> (n = mainnet \<longrightarrow> ni_virtual_daa i \<noteq> 0)"
  by (cases "na_server_info a")
    (auto simp: connect_client_def sbind_def split: sum.splits if_splits option.splits prod.splits)

lemma create_synced:
  "create mainnet M a = Inr (Inr url) \<Longrightarrow>
     \<exists>i. na_server_info a = Inr i \<and> ni_network i = vm_network_id M \<and> ni_synced i
       \<and> (vm_rpc_url M = None \<longrightarrow> na_resolved a = Inr url) \<and> (\<forall>u. vm_rpc_url M = Some u \<longrightarrow> url = u)"
  by (cases "na_server_info a")
    (auto simp: create_def connect_client_def sbind_def split: sum.splits if_splits option.splits prod.splits)

section \<open>The handshake with a peer\<close>

record version_message =
  vm_protocol_version :: nat
  vm_services :: nat
  vm_timestamp :: int
  vm_id :: "byte list"
  vm_user_agent :: string
  vm_disable_relay_tx :: bool
  vm_network :: string

text \<open>\<open>str::to_lowercase\<close> on ASCII.\<close>

definition lower :: "char \<Rightarrow> char" where
  "lower c = (let n = of_char c :: nat in if 65 \<le> n \<and> n \<le> 90 then char_of (n + 32) else c)"

definition version_message_of :: "string \<Rightarrow> string \<Rightarrow> cli_args \<Rightarrow> int \<Rightarrow> byte list \<Rightarrow> version_message" where
  "version_message_of name version args now_ms uuid = \<lparr>vm_protocol_version = 7, vm_services = 0,
     vm_timestamp = now_ms, vm_id = uuid, vm_user_agent = ''/'' @ name @ '':'' @ version @ ''/'',
     vm_disable_relay_tx = True, vm_network = ''vecno-'' @ map lower (network args)\<rparr>"

text \<open>
  \<open>initialize_connection\<close>: the peer's version from the handshake, then the ready messages;
  the version goes into the importer's channel last, after those of the forwarding task that
  ran before. A closed channel panics there, and is ignored by the forwarding task.
\<close>

definition initialize_connection ::
  "'e + 'v \<Rightarrow> 'e + unit \<Rightarrow> 'm list \<Rightarrow> ('v \<Rightarrow> 'm) \<Rightarrow> bool \<Rightarrow> panic + ('e + 'm list)" where
  "initialize_connection handshake ready forwarded wrap channel_open =
     (case sbind handshake (\<lambda>v. sbind ready (\<lambda>_. Inr v)) of
        Inl e \<Rightarrow> Inr (Inl e)
      | Inr v \<Rightarrow> if channel_open then Inr (Inr (forwarded @ [wrap v])) else Inl (Panic ''SendError''))"

text \<open>
  The message types the initializer subscribes to, by the names of the P2P crate; the two of
  the handshake, \<open>Verack\<close> and \<open>Ready\<close>, and \<open>Version\<close> are left to it.
\<close>

definition subscribe_all :: "string list" where
  "subscribe_all = [''Addresses'', ''Block'', ''Transaction'', ''BlockLocator'', ''RequestAddresses'',
     ''RequestRelayBlocks'', ''RequestTransactions'', ''IbdBlock'', ''InvRelayBlock'', ''InvTransactions'',
     ''Ping'', ''Pong'', ''TransactionNotFound'', ''Reject'', ''PruningPointUtxoSetChunk'',
     ''RequestIbdBlocks'', ''UnexpectedPruningPoint'', ''IbdBlockLocator'',
     ''IbdBlockLocatorHighestHash'', ''RequestNextPruningPointUtxoSetChunk'',
     ''DonePruningPointUtxoSetChunks'', ''IbdBlockLocatorHighestHashNotFound'',
     ''DoneBlocksWithTrustedData'', ''RequestPruningPointAndItsAnticone'', ''BlockHeaders'',
     ''RequestNextHeaders'', ''DoneHeaders'', ''RequestPruningPointUtxoSet'', ''RequestHeaders'',
     ''RequestBlockLocator'', ''PruningPoints'', ''RequestPruningPointProof'', ''PruningPointProof'',
     ''BlockWithTrustedData'', ''TrustedData'', ''RequestIbdChainBlockLocator'', ''IbdChainBlockLocator'',
     ''RequestAntipast'', ''RequestNextPruningPointAndItsAnticoneBlocks'']"

text \<open>What the router hands to the forwarding task, of messages with their types.\<close>

definition forwarded :: "(string \<times> payload) list \<Rightarrow> payload list" where
  "forwarded incoming = map snd (filter (\<lambda>(t, _). t \<in> set subscribe_all) incoming)"

text \<open>The type of a payload the importer acts on.\<close>

fun acted_on :: "payload \<Rightarrow> string option" where
  "acted_on RequestAddresses = Some ''RequestAddresses''"
| "acted_on (PruningPointUtxoSetChunk _) = Some ''PruningPointUtxoSetChunk''"
| "acted_on DonePruningPointUtxoSetChunks = Some ''DonePruningPointUtxoSetChunks''"
| "acted_on UnexpectedPruningPoint = Some ''UnexpectedPruningPoint''"
| "acted_on (Ping _) = Some ''Ping''"
| "acted_on _ = None"

text \<open>The importer changes nothing on a payload of another type, and it loses none of its own: all
  of their types are subscribed to.\<close>

lemma acted_on_None: "acted_on m = None \<Longrightarrow> handle_message L P perm drain cfg m sends s = ret (Continue s)"
  by (cases m) simp_all

lemma acted_on_subscribed: "acted_on m = Some t \<Longrightarrow> t \<in> set subscribe_all"
  by (cases m) (auto simp: subscribe_all_def)

lemma importer_loses_nothing:
  assumes "\<forall>(t, m)\<in>set incoming. \<forall>u. acted_on m = Some u \<longrightarrow> t = u"
  shows "filter (\<lambda>m. acted_on m \<noteq> None) (forwarded incoming) = filter (\<lambda>m. acted_on m \<noteq> None) (map snd incoming)"
  using assms
proof (induction incoming)
  case (Cons x incoming)
  obtain t m where x: "x = (t, m)" by (cases x)
  have "acted_on m \<noteq> None \<Longrightarrow> t \<in> set subscribe_all" using Cons.prems acted_on_subscribed by (auto simp: x)
  with Cons show ?case by (auto simp: forwarded_def x)
qed (simp add: forwarded_def)

section \<open>The web server\<close>

text \<open>\<open>str::trim_end_matches(\"/\")\<close>.\<close>

definition trim_end_slashes :: "string \<Rightarrow> string" where
  "trim_end_slashes s = rev (dropWhile (\<lambda>c. c = CHR ''/'') (rev s))"

definition api_paths :: "cli_args \<Rightarrow> string list" where
  "api_paths args = (let b = trim_end_slashes (base_path args) in
     [b @ ''/api/health'', b @ ''/api/metrics'', b @ ''/api'', b @ ''/api/openapi.json''])"

text \<open>The server entry of the API description; the argument is trimmed by the caller already.\<close>

definition set_server_path :: "string \<Rightarrow> string list option" where
  "set_server_path path = (if trim_end_slashes path = [] then None else Some [path])"

text \<open>
  A request and a response; a body is a stream that gives its bytes or breaks. Taking a body
  leaves the empty one.
\<close>

datatype body = Body "byte list" | Broken

record http_request =
  rq_method :: string
  rq_path :: string
  rq_body :: body

record http_response =
  rs_status :: nat
  rs_headers :: "(string \<times> string) list"
  rs_body :: body

definition add_default_cache_control :: "(http_request \<Rightarrow> panic + http_response) \<Rightarrow> http_request \<Rightarrow> panic + http_response" where
  "add_default_cache_control next req = sbind (next req) (\<lambda>response. Inr (
     if ''cache-control'' \<in> fst ` set (rs_headers response) then response
     else response\<lparr>rs_headers := rs_headers response @ [(''cache-control'', ''public, max-age=5'')]\<rparr>))"

text \<open>
  The body as a request or response log shows it, at the trace level: the UTF-8 bytes of the
  lossy conversion \<open>lossy\<close>, cut after 1000 bytes. A cut inside a character panics.
\<close>

definition is_char_boundary :: "byte list \<Rightarrow> nat \<Rightarrow> bool" where
  "is_char_boundary bs i \<longleftrightarrow> i = 0 \<or> i = length bs \<or> i < length bs \<and> \<not> (128 \<le> unat (bs ! i) \<and> unat (bs ! i) < 192)"

definition truncated_body :: "byte list \<Rightarrow> panic + byte list" where
  "truncated_body s =
     (if length s > 1000 then
        if is_char_boundary s 1000 then Inr (take 1000 s @ [0x5b, 0x2e, 0x2e, 0x2e, 0x5d])
        else Inl (Panic ''byte index 1000 is not a char boundary'')
      else Inr s)"

text \<open>The two log layers, with the trace level on or off; what they log is not kept.\<close>

definition log_requests ::
  "(byte list \<Rightarrow> byte list) \<Rightarrow> bool \<Rightarrow> (http_request \<Rightarrow> panic + http_response) \<Rightarrow> http_request \<Rightarrow> panic + http_response" where
  "log_requests lossy trace next req =
     (if \<not> trace then next req
      else case rq_body req of
        Broken \<Rightarrow> next (req\<lparr>rq_body := Body []\<rparr>)
      | Body bs \<Rightarrow> sbind (truncated_body (lossy bs)) (\<lambda>_. next (req\<lparr>rq_body := Body bs\<rparr>)))"

definition log_responses ::
  "(byte list \<Rightarrow> byte list) \<Rightarrow> bool \<Rightarrow> (http_request \<Rightarrow> panic + http_response) \<Rightarrow> http_request \<Rightarrow> panic + http_response" where
  "log_responses lossy trace next req = sbind (next req) (\<lambda>response.
     if \<not> trace then Inr response
     else case rs_body response of
       Broken \<Rightarrow> Inr (response\<lparr>rs_body := Body []\<rparr>)
     | Body bs \<Rightarrow> sbind (truncated_body (lossy bs)) (\<lambda>_. Inr (response\<lparr>rs_body := Body bs\<rparr>)))"

text \<open>
  The application: the layer added last is the outermost. \<open>cors\<close> is the layer of the tower-http
  crate, \<open>routes\<close> the endpoints and the API browser behind it; the extensions only carry values.
\<close>

definition web_app ::
  "((http_request \<Rightarrow> panic + http_response) \<Rightarrow> http_request \<Rightarrow> panic + http_response) \<Rightarrow> (byte list \<Rightarrow> byte list) \<Rightarrow> bool \<Rightarrow>
     (http_request \<Rightarrow> panic + http_response) \<Rightarrow> http_request \<Rightarrow> panic + http_response" where
  "web_app cors lossy trace routes =
     log_responses lossy trace (log_requests lossy trace (add_default_cache_control (cors routes)))"

text \<open>\<open>run\<close>: whether the listener binds, the line logged before, and the application served.\<close>

definition web_listening :: "cli_args \<Rightarrow> string" where
  "web_listening args = ''Starting web server listener on '' @ listen args @ '', api path: ''
     @ trim_end_slashes (base_path args) @ ''/api''"

definition web_run :: "bool \<Rightarrow> 'app \<Rightarrow> panic + 'app" where
  "web_run binds app = (if binds then Inr app else Inl (Panic ''Failed to open listener''))"

section \<open>What the layers do\<close>

lemma trim_end_slashes_idem: "trim_end_slashes (trim_end_slashes s) = trim_end_slashes s"
proof -
  have "dropWhile P (dropWhile P xs) = dropWhile P xs" for P and xs :: string
    by (induction xs) auto
  then show ?thesis by (simp add: trim_end_slashes_def)
qed

lemma api_paths_default: "api_paths sample_args = [''/api/health'', ''/api/metrics'', ''/api'', ''/api/openapi.json'']"
  by (simp add: api_paths_def trim_end_slashes_def sample_args_def)

text \<open>With the trace level off the application is the routes, with the cache header where it is missing.\<close>

lemma web_app_plain: "web_app cors lossy False routes req = add_default_cache_control (cors routes) req"
  by (cases "add_default_cache_control (cors routes) req")
    (simp_all add: web_app_def log_responses_def log_requests_def sbind_def)

lemma cached_response:
  "add_default_cache_control next req = Inr response \<Longrightarrow> ''cache-control'' \<in> fst ` set (rs_headers response)"
  by (auto simp: add_default_cache_control_def sbind_Inr_iff)

text \<open>Tracing changes nothing as long as the bodies can be read and are short.\<close>

lemma web_app_traced:
  assumes "rq_body req = Body bs" "length (lossy bs) \<le> 1000"
    and "\<And>response. add_default_cache_control (cors routes) req = Inr response \<Longrightarrow>
      \<exists>cs. rs_body response = Body cs \<and> length (lossy cs) \<le> 1000"
  shows "web_app cors lossy True routes req = web_app cors lossy False routes req"
proof -
  have short: "truncated_body (lossy cs) = Inr (lossy cs)" if "length (lossy cs) \<le> 1000" for cs
    using that by (simp add: truncated_body_def)
  have same: "req\<lparr>rq_body := Body bs\<rparr> = req" using assms(1) by simp
  have "log_requests lossy True (add_default_cache_control (cors routes)) req = add_default_cache_control (cors routes) req"
    using short [OF assms(2)] by (simp add: log_requests_def assms(1) sbind_def same)
  moreover have "response\<lparr>rs_body := Body cs\<rparr> = response" if "rs_body response = Body cs" for response :: http_response and cs
    using that by simp
  ultimately show ?thesis
    unfolding web_app_plain using assms(3) short
    by (cases "add_default_cache_control (cors routes) req")
      (fastforce simp: web_app_def log_responses_def sbind_def)+
qed

text \<open>
  With tracing on, a body that breaks off reaches the handler as an empty one, and a body whose
  character at byte 1000 is not a first byte stops the program: here 999 ASCII characters and
  one of two bytes.
\<close>

lemma broken_body_becomes_empty:
  "log_requests lossy True next (req\<lparr>rq_body := Broken\<rparr>) = next (req\<lparr>rq_body := Body []\<rparr>)"
  by (simp add: log_requests_def)

lemma log_body_panics:
  "\<exists>e. log_requests id True next (req\<lparr>rq_body := Body (replicate 999 0x61 @ [0xc3, 0xa9])\<rparr>) = Inl e"
  by (simp add: log_requests_def truncated_body_def is_char_boundary_def nth_append sbind_def)

end
