(* ===== verification/Tasks.thy ===== *)
theory Tasks
  imports Process_Tx_Props Virtual_Chain Process_Blocks Startup_Props
begin

text \<open>
  The tasks against an interface: whatever relation on the database every statement of the
  program keeps is kept by every round of every task, however it ends. The locale
  \<open>task_relation\<close> extends \<open>db_relation\<close> by the statements; the pruner, which deletes, is not
  part of it.
\<close>

lemma steps_db_call: "steps R m \<Longrightarrow> steps R (db_call m)"
  by (rule steps_I) (auto simp: steps_def db_call_def split: prod.splits sum.splits)

lemma steps_attempted: "steps R m \<Longrightarrow> steps R (attempted m)"
  by (rule steps_I) (auto simp: steps_def attempted_def split: prod.splits sum.splits)

locale task_relation = db_relation +
  assumes insert_blocks_R: "steps R (insert_blocks bs)"
    and insert_block_parents_R: "steps R (insert_block_parents bps)"
    and insert_transactions_R: "steps R (insert_transactions ts)"
    and insert_outputs_R: "steps R (insert_transaction_outputs outs)"
    and insert_inputs_R: "steps R (insert_transaction_inputs look_up ins)"
    and insert_addresses_R: "steps R (insert_address_transactions ats)"
    and insert_scripts_R: "steps R (insert_script_transactions sts)"
    and address_inputs_R: "steps R (insert_address_transactions_from_inputs use_tx ids)"
    and script_inputs_R: "steps R (insert_script_transactions_from_inputs use_tx ids)"
    and insert_block_transactions_R: "steps R (insert_block_transactions bts)"
    and insert_acceptances_R: "steps R (insert_transaction_acceptances tas)"
    and delete_acceptances_R: "steps R (delete_transaction_acceptances hs)"
    and insert_subnetwork_R: "steps R (insert_subnetwork s)"
    and upsert_var_R: "steps R (upsert_var key v)"
    and truncate_balances_R: "steps R truncate_balances"
    and upsert_balances_R: "steps R (execute (upsert_balances rows))"
    and add_deltas_R: "steps R (execute (add_deltas c))"
begin

lemma selects: "steps R (select_var key)" "steps R select_subnetworks" "steps R (select_changes L grp rws f t)"
  unfolding select_var_def select_subnetworks_def select_changes_def by (rule steps_query)+

lemmas statements = insert_blocks_R insert_block_parents_R insert_transactions_R insert_outputs_R insert_inputs_R
  insert_addresses_R insert_scripts_R address_inputs_R script_inputs_R insert_block_transactions_R
  insert_acceptances_R delete_acceptances_R insert_subnetwork_R upsert_var_R truncate_balances_R
  upsert_balances_R add_deltas_R selects

lemmas control = steps_bnd steps_ret steps_lift steps_throw steps_or_panic steps_or_default
  steps_write_chunks steps_sum_loop

lemma task_commit:
  "op \<in> set (concat (commit_tasks sched cfg st)) \<Longrightarrow> steps R op"
  unfolding commit_tasks_def Let_def task_defs
  by (auto simp: steps_throw split: if_splits sum.splits
      elim!: steps_chunk_task [rotated] intro: statements)

lemma task_relations:
  "op \<in> set (concat (relation_tasks sched cfg st)) \<Longrightarrow> steps R op"
  unfolding relation_tasks_def Let_def task_defs
  by (auto split: if_splits elim!: steps_chunk_task [rotated] steps_loop_task [rotated]
      intro: statements)

lemma task_add_transactions: "steps R (add_transactions L ops cfg ts st)"
proof (induction ts arbitrary: st)
  case (Cons t ts)
  then show ?case
    unfolding add_transactions.simps add_transaction_def subnetwork_key_of_def
    by (auto intro!: control statements split: option.splits prod.splits)
qed (simp add: steps_ret)

lemma task_transactions:
  assumes "mrg_ok mrg"
  shows "steps R (process_transactions_step L ops sched mrg cfg e st)"
proof -
  have "steps R (commit_batch L sched mrg cfg instant st)" for instant st
    unfolding commit_batch_def
    by (intro control steps_merged [OF assms] task_commit task_relations)
  then show ?thesis
    unfolding process_transactions_step_def
    by (auto intro!: control task_add_transactions split: prod.splits option.splits)
qed

lemma task_blocks: "steps R (process_blocks_step L cfg e b)"
  unfolding process_blocks_step_def commit_blocks_def clear_acceptances_def insert_blocks_chunked_def
    insert_block_parents_chunked_def delete_transaction_acceptances_chunked_def Let_def
  by (auto intro!: control statements split: prod.splits option.splits)

lemma task_chain: "steps R (process_virtual_chain_step L sched cfg get_block started response reads instant mv v)"
proof -
  have "steps R (accept_transactions sched s c ids)" for s c ids
    unfolding accept_transactions_def
    by (rule steps_run) (erule steps_chunk_task [rotated], rule statements)
  then show ?thesis
    unfolding process_virtual_chain_step_def vcp_commit_def remove_chain_blocks_def add_chain_blocks_def Let_def
    by (auto intro!: control statements split: option.splits)
qed

lemma task_load_save: "steps R load_block_checkpoint" "steps R (save_checkpoint h)"
proof -
  have v: "R (data p) (data q)" if "select_var k p = (r, q)" for k p q r
    using that selects(1) [of k] by (simp add: steps_def)
  show "steps R load_block_checkpoint"
    by (rule steps_I)
      (auto simp: load_block_checkpoint_def split: prod.splits sum.splits dest!: v intro: R_trans)
  have u: "R (data p) (data q)" if "upsert_var k x p = (r, q)" for k x p q r
    using that upsert_var_R [of k x] by (simp add: steps_def)
  show "steps R (save_checkpoint h)"
    by (rule steps_I) (auto simp: save_checkpoint_def split: prod.splits sum.splits dest!: u)
qed

lemma task_balances:
  "steps R (update_balances_incremental perm ds)" "steps R (update_balances_absolute bs)"
  "steps R (update_balances_from_utxo_changes L grp perm f t)"
proof -
  show i: "steps R (update_balances_incremental perm ds)" for ds
    unfolding update_balances_incremental_def Let_def
    by (auto intro!: control steps_db_call statements)
  show "steps R (update_balances_absolute bs)"
    unfolding update_balances_absolute_def by (auto intro!: control steps_db_call statements)
  show "steps R (update_balances_from_utxo_changes L grp perm f t)"
    unfolding update_balances_from_utxo_changes_def by (auto intro!: control steps_db_call statements i)
qed

lemma task_checkpoints: "steps R (process_checkpoints_step L grp perm cfg e k)"
proof -
  have "steps R (try_update_balances L grp perm previous h)" for previous h
    using task_balances(3) [of L grp perm _ h] R_refl
    by (intro steps_I) (auto simp: try_update_balances_def steps_def split: option.splits prod.splits sum.splits failure.splits)
  moreover have "steps R (try_save h)" for h
    using task_load_save(2) [of h]
    by (intro steps_I) (auto simp: try_save_def steps_def split: prod.splits sum.splits)
  ultimately have "steps R (save_candidate L grp perm force instant c k)" for force instant c k
    unfolding save_candidate_def Let_def by (auto intro!: control)
  then show ?thesis
    unfolding process_checkpoints_step_def Let_def by (auto intro!: control split: prod.splits option.splits)
qed

lemma task_import: "steps R (start_import L P perm drain cfg as m)"
proof -
  have chunk: "steps R (persist_utxos_chunk L P perm cfg ps agg)" for ps agg
    unfolding persist_utxos_chunk_def by (auto intro!: control statements split: prod.splits)
  have message: "steps R (handle_message L P perm drain cfg msg sends s)" for msg sends s
    by (cases msg) (auto simp: handle_chunk_def finish_import_def Let_def
        intro!: control chunk task_balances split: prod.splits)
  have receive: "steps R (receive_and_handle L P perm drain cfg es s)" for es s
  proof (induction es arbitrary: s)
    case (Cons ev es)
    then show ?case by (cases ev) (auto intro!: control message split: turn.splits)
  qed (simp add: steps_ret)
  have attempt: "steps R (import_attempt L P perm drain cfg a m)" for a m
    unfolding import_attempt_def Let_def
    by (auto intro!: control receive statements split: option.splits)
  show ?thesis
    by (induction as arbitrary: m) (auto intro!: control attempt)
qed

lemma task_start: "steps R (start_processing L P perm drain e args as bs)"
  unfolding start_processing_def start_checkpoint_def needs_rebuild_def rebuild_balances_def choose_checkpoint_def Let_def
  by (auto intro!: control steps_attempted task_load_save task_import statements split: option.splits prod.splits)

end

end
