(* ===== verification/System.thy ===== *)
theory System
  imports Tasks Prune_Props
begin

text \<open>
  The tasks together: the system steps by any round of any task, in any order, with any answers
  of the node and any failures of the database. The primary keys of every table stay unique on
  every run. And how the UTXO import and the transaction processor meet: an imported output
  without an address stops the processor once it is spent.
\<close>

section \<open>Unique keys\<close>

definition keyed :: "db \<Rightarrow> bool" where
  "keyed d \<longleftrightarrow> unique_keys block_key (t_blocks d) \<and> unique_keys block_parent_key (t_block_parent d)
     \<and> unique_keys transaction_key (t_transactions d) \<and> unique_keys acceptance_key (t_acceptances d)
     \<and> unique_keys block_transaction_key (t_blocks_transactions d) \<and> unique_keys input_key (t_inputs d)
     \<and> unique_keys output_key (t_outputs d)
     \<and> unique_keys address_transaction_key (t_addresses_transactions d)
     \<and> unique_keys script_transaction_key (t_scripts_transactions d)"

definition keeps_keys :: "db \<Rightarrow> db \<Rightarrow> bool" where
  "keeps_keys d d' \<longleftrightarrow> (keyed d \<longrightarrow> keyed d')"

interpretation keys: db_relation keeps_keys
  by unfold_locales (auto simp: keeps_keys_def)

lemma unique_keys_filter: "unique_keys key t \<Longrightarrow> unique_keys key (filter P t)"
  by (induction t) (auto simp: unique_keys_def, metis image_eqI)

lemma unique_keys_drop_at: "unique_keys key t \<Longrightarrow> unique_keys key (drop_at ctids t)"
proof -
  assume "unique_keys key t"
  then have "unique_keys (\<lambda>i. key (t ! i)) [0..<length t]"
    by (simp add: unique_keys_def) (metis map_nth map_map comp_apply list.map_cong0)
  then have "unique_keys (\<lambda>i. key (t ! i)) (filter (\<lambda>i. i \<notin> set ctids) [0..<length t])"
    by (rule unique_keys_filter)
  then show ?thesis by (simp add: unique_keys_def drop_at_alt o_def)
qed

section \<open>The statements\<close>

context skip_conflicts_table
begin

lemma ins_step:
  assumes "ins rs p = (r, p')"
  obtains t where "data p' = with_rows t (data p)" "unique_keys key (rows (data p)) \<longrightarrow> unique_keys key t"
  using ins_only [OF assms] ins_unique [OF assms] by auto

end

lemma keys_inserts:
  "steps keeps_keys (insert_block_parents bps)"
  "steps keeps_keys (insert_transactions ts)" "steps keeps_keys (insert_transaction_outputs outs)"
  "steps keeps_keys (insert_address_transactions ats)" "steps keeps_keys (insert_script_transactions sts)"
  "steps keeps_keys (insert_block_transactions bts)" "steps keeps_keys (insert_transaction_acceptances tas)"
  "steps keeps_keys (insert_blocks bs)"
  by (rule steps_I, erule block_parents.ins_step txs.ins_step outputs.ins_step addr_txs.ins_step script_txs.ins_step
        block_txs.ins_step acceptances.ins_step blocks.ins_step, simp add: keeps_keys_def keyed_def)+

lemma insert_rows_unique': "insert_rows key rs t = (n, t') \<Longrightarrow> unique_keys key t \<Longrightarrow> unique_keys key t'"
  using insert_rows_unique [of key t rs] by simp

lemma keys_insert_inputs: "steps keeps_keys (insert_transaction_inputs b rs)"
  unfolding insert_transaction_inputs_def
  by (rule keys.steps_execute)
    (auto simp: insert_values_def keeps_keys_def keyed_def split: option.splits prod.splits dest: insert_rows_unique')

lemma keys_from_inputs:
  "steps keeps_keys (insert_address_transactions_from_inputs b ids)"
  "steps keeps_keys (insert_script_transactions_from_inputs b ids)"
  unfolding insert_address_transactions_from_inputs_def insert_script_transactions_from_inputs_def
  by (rule keys.steps_execute;
      auto simp: insert_selected_def keeps_keys_def keyed_def split: if_splits prod.splits dest: insert_rows_unique')+

text \<open>Statements on the other tables.\<close>

lemma keyed_other [simp]:
  "keyed (d\<lparr>t_vars := v\<rparr>) = keyed d" "keyed (d\<lparr>t_balances := b\<rparr>) = keyed d"
  "keyed (d\<lparr>t_subnetworks := s, subnetworks_seq := n\<rparr>) = keyed d"
  by (simp_all add: keyed_def)

lemma keys_other:
  "steps keeps_keys (insert_subnetwork s)" "steps keeps_keys (upsert_var key v)" "steps keeps_keys truncate_balances"
  "steps keeps_keys (execute (upsert_balances rows))" "steps keeps_keys (execute (add_deltas c))"
  unfolding insert_subnetwork_def upsert_var_def truncate_balances_def add_deltas_def
  by (rule keys.steps_execute; auto simp: keeps_keys_def upsert_balances_def split: if_splits)+

lemma keys_delete_acceptances: "steps keeps_keys (delete_transaction_acceptances hs)"
  unfolding delete_transaction_acceptances_def
  by (rule keys.steps_execute) (auto simp: keeps_keys_def keyed_def unique_keys_filter)

interpretation key_tasks: task_relation keeps_keys
  by unfold_locales (rule keys_inserts keys_insert_inputs keys_from_inputs keys_other keys_delete_acceptances)+

section \<open>The pruner\<close>

lemma keys_prune_loop:
  "prune_loop stmt acc p = Some (r, p') \<Longrightarrow> steps keeps_keys stmt \<Longrightarrow> keyed (data p) \<Longrightarrow> keyed (data p')"
  by (erule prune_loop_rule [rotated]) (auto simp: steps_def keeps_keys_def)

lemma keys_delete_limited:
  "steps keeps_keys (execute (delete_limited pick b cand t_block_parent (\<lambda>t d. d\<lparr>t_block_parent := t\<rparr>)))"
  "steps keeps_keys (execute (delete_limited pick b cand t_blocks_transactions (\<lambda>t d. d\<lparr>t_blocks_transactions := t\<rparr>)))"
  "steps keeps_keys (execute (delete_limited pick b cand t_acceptances (\<lambda>t d. d\<lparr>t_acceptances := t\<rparr>)))"
  "steps keeps_keys (execute (delete_limited pick b cand t_blocks (\<lambda>t d. d\<lparr>t_blocks := t\<rparr>)))"
  "steps keeps_keys (execute (delete_limited pick b cand t_addresses_transactions (\<lambda>t d. d\<lparr>t_addresses_transactions := t\<rparr>)))"
  "steps keeps_keys (execute (delete_limited pick b cand t_scripts_transactions (\<lambda>t d. d\<lparr>t_scripts_transactions := t\<rparr>)))"
  by (rule keys.steps_execute,
      simp add: delete_limited_def keeps_keys_def keyed_def unique_keys_drop_at Let_def split: if_splits,
      (blast intro: unique_keys_drop_at)?)+

lemma keys_in_transaction: "steps keeps_keys m \<Longrightarrow> steps keeps_keys (in_transaction m)"
proof (rule steps_I)
  fix p r p' assume m: "steps keeps_keys m" and t: "in_transaction m p = (r, p')"
  have b: "steps keeps_keys (bnd (query (\<lambda>_. Inr ())) (\<lambda>_. bnd m (\<lambda>a. bnd (query (\<lambda>_. Inr ())) (\<lambda>_. ret a))))"
    by (intro key_tasks.control keys.steps_query m)
  show "keeps_keys (data p) (data p')"
  proof (cases r)
    case (Inl e)
    with t in_transaction_error [of m p e p'] show ?thesis by (simp add: keys.R_refl)
  next
    case (Inr a)
    with t b show ?thesis
      by (auto simp: in_transaction_def steps_def split: prod.splits sum.splits)
  qed
qed

lemma keys_prune_transactions_chunk: "steps keeps_keys (prune_transactions_chunk pick t b)"
proof -
  have e: "steps keeps_keys (execute (delete_old_transactions pick t b))"
    "steps keeps_keys (execute (delete_inputs_of ids))" "steps keeps_keys (execute (delete_outputs_of ids))"
    "steps keeps_keys (execute (delete_inputs_returning ids))" "steps keeps_keys (execute (delete_outputs_at sp))"
    "steps keeps_keys (execute (delete_acceptances_of ids))" for ids sp
    by (rule keys.steps_execute; auto simp: delete_old_transactions_def delete_inputs_of_def delete_outputs_of_def
        delete_inputs_returning_def delete_outputs_at_def delete_acceptances_of_def Let_def keeps_keys_def keyed_def
        unique_keys_drop_at unique_keys_filter split: if_splits sum.splits)+
  show ?thesis
    unfolding prune_transactions_chunk_def Let_def
    by (intro keys_in_transaction key_tasks.control keys.steps_query e)
qed

lemma keys_prunes:
  "prune_block_parent pick c b p = Some (r, p') \<Longrightarrow> keyed (data p) \<Longrightarrow> keyed (data p')"
  "prune_blocks_transactions_using_blocks pick c b p = Some (r, p') \<Longrightarrow> keyed (data p) \<Longrightarrow> keyed (data p')"
  "prune_blocks_transactions_using_transactions pick c b p = Some (r, p') \<Longrightarrow> keyed (data p) \<Longrightarrow> keyed (data p')"
  "prune_transactions_acceptances_using_blocks pick c b p = Some (r, p') \<Longrightarrow> keyed (data p) \<Longrightarrow> keyed (data p')"
  "prune_blocks pick c b p = Some (r, p') \<Longrightarrow> keyed (data p) \<Longrightarrow> keyed (data p')"
  "prune_addresses_transactions pick c b p = Some (r, p') \<Longrightarrow> keyed (data p) \<Longrightarrow> keyed (data p')"
  "prune_scripts_transactions pick c b p = Some (r, p') \<Longrightarrow> keyed (data p) \<Longrightarrow> keyed (data p')"
  "prune_transactions pick c b p = Some (r, p') \<Longrightarrow> keyed (data p) \<Longrightarrow> keyed (data p')"
  unfolding prune_block_parent_def prune_blocks_transactions_using_blocks_def
    prune_blocks_transactions_using_transactions_def prune_transactions_acceptances_using_blocks_def
    prune_blocks_def prune_addresses_transactions_def prune_scripts_transactions_def prune_transactions_def
  by (erule keys_prune_loop, rule keys_delete_limited keys_prune_transactions_chunk, assumption)+

text \<open>Through the control flow of the run.\<close>

lemma keyed_step:
  "keyed (db_of s) \<Longrightarrow> (\<And>t r p'. call t (ps_pool s) = Some (r, p') \<Longrightarrow> keyed (data p')) \<Longrightarrow>
     goes_or keyed (prune_step e name call cutoff s)"
  by (rule step_keeps)

lemma keyed_flow:
  "goes_or keyed a \<Longrightarrow> (\<And>x. goes_or keyed (b x)) \<Longrightarrow> goes_or keyed (case opt of None \<Rightarrow> a | Some x \<Rightarrow> b x)"
  "goes_or keyed a \<Longrightarrow> goes_or keyed b' \<Longrightarrow> goes_or keyed (if c then a else b')"
  "keyed (db_of s) \<Longrightarrow> goes_or keyed (Goes s)"
  by (simp_all split: option.splits)

lemmas keyed_run = keyed_flow subtract_final [where J = keyed] shutdown_final [where J = keyed] final_and_then [where J = keyed] keyed_step

lemma keys_parts:
  assumes "keyed (db_of s)"
  shows "goes_or keyed (prune_block_parent_part e args cfg s)" "goes_or keyed (prune_blocks_transactions_part e args cfg s)"
    "goes_or keyed (prune_blocks_part e args cfg s)" "goes_or keyed (prune_transactions_part e args cfg s)"
    "goes_or keyed (prune_addresses_part e args cfg s)"
  unfolding prune_block_parent_part_def prune_blocks_transactions_part_def prune_blocks_part_def
    prune_transactions_part_def prune_addresses_part_def
  by (intro keyed_run assms; (erule keys_prunes)?; (rule assms | assumption))+

lemma keys_prune:
  assumes "keyed (db_of s)"
  shows "goes_or keyed (prune e args cfg s)"
proof -
  have "keyed (db_of (prune_begin e s))" using assms by (simp add: prune_begin_def)
  then show ?thesis
    unfolding prune_def
    by (intro final_and_then [where J = keyed] keys_parts keyed_flow(3)) (simp_all add: prune_finish_def)
qed

section \<open>The system\<close>

text \<open>
  A step of the system is a round of a task, with whatever it reads and however it ends: a round
  that a failing statement or a panic cuts short counts too.
\<close>

inductive system_step :: "libs \<Rightarrow> 'k p2p_libs \<Rightarrow> 'c cache_ops \<Rightarrow> db \<Rightarrow> db \<Rightarrow> bool"
  for L :: libs and P :: "'k p2p_libs" and ops :: "'c cache_ops" where
  Start: "start_processing L P perm drain e args as bs p = (r, p') \<Longrightarrow> system_step L P ops (data p) (data p')"
| Blocks: "process_blocks_step L cfg popped b p = (r, p') \<Longrightarrow> system_step L P ops (data p) (data p')"
| Transactions: "mrg_ok mrg \<Longrightarrow> process_transactions_step L ops sched mrg cfg popped st p = (r, p') \<Longrightarrow>
    system_step L P ops (data p) (data p')"
| Chain: "process_virtual_chain_step L sched cfg get_block started response reads instant mv v p = (r, p') \<Longrightarrow>
    system_step L P ops (data p) (data p')"
| Checkpoint: "process_checkpoints_step L grp perm cfg popped k p = (r, p') \<Longrightarrow> system_step L P ops (data p) (data p')"
| Prune: "final (prune e args cfg s) = Some s' \<Longrightarrow> system_step L P ops (db_of s) (db_of s')"

lemma keeps_keys_run: "steps keeps_keys m \<Longrightarrow> m p = (r, p') \<Longrightarrow> keyed (data p) \<Longrightarrow> keyed (data p')"
  by (simp add: steps_def keeps_keys_def)

lemma system_step_keyed: "system_step L P ops d d' \<Longrightarrow> keyed d \<Longrightarrow> keyed d'"
proof (induction rule: system_step.induct)
  case Prune
  then show ?case using keys_prune by blast
qed (erule keeps_keys_run [rotated], assumption,
    rule key_tasks.task_start key_tasks.task_blocks key_tasks.task_transactions key_tasks.task_chain
      key_tasks.task_checkpoints, assumption?)+

text \<open>The tables stay well-formed: from the empty schema on, whatever rounds of the start, the processors,
  the checkpoint task and the pruner follow each other, no table of \<open>keyed\<close> ever holds two rows with the same
  primary key. This is what the server's constraints promise; the model of the statements keeps it.\<close>

lemma primary_keys_stay_unique: "(system_step L P ops)\<^sup>*\<^sup>* schema_db d \<Longrightarrow> keyed d"
proof (induction rule: rtranclp_induct)
  case base
  show ?case by (simp add: keyed_def schema_db_def unique_keys_def)
next
  case (step d d')
  then show ?case using system_step_keyed by blast
qed

section \<open>Imported outputs without an address\<close>

definition outpoints_kept :: "db \<Rightarrow> db \<Rightarrow> bool" where
  "outpoints_kept d d' \<longleftrightarrow> t_outputs d' = t_outputs d \<and> t_inputs d' = t_inputs d"

interpretation outpoints: db_relation outpoints_kept
  by unfold_locales (auto simp: outpoints_kept_def)

lemma relations_keep_outpoints:
  "op \<in> set (concat (relation_tasks sched cfg st)) \<Longrightarrow> steps outpoints_kept op"
proof -
  have bt: "steps outpoints_kept (insert_block_transactions rs)" for rs
    by (rule steps_I, erule block_txs.ins_step) (simp add: outpoints_kept_def)
  have inputs: "steps outpoints_kept (insert_address_transactions_from_inputs b ids)"
    "steps outpoints_kept (insert_script_transactions_from_inputs b ids)" for b ids
    unfolding insert_address_transactions_from_inputs_def insert_script_transactions_from_inputs_def
    by (rule outpoints.steps_execute; auto simp: insert_selected_def outpoints_kept_def split: if_splits prod.splits)+
  assume "op \<in> set (concat (relation_tasks sched cfg st))"
  then show ?thesis
    unfolding relation_tasks_def Let_def task_defs
    by (auto split: if_splits elim!: outpoints.steps_chunk_task [rotated] outpoints.steps_loop_task [rotated]
        intro: bt inputs)
qed

lemma null_address_fails:
  assumes "r \<in> set (t_outputs (data p))" "out_script_public_key_address r = None"
    and "i \<in> set (t_inputs (data p))" "spends i r" "in_transaction_id i \<in> set ids"
  shows "insert_address_transactions_from_inputs False ids p \<noteq> (Inr n, p')"
proof
  assume "insert_address_transactions_from_inputs False ids p = (Inr n, p')"
  note e = execute_Inr [OF this [unfolded insert_address_transactions_from_inputs_def]]
  have "(r, in_transaction_id i, in_block_time i) \<in> set (from_inputs False ids (data p))"
    using assms by (auto simp: from_inputs_def)
  with assms(2) have "None \<in> set (map (\<lambda>(r, tid, time). map_option
      (\<lambda>a. \<lparr>at_address = a, at_transaction_id = tid, at_block_time = time\<rparr>)
      (out_script_public_key_address r)) (from_inputs False ids (data p)))"
    by force
  with e show False unfolding insert_selected_def by (auto split: if_splits)
qed

text \<open>C16: an imported output without an address stops the transaction processor: the import stores an output
  whose script has no address form with a NULL address; once a transaction that spends it is
  in a batch and its input is stored, writing the address relations of the inputs fails on the
  NOT NULL key, in whatever order the tasks of the batch run, and so does every retry.\<close>

theorem null_address_stops_processor:
  assumes "import_pair L P icfg pair agg = Inr (r, h, agg')" "up_entry pair = Some (v, Some vs)"
    and "script_public_key P vs = Some k" "script_address P k = None"
    and "r \<in> set (t_outputs (data p))" "i \<in> set (t_inputs (data p))" "spends i r"
    and "in_transaction_id i \<in> tx_id ` set (ts_transactions st)" "mrg_ok mrg"
    and "\<not> tc_disable_addresses cfg" "\<not> tc_exclude_address cfg" "\<not> tc_use_tx_for_time cfg"
  shows "\<exists>e. fst (run_statements (mrg (relation_tasks sched cfg st)) p) = Inl e"
proof (rule ccontr)
  assume "\<not> ?thesis"
  then obtain n p' where run: "run_statements (mrg (relation_tasks sched cfg st)) p = (Inr n, p')"
    by (metis prod.collapse sumE)
  have addr: "out_script_public_key_address r = None"
    using assms(1-4) by (auto simp: import_pair_def sbind_Inr_iff Let_def split: option.splits if_splits)
  let ?ids = "map tx_id (ts_transactions st)"
  let ?ops = "mrg (relation_tasks sched cfg st)"
  have ops: "set ?ops = set (concat (relation_tasks sched cfg st))" by (rule mrg_set [OF assms(9)])
  have sub: "set (insert_input_tx_addr (tc_batch_scale cfg) False ?ids) \<subseteq> set ?ops"
    unfolding ops using assms(10-12) by (simp add: relation_tasks_def Let_def)
  have visit: "\<exists>q q' m. op q = (Inr m, q') \<and> outpoints_kept (data p) (data q)" if "op \<in> set ?ops" for op
    using outpoints.steps_visits [OF run that] relations_keep_outpoints [of _ sched cfg st] unfolding ops by blast
  show False
  proof (cases "chunks (batch_u16 250 8000 (tc_batch_scale cfg)) ?ids")
    case (Inl e)
    then have "throw e \<in> set ?ops" using sub by (auto simp: insert_input_tx_addr_def loop_task_def)
    from visit [OF this] show False by simp
  next
    case (Inr cs)
    then have cs: "cs = chunks_of (batch_u16 250 8000 (tc_batch_scale cfg)) ?ids" "0 < batch_u16 250 8000 (tc_batch_scale cfg)"
      by (auto simp: chunks_def split: if_splits)
    have "in_transaction_id i \<in> set (concat cs)" using assms(8) by (simp add: cs concat_chunks_of)
    then obtain c where c: "c \<in> set cs" "in_transaction_id i \<in> set c" by auto
    then have "or_panic ''Insert input addresses_transactions FAILED'' (insert_address_transactions_from_inputs False c)
        \<in> set ?ops"
      using sub Inr by (auto simp: insert_input_tx_addr_def loop_task_def)
    from visit [OF this] obtain q q' m where "insert_address_transactions_from_inputs False c q = (Inr m, q')"
      "outpoints_kept (data p) (data q)" by auto
    with null_address_fails [of r q i c m q'] addr assms(5-7) c(2) show False by (simp add: outpoints_kept_def)
  qed
qed

definition odd_pair :: utxo_pair where
  "odd_pair = \<lparr>up_outpoint = Some (Some [1], 0), up_entry = Some (5, Some (0, []))\<rparr>"

definition odd_output :: transaction_output_row where
  "odd_output = \<lparr>out_transaction_id = Hash [1], out_index = 0, out_amount = Some 5,
     out_script_public_key = Some [], out_script_public_key_address = None, out_block_time = Some 0\<rparr>"

definition odd_input :: transaction_input_row where
  "odd_input = \<lparr>in_transaction_id = Hash [5], in_index = 0, in_previous_outpoint_hash = Some (Hash [1]),
     in_previous_outpoint_index = Some 0, in_signature_script = None, in_sig_op_count = None, in_block_time = None,
     in_previous_outpoint_script = None, in_previous_outpoint_amount = None, in_previous_outpoint_address = None\<rparr>"

theorem null_address_stops_processor_witness:
  "\<exists>e. fst (run_statements (concat (relation_tasks (\<lambda>k n. [0..<n]) (tx_config_of sample_args sample_mapper)
     (Process_Tx_Props.sample_start\<lparr>ts_transactions := [\<lparr>tx_id = Hash [5], tx_subnetwork_id = None, tx_hash = None, tx_mass = None,
        tx_payload = None, tx_block_time = None\<rparr>]\<rparr>)))
     (pool_of (schema_db\<lparr>t_outputs := [odd_output], t_inputs := [odd_input]\<rparr>))) = Inl e"
proof (rule null_address_stops_processor [where i = odd_input])
  show "import_pair sample_libs sample_p2p (sample_import_config True) odd_pair [] = Inr (odd_output, Hash [1], [])"
    by (simp add: import_pair_def odd_pair_def odd_output_def sample_p2p_def sample_import_config_def as_i64_def as_i16_def)
  show "up_entry odd_pair = Some (5, Some (0, []))" by (simp add: odd_pair_def)
qed (simp_all add: sample_p2p_def odd_output_def odd_input_def spends_def tx_config_of_def sample_args_facts
    is_disabled_def sample_args_def mrg_ok_concat is_excluded_def)

end
