(* ===== verification/Program.thy ===== *)
theory Program
  imports Startup Fetch_Blocks Virtual_Chain Process_Blocks Process_Transactions "HOL-Library.Sublist"
begin

text \<open>
  The program from its arguments to its running tasks (\<open>indexer/src/main.rs\<close>): the checks of
  \<open>main\<close>, the schema, the start, and what each task computes from the settings before its first
  round. Whether the network's name parses, whether the database answers, and the node's
  answers are inputs.
\<close>

section \<open>The database url in the log\<close>

text \<open>
  \<open>Regex::new(r"(postgres://postgres:)[^@]+(@)").replace(url, "$1$2")\<close> in \<open>VecnoDbClient::new\<close>:
  the leftmost match is replaced. At one position the class matches up to the next at sign.
\<close>

definition default_user :: string where
  "default_user = ''postgres://postgres:''"

definition redact_here :: "string \<Rightarrow> string option" where
  "redact_here s =
     (if take (length default_user) s = default_user then
        let rest = drop (length default_user) s in
        case dropWhile (\<lambda>c. c \<noteq> CHR ''@'') rest of
          [] \<Rightarrow> None
        | c # after \<Rightarrow> if takeWhile (\<lambda>c. c \<noteq> CHR ''@'') rest = [] then None else Some (default_user @ c # after)
      else None)"

fun redact_url :: "string \<Rightarrow> string" where
  "redact_url [] = []"
| "redact_url (c # cs) = (case redact_here (c # cs) of Some s \<Rightarrow> s | None \<Rightarrow> c # redact_url cs)"

text \<open>What \<open>VecnoDbClient::new\<close> writes at the info level once connected.\<close>

definition connected_line :: "cli_args \<Rightarrow> string" where
  "connected_line args = ''Connected to PostgreSQL '' @ redact_url (database_url args)"

section \<open>From the arguments to the start\<close>

record main_env =
  mn_network_known :: bool                  \<comment> \<open>\<open>NetworkId::from_str\<close> succeeds\<close>
  mn_database :: bool                       \<comment> \<open>\<open>VecnoDbClient::new\<close> succeeds\<close>
  mn_answers :: "startup_env option list"   \<comment> \<open>to \<open>get_block_dag_info\<close>, until the shutdown\<close>

definition prepare_main :: "main_env \<Rightarrow> cli_args \<Rightarrow> (server, panic, unit) sem" where
  "prepare_main M args =
     bnd (lift_res (check_batch_args args)) (\<lambda>_.
     bnd (lift_res (if mn_network_known M then Inr () else Inl (Panic unwrap_msg))) (\<lambda>_.
     bnd (lift_res (if mn_database M then Inr () else Inl (Panic ''Database connection FAILED''))) (\<lambda>_.
     prepare_database args)))"

text \<open>
  \<open>max_connections\<close> of the database pool: \<open>batch_concurrency as u32 * 10\<close>, of a concurrency
  that passed the check.
\<close>

definition db_pool_size :: "cli_args \<Rightarrow> nat" where
  "db_pool_size args = nat (batch_concurrency args) * 10"

text \<open>An operation of the program on a server that has all its tables.\<close>

definition complete :: "server \<Rightarrow> bool" where
  "complete s \<longleftrightarrow> set (tables_of up_sql) \<subseteq> set (sv_tables s)"

definition on_pool :: "(pool, 'e, 'a) sem \<Rightarrow> (server, 'e, 'a) sem" where
  "on_pool m s = (case m (sv_pool s) of (r, p) \<Rightarrow> (r, s\<lparr>sv_pool := p\<rparr>))"

text \<open>\<open>None\<close> when a shutdown comes before the node answers.\<close>

definition run_main ::
  "libs \<Rightarrow> 'k p2p_libs \<Rightarrow> (hash list \<Rightarrow> hash list) \<Rightarrow> ((string \<times> int) list \<Rightarrow> (string \<times> int) list) \<Rightarrow>
     main_env \<Rightarrow> cli_args \<Rightarrow> attempt list \<Rightarrow> attempt list \<Rightarrow> (server, panic, started option) sem" where
  "run_main L P perm drain M args rebuild_attempts import_attempts =
     bnd (prepare_main M args) (\<lambda>_. case wait_dag_info (mn_answers M) of
         None \<Rightarrow> ret None
       | Some e \<Rightarrow> bnd (on_pool (start_processing L P perm drain e args rebuild_attempts import_attempts)) (\<lambda>st.
           ret (Some st)))"

section \<open>The configurations of the tasks\<close>

text \<open>\<open>per_second * ttl * 2\<close> in \<open>u64\<close>, with overflow checks.\<close>

definition checked_mul :: "u64 \<Rightarrow> u64 \<Rightarrow> panic + u64" where
  "checked_mul a b = (if unat a * unat b < 2 ^ 64 then Inr (a * b) else Inl (Panic ''attempt to multiply with overflow''))"

definition cache_size :: "u64 \<Rightarrow> u64 \<Rightarrow> panic + u64" where
  "cache_size per_second ttl = sbind (checked_mul per_second ttl) (\<lambda>n. checked_mul n 2)"

text \<open>
  \<open>Cache::builder().time_to_live(..).max_capacity(..).build()\<close>: the builder of moka documents that
  \<open>build\<close> panics on a time to live above 1000 years, of 365 days.
\<close>

definition max_cache_seconds :: nat where
  "max_cache_seconds = 1000 * (365 * 24 * 60 * 60)"

definition new_cache :: "u64 \<Rightarrow> u64 \<Rightarrow> panic + u64" where
  "new_cache per_second ttl = sbind (cache_size per_second ttl) (\<lambda>n.
     if unat ttl \<le> max_cache_seconds then Inr n
     else Inl (Panic ''time_to_live is longer than 1000 years''))"

text \<open>What the tasks run with; a task that is disabled has no configuration.\<close>

record task_config =
  tk_settings :: settings
  tk_capacity :: nat
  tk_blocks :: block_config
  tk_txs :: "tx_config option"
  tk_chain :: "vcp_config option"
  tk_checkpoints :: cp_config

definition configure_txs :: "settings \<Rightarrow> panic + tx_config option" where
  "configure_txs s = (let args = s_cli_args s in
     if is_disabled args TransactionProcessing then Inr None
     else sbind (new_cache (ucast (s_net_tps_max s)) (cache_ttl args)) (\<lambda>_.
       Inr (Some (tx_config_of args (mapper_new args)))))"

definition configure_chain :: "settings \<Rightarrow> panic + vcp_config option" where
  "configure_chain s =
     (if is_disabled (s_cli_args s) VirtualChainProcessing then Inr None
      else sbind (vcp_config_of s) (\<lambda>c. Inr (Some c)))"

definition configure_tasks :: "settings \<Rightarrow> nat \<Rightarrow> panic + task_config" where
  "configure_tasks s capacity =
     sbind (new_cache (ucast (s_net_bps s)) (cache_ttl (s_cli_args s))) (\<lambda>_.
     sbind (configure_txs s) (\<lambda>tx.
     sbind (configure_chain s) (\<lambda>chain.
     Inr \<lparr>tk_settings = s, tk_capacity = capacity, tk_blocks = block_config_of s (mapper_new (s_cli_args s)),
       tk_txs = tx, tk_chain = chain, tk_checkpoints = cp_config_of (s_cli_args s)\<rparr>)))"

abbreviation tk_args :: "task_config \<Rightarrow> cli_args" where
  "tk_args K \<equiv> s_cli_args (tk_settings K)"

section \<open>Which passwords reach the log\<close>

lemma redact_here_None: "\<not> sublist default_user s \<Longrightarrow> redact_here s = None"
proof -
  assume "\<not> sublist default_user s"
  then have "take (length default_user) s \<noteq> default_user"
    by (metis append_take_drop_id sublist_append_rightI)
  then show ?thesis by (simp add: redact_here_def)
qed

lemma no_default_user: "default_user \<noteq> []"
  by (simp add: default_user_def)

lemma redact_url_Some: "redact_here s = Some t \<Longrightarrow> redact_url s = t"
  by (cases s) (simp_all add: redact_here_def no_default_user [symmetric])

lemma redact_url_other: "\<not> sublist default_user s \<Longrightarrow> redact_url s = s"
proof (induction s)
  case (Cons c cs)
  then have "\<not> sublist default_user cs" by (simp add: sublist_Cons_right)
  with Cons.IH redact_here_None [OF Cons.prems] show ?case by simp
qed simp

lemma redact_here_default:
  assumes "password \<noteq> []" "CHR ''@'' \<notin> set password"
  shows "redact_here (default_user @ password @ CHR ''@'' # host) = Some (default_user @ CHR ''@'' # host)"
proof -
  have at: "\<forall>c\<in>set password. c \<noteq> CHR ''@''" using assms(2) by blast
  have "dropWhile (\<lambda>c. c \<noteq> CHR ''@'') (password @ CHR ''@'' # host) = CHR ''@'' # host"
    using at by (subst dropWhile_append2) (blast, simp)
  moreover have "takeWhile (\<lambda>c. c \<noteq> CHR ''@'') (password @ CHR ''@'' # host) = password"
    using at by (subst takeWhile_append2) (blast, simp)
  moreover have "take (length default_user) (default_user @ rest) = default_user"
    "drop (length default_user) (default_user @ rest) = rest" for rest by simp_all
  ultimately show ?thesis using assms(1) unfolding redact_here_def Let_def by (simp only: if_True) simp
qed

text \<open>C34: the log of a start shows the database url without its password only for the user
  \<open>postgres\<close> under the scheme \<open>postgres\<close>: such a password, empty ones apart, is cut out; every other url,
  one with another user or the scheme \<open>postgresql\<close>, is logged as it was given, with its password.\<close>

theorem password_redacted_for_postgres_only:
  "(password \<noteq> [] \<and> CHR ''@'' \<notin> set password \<longrightarrow>
      connected_line (args\<lparr>database_url := ''postgres://postgres:'' @ password @ CHR ''@'' # host\<rparr>)
        = ''Connected to PostgreSQL postgres://postgres:@'' @ host)
    \<and> (\<not> sublist ''postgres://postgres:'' url \<longrightarrow>
      connected_line (args\<lparr>database_url := url\<rparr>) = ''Connected to PostgreSQL '' @ url)"
proof (intro conjI impI)
  assume "password \<noteq> [] \<and> CHR ''@'' \<notin> set password"
  then have "redact_url (default_user @ password @ CHR ''@'' # host) = default_user @ CHR ''@'' # host"
    by (intro redact_url_Some redact_here_default) blast+
  then show "connected_line (args\<lparr>database_url := ''postgres://postgres:'' @ password @ CHR ''@'' # host\<rparr>)
      = ''Connected to PostgreSQL postgres://postgres:@'' @ host"
    by (simp add: connected_line_def default_user_def del: redact_url.simps)
next
  assume "\<not> sublist ''postgres://postgres:'' url"
  from redact_url_other [OF this [folded default_user_def]]
  show "connected_line (args\<lparr>database_url := url\<rparr>) = ''Connected to PostgreSQL '' @ url"
    by (simp add: connected_line_def)
qed

theorem password_redacted_for_postgres_only_witness:
  "connected_line (sample_args\<lparr>database_url := ''postgres://postgres:'' @ ''secret'' @ CHR ''@'' # ''db''\<rparr>)
      = ''Connected to PostgreSQL postgres://postgres:@'' @ ''db''
    \<and> connected_line (sample_args\<lparr>database_url := ''postgres://indexer:secret@db''\<rparr>)
      = ''Connected to PostgreSQL '' @ ''postgres://indexer:secret@db''"
proof -
  have 1: "\<not> sublist ''postgres://postgres:'' ''postgres://indexer:secret@db''" by code_simp
  have 2: "''secret'' \<noteq> [] \<and> CHR ''@'' \<notin> set ''secret''" by simp
  show ?thesis
    by (intro conjI password_redacted_for_postgres_only [THEN conjunct1, rule_format, OF 2]
        password_redacted_for_postgres_only [THEN conjunct2, rule_format, OF 1])
qed

section \<open>What a successful start says\<close>

lemma start_processing_settings:
  assumes "start_processing L P perm drain e args as bs p = (Inr st, p')"
  shows "s_cli_args (sd_settings st) = args \<and> s_net_bps (sd_settings st) = 1 \<and> s_net_tps_max (sd_settings st) = 300
    \<and> sd_capacity st = queue_capacity args \<and> 0 < sd_capacity st"
  using assms
  by (auto simp: start_processing_def bnd_Inr_iff lift_res_def ret_def Let_def new_queue_def settings_of_def split: if_splits)

lemma run_main_Inr:
  assumes "run_main L P perm drain M args as bs sv = (Inr (Some st), sv')"
  shows "check_batch_args args = Inr () \<and> s_cli_args (sd_settings st) = args \<and> sd_capacity st = queue_capacity args
    \<and> 0 < queue_capacity args
    \<and> (\<exists>e sv1. prepare_database args sv = (Inr (), sv1) \<and> sv' = sv1\<lparr>sv_pool := sv_pool sv'\<rparr>
        \<and> start_processing L P perm drain e args as bs (sv_pool sv1) = (Inr st, sv_pool sv'))"
proof -
  from assms obtain e sv1 where c: "check_batch_args args = Inr ()" "prepare_database args sv = (Inr (), sv1)"
    and o: "on_pool (start_processing L P perm drain e args as bs) sv1 = (Inr st, sv')"
    by (auto simp: run_main_def prepare_main_def bnd_Inr_iff lift_res_def ret_def split: option.splits if_splits)
  then have s: "start_processing L P perm drain e args as bs (sv_pool sv1) = (Inr st, sv_pool sv')"
    "sv' = sv1\<lparr>sv_pool := sv_pool sv'\<rparr>"
    by (auto simp: on_pool_def split: prod.splits)
  from start_processing_settings [OF s(1)] c s show ?thesis by auto
qed

text \<open>With the interval and the window in the ranges of the command line, only the time to live of
  the caches can keep a started program from configuring its tasks.\<close>

text \<open>What clap guarantees of the arguments: the ranges of \<open>vcp_interval\<close> and \<open>vcp_window\<close>.\<close>

definition parsed_ranges :: "cli_args \<Rightarrow> bool" where
  "parsed_ranges args \<longleftrightarrow> 100 \<le> unat (vcp_interval args) \<and> unat (vcp_interval args) \<le> 10000
     \<and> 100 \<le> unat (block_interval args) \<and> unat (block_interval args) \<le> 10000
     \<and> 10 \<le> unat (vcp_window args) \<and> unat (vcp_window args) \<le> 86400"

lemma configure_chain_runs: "parsed_ranges (s_cli_args s) \<Longrightarrow> \<exists>c. configure_chain s = Inr c"
  by (auto simp: parsed_ranges_def configure_chain_def vcp_config_of_def tip_distance_window_def)

lemma new_cache_exact:
  assumes "unat per_second \<le> 300" "unat ttl \<le> max_cache_seconds"
  shows "new_cache per_second ttl = Inr (per_second * ttl * 2) \<and> unat (per_second * ttl * 2) = unat per_second * unat ttl * 2"
proof -
  have "unat per_second * unat ttl \<le> 300 * max_cache_seconds" by (rule mult_le_mono [OF assms])
  then have fits: "unat per_second * unat ttl * 2 < 2 ^ 64" by (simp add: max_cache_seconds_def)
  then have m: "unat (per_second * ttl) = unat per_second * unat ttl"
    using unat_mult_lem [of per_second ttl] by simp
  have two: "unat (2 :: u64) = 2" by code_simp
  have "unat (per_second * ttl) * unat (2 :: u64) < 2 ^ 64" unfolding m two by (rule fits)
  then have "unat (per_second * ttl * 2) = unat per_second * unat ttl * 2"
    using unat_mult_lem [of "per_second * ttl" 2] m two by simp
  then show ?thesis
    using assms(2) fits m two by (simp add: new_cache_def cache_size_def checked_mul_def)
qed

lemma new_cache_runs:
  "unat per_second \<le> 300 \<Longrightarrow> (\<exists>n. new_cache per_second ttl = Inr n) \<longleftrightarrow> unat ttl \<le> max_cache_seconds"
  using new_cache_exact [of per_second ttl] by (auto simp: new_cache_def sbind_Inr_iff split: if_splits)

text \<open>C40: the time to live of the caches has no upper bound on the command line, and a large one stops the
  program: with the intervals and the window in their ranges, the tasks of a start are configured
  exactly when it is at most 1000 years, the limit of the cache builder; the capacities computed
  for the cache of the blocks (one per second) and of the transactions (300 per second) are then
  exact, without wrap-around.\<close>

theorem cache_ttl_bound:
  assumes "parsed_ranges args"
  shows "((\<exists>K. configure_tasks (settings_of args h utxo) capacity = Inr K) \<longleftrightarrow>
      unat (cache_ttl args) \<le> 1000 * (365 * 24 * 60 * 60))
    \<and> (unat (cache_ttl args) \<le> 1000 * (365 * 24 * 60 * 60) \<longrightarrow>
      (\<exists>n m. new_cache 1 (cache_ttl args) = Inr n \<and> unat n = unat (cache_ttl args) * 2
        \<and> new_cache 300 (cache_ttl args) = Inr m \<and> unat m = unat (cache_ttl args) * 600))"
proof -
  let ?s = "settings_of args h utxo" and ?ttl = "cache_ttl args"
  have s: "s_cli_args ?s = args" "s_net_bps ?s = 1" "s_net_tps_max ?s = 300" by (simp_all add: settings_of_def)
  from configure_chain_runs [of ?s] assms obtain c where c: "configure_chain ?s = Inr c" by (auto simp: s)
  have u: "unat (300 :: u64) = 300" "unat (1 :: u64) = 1" by code_simp+
  have n: "(\<exists>k. new_cache 1 ?ttl = Inr k) \<longleftrightarrow> unat ?ttl \<le> max_cache_seconds"
    "(\<exists>k. new_cache 300 ?ttl = Inr k) \<longleftrightarrow> unat ?ttl \<le> max_cache_seconds"
    using new_cache_runs [of 1 ?ttl] new_cache_runs [of 300 ?ttl] u by simp_all
  have "ucast (1 :: byte) = (1 :: u64)" "ucast (300 :: u16) = (300 :: u64)" by simp_all
  then have "(\<exists>K. configure_tasks ?s capacity = Inr K) \<longleftrightarrow> unat ?ttl \<le> max_cache_seconds"
    using n by (auto simp: configure_tasks_def configure_txs_def sbind_Inr_iff s c Let_def)
  moreover have "\<exists>k. new_cache 1 ?ttl = Inr k \<and> unat k = unat ?ttl * 2" "\<exists>k. new_cache 300 ?ttl = Inr k \<and> unat k = unat ?ttl * 600"
    if "unat ?ttl \<le> max_cache_seconds"
    using that new_cache_exact [of 1 ?ttl] new_cache_exact [of 300 ?ttl] u by (simp_all add: mult.commute)
  ultimately show ?thesis unfolding max_cache_seconds_def by blast
qed

theorem cache_ttl_bound_witness:
  "(\<nexists>K. configure_tasks (settings_of (sample_args\<lparr>cache_ttl := 2 ^ 35\<rparr>) (Hash []) False) 1000 = Inr K)
    \<and> (\<exists>K. configure_tasks (settings_of (sample_args\<lparr>cache_ttl := 2 ^ 34\<rparr>) (Hash []) False) 1000 = Inr K)"
proof -
  have r: "parsed_ranges (sample_args\<lparr>cache_ttl := n\<rparr>)" for n by (simp add: parsed_ranges_def sample_args_def)
  show ?thesis
    using cache_ttl_bound [OF r [of "2 ^ 35"], of "Hash []" False 1000] cache_ttl_bound [OF r [of "2 ^ 34"], of "Hash []" False 1000]
    by simp
qed

end
