(* ===== verification/Flow.thy ===== *)
theory Flow
  imports Tasks Program Prune_Props
begin

text \<open>
  The running program as one transition system: the block fetcher with its two bounded queues,
  the block, transaction and virtual chain processors, the bounded checkpoint queue, the
  checkpoint task and the pruner, on one database, from the start of \<open>main\<close> through any failure to the next
  start. The fetcher moves one iteration of its loops at a time; a round of another task is one
  step, but what it hands on goes into the checkpoint queue one element at a time, as it waits
  while that queue is full. A pruner run moves one of its parts at a time, and the scheduler may
  start a run while another is going on.
\<close>

section \<open>The pruner's runs\<close>

text \<open>A run of the scheduled job: the time it started at, its next part, the errors so far.\<close>

record prune_job =
  job_start :: int
  job_part :: nat
  job_errors :: int

definition prune_part :: "nat \<Rightarrow> prune_env \<Rightarrow> cli_args \<Rightarrow> pruning_config \<Rightarrow> prune_state \<Rightarrow> prune_end" where
  "prune_part n e args cfg s =
     (if n = 0 then prune_block_parent_part e args cfg s
      else if n = 1 then prune_blocks_transactions_part e args cfg s
      else if n = 2 then prune_blocks_part e args cfg s
      else if n = 3 then prune_transactions_part e args cfg s
      else if n = 4 then prune_addresses_part e args cfg s
      else Goes (prune_finish e s))"

text \<open>What is left of a run after a part: \<open>return_on_shutdown\<close> ends it.\<close>

definition job_goes_on :: "prune_job \<Rightarrow> prune_end \<Rightarrow> prune_job list" where
  "job_goes_on j r = (case r of
     Goes s \<Rightarrow> if job_part j < 5 then [j\<lparr>job_part := job_part j + 1, job_errors := ps_errors s\<rparr>] else []
   | _ \<Rightarrow> [])"

text \<open>Without interruption the parts make the run.\<close>

lemma and_then_assoc: "and_then (and_then r f) g = and_then r (\<lambda>s. and_then (f s) g)"
  by (cases r) simp_all

lemma prune_is_its_parts:
  "prune e args cfg s = foldl (\<lambda>r n. and_then r (prune_part n e args cfg)) (Goes (prune_begin e s)) [0..<6]"
  by (simp add: prune_def prune_part_def [abs_def] upt_rec and_then_assoc)

text \<open>The rows of four tables that pruner runs have deleted: kept for the properties only.\<close>

record deleted_rows =
  gone_transactions :: "transaction_row list"
  gone_block_txs :: "block_transaction_row list"
  gone_blocks :: "block_row list"
  gone_parents :: "block_parent_row list"

definition nothing_deleted :: deleted_rows where
  "nothing_deleted = \<lparr>gone_transactions = [], gone_block_txs = [], gone_blocks = [], gone_parents = []\<rparr>"

definition also_deleted :: "db \<Rightarrow> db \<Rightarrow> deleted_rows \<Rightarrow> deleted_rows" where
  "also_deleted d d' X = \<lparr>
     gone_transactions = gone_transactions X @ filter (\<lambda>r. r \<notin> set (t_transactions d')) (t_transactions d),
     gone_block_txs = gone_block_txs X @ filter (\<lambda>r. r \<notin> set (t_blocks_transactions d')) (t_blocks_transactions d),
     gone_blocks = gone_blocks X @ filter (\<lambda>r. r \<notin> set (t_blocks d')) (t_blocks d),
     gone_parents = gone_parents X @ filter (\<lambda>r. r \<notin> set (t_block_parent d')) (t_block_parent d)\<rparr>"

section \<open>The state\<close>

record ('c, 'd) flow =
  fl_config :: task_config
  fl_pool :: pool
  fl_shutdown :: bool
  fl_fetcher :: "'d fetcher"
  fl_round :: "fetch_round option"          \<comment> \<open>the answer the fetcher is working on\<close>
  fl_metrics :: metrics
  fl_blocks_queue :: "block_data list"
  fl_txs_queue :: "transaction_data list"
  fl_checkpoint_queue :: "checkpoint_block list"
  fl_blocks :: block_state
  fl_blocks_out :: "checkpoint_block list"  \<comment> \<open>what the last round has yet to push\<close>
  fl_txs :: "'c tx_state"
  fl_txs_out :: "checkpoint_block list"
  fl_chain :: vcp_state
  fl_chain_out :: "checkpoint_block list"
  fl_checkpoints :: cp_state
  fl_pruning :: "pruning_config option"     \<comment> \<open>what the scheduled job was given, once the pruner runs\<close>
  fl_prunes :: "prune_job list"             \<comment> \<open>the runs going on\<close>
  fl_deleted :: deleted_rows                \<comment> \<open>what pruner runs deleted since the last start\<close>
  fl_returned :: "rpc_block list"           \<comment> \<open>every block the node has returned\<close>
  fl_session :: "rpc_block list"            \<comment> \<open>those of the answers taken up since the last start\<close>
  fl_pushed_blocks :: "block_data list"     \<comment> \<open>what was pushed to the two queues since then\<close>
  fl_pushed_txs :: "transaction_data list"

text \<open>What other crates provide: the caches, and the order of concurrent writes.\<close>

record ('c, 'd) crates =
  cr_tx_cache :: "'c cache_ops"
  cr_no_txs :: 'c           \<comment> \<open>the empty cache of transaction ids\<close>
  cr_fetch_cache :: "'d cache_ops"
  cr_no_blocks :: 'd        \<comment> \<open>the empty cache of block hashes\<close>
  cr_sched :: "nat \<Rightarrow> nat \<Rightarrow> nat list"
  cr_mrg :: "statement list list \<Rightarrow> statement list"

text \<open>\<open>ArrayQueue::pop\<close>, and whether a push succeeds.\<close>

definition pop :: "'a list \<Rightarrow> 'a option \<times> 'a list" where
  "pop q = (case q of [] \<Rightarrow> (None, []) | x # xs \<Rightarrow> (Some x, xs))"

definition has_room :: "nat \<Rightarrow> 'a list \<Rightarrow> bool" where
  "has_room capacity q \<longleftrightarrow> length q < capacity"

definition checkpoint_capacity :: nat where
  "checkpoint_capacity = 30000"

section \<open>Reports\<close>

definition pushed_by_chain :: "vcp_outcome \<Rightarrow> checkpoint_block list" where
  "pushed_by_chain r = (case r of Advance _ _ c \<Rightarrow> [c] | _ \<Rightarrow> [])"

definition chain_state_of :: "vcp_state \<Rightarrow> vcp_outcome \<Rightarrow> vcp_state" where
  "chain_state_of v r = (case r of Advance v' _ _ \<Rightarrow> v' | Waiting v' \<Rightarrow> v' | Stopped \<Rightarrow> v)"

text \<open>What a round reports in the metrics record, which the tasks share.\<close>

definition report_blocks :: "metrics_block option \<Rightarrow> metrics \<Rightarrow> metrics" where
  "report_blocks mb m = (case mb of None \<Rightarrow> m
     | Some b \<Rightarrow> m\<lparr>me_block_processor := processor_update_last_block b (me_block_processor m)\<rparr>)"

definition report_transactions :: "metrics_block option \<Rightarrow> metrics \<Rightarrow> metrics" where
  "report_transactions mb m = (case mb of None \<Rightarrow> m
     | Some b \<Rightarrow> m\<lparr>me_transaction_processor := update_last_block b (me_transaction_processor m)\<rparr>)"

definition report_chain :: "vcp_outcome \<Rightarrow> metrics \<Rightarrow> metrics" where
  "report_chain r m = (case r of Advance _ mv _ \<Rightarrow> m\<lparr>me_vcp := mv\<rparr> | _ \<Rightarrow> m)"

definition report_checkpoint :: "metrics_checkpoint option \<Rightarrow> metrics \<Rightarrow> metrics" where
  "report_checkpoint cp m = (case cp of None \<Rightarrow> m | Some c \<Rightarrow> m\<lparr>me_checkpoint := c\<rparr>)"

section \<open>A start\<close>

text \<open>The transaction processor loads the subnetworks first; when disabled it has no state to speak of.\<close>

definition idle_txs :: "'c \<Rightarrow> nat \<Rightarrow> 'c tx_state" where
  "idle_txs empty_cache instant = \<lparr>ts_subnetworks = Map.empty, ts_cache = empty_cache, ts_transactions = [],
     ts_block_tx = [], ts_inputs = [], ts_outputs = [], ts_addresses = [], ts_scripts = [], ts_checkpoints = [],
     ts_last_commit = instant\<rparr>"

definition start_txs :: "task_config \<Rightarrow> 'c \<Rightarrow> nat \<Rightarrow> (pool, panic, 'c tx_state) sem" where
  "start_txs K empty_cache instant =
     (case tk_txs K of None \<Rightarrow> ret (idle_txs empty_cache instant) | Some _ \<Rightarrow> tx_start empty_cache instant)"

text \<open>Fresh tasks and empty queues; the database as it is.\<close>

definition fresh_flow ::
  "('c, 'd) crates \<Rightarrow> task_config \<Rightarrow> string \<Rightarrow> metrics \<Rightarrow> nat \<Rightarrow> int \<Rightarrow> 'c tx_state \<Rightarrow> pool \<Rightarrow>
     rpc_block list \<Rightarrow> ('c, 'd) flow" where
  "fresh_flow C K previous m instant wall st p returned =
     \<lparr>fl_config = K, fl_pool = p, fl_shutdown = False, fl_fetcher = fetcher_new (tk_settings K) (cr_no_blocks C) wall,
      fl_round = None, fl_metrics = m, fl_blocks_queue = [], fl_txs_queue = [], fl_checkpoint_queue = [],
      fl_blocks = block_start instant, fl_blocks_out = [], fl_txs = st, fl_txs_out = [],
      fl_chain = vcp_start (tk_settings K), fl_chain_out = [], fl_checkpoints = cp_start instant (Some previous),
      fl_pruning = None, fl_prunes = [], fl_deleted = nothing_deleted, fl_returned = returned, fl_session = [], fl_pushed_blocks = [], fl_pushed_txs = []\<rparr>"

text \<open>A start of the program on a server, with any arguments, that ends with its tasks running.\<close>

inductive program_start ::
  "libs \<Rightarrow> 'k p2p_libs \<Rightarrow> ('c, 'd) crates \<Rightarrow> rpc_block list \<Rightarrow> server \<Rightarrow> ('c, 'd) flow \<Rightarrow> bool"
  for L :: libs and P :: "'k p2p_libs" and C :: "('c, 'd) crates" and returned :: "rpc_block list" where
  "run_main L P perm drain M args as bs sv = (Inr (Some st), sv') \<Longrightarrow> complete sv' \<Longrightarrow>
   configure_tasks (sd_settings st) (sd_capacity st) = Inr K \<Longrightarrow>
   start_txs K (cr_no_txs C) instant (sv_pool sv') = (Inr t0, p) \<Longrightarrow>
   program_start L P C returned sv (fresh_flow C K (sd_previous st) (sd_metrics st) instant wall t0 p returned)"

text \<open>Starts that fail, or whose process ends at once, leave what they have written for the next one.\<close>

inductive failed_starts :: "libs \<Rightarrow> 'k p2p_libs \<Rightarrow> server \<Rightarrow> server \<Rightarrow> bool"
  for L :: libs and P :: "'k p2p_libs" and sv :: server where
  "failed_starts L P sv sv"
| "failed_starts L P sv sv1 \<Longrightarrow> prepare_main M args sv1 = (Inl e, sv2) \<Longrightarrow> failed_starts L P sv sv2"
| "failed_starts L P sv sv1 \<Longrightarrow> run_main L P perm drain M args as bs sv1 = (r, sv2) \<Longrightarrow> complete sv2 \<Longrightarrow>
    failed_starts L P sv sv2"

definition flow_start :: "libs \<Rightarrow> 'k p2p_libs \<Rightarrow> ('c, 'd) crates \<Rightarrow> ('c, 'd) flow \<Rightarrow> bool" where
  "flow_start L P C s \<longleftrightarrow> (\<exists>sv. program_start L P C [] sv s)"

section \<open>The steps\<close>

definition prune_state_of :: "('c, 'd) flow \<Rightarrow> int \<Rightarrow> prune_state" where
  "prune_state_of s errors = \<lparr>ps_errors = errors, ps_metrics = fl_metrics s, ps_pool = fl_pool s\<rparr>"

text \<open>A round that fails ends the process: what it leaves in the database.\<close>

inductive flow_fails :: "libs \<Rightarrow> ('c, 'd) crates \<Rightarrow> ('c, 'd) flow \<Rightarrow> pool \<Rightarrow> bool"
  for L :: libs and C :: "('c, 'd) crates" and s :: "('c, 'd) flow" where
  Ended: "flow_fails L C s (fl_pool s)"
| Blocks: "process_blocks_step L (tk_blocks (fl_config s)) (popped, t, t') (fl_blocks s) (fl_pool s) = (r, p') \<Longrightarrow>
    flow_fails L C s p'"
| Transactions: "tk_txs (fl_config s) = Some cfg \<Longrightarrow>
    process_transactions_step L (cr_tx_cache C) (cr_sched C) (cr_mrg C) cfg (popped, t, t') (fl_txs s) (fl_pool s) = (r, p') \<Longrightarrow>
    flow_fails L C s p'"
| Chain: "tk_chain (fl_config s) = Some cfg \<Longrightarrow>
    process_virtual_chain_step L (cr_sched C) cfg get_block started response reads t mv (fl_chain s) (fl_pool s) = (r, p') \<Longrightarrow>
    flow_fails L C s p'"
| Checkpoint: "process_checkpoints_step L grp perm (tk_checkpoints (fl_config s)) (popped, ts) (fl_checkpoints s) (fl_pool s)
      = (r, p') \<Longrightarrow>
    flow_fails L C s p'"
| Prune: "fl_pruning s = Some cfg \<Longrightarrow> j \<in> set (fl_prunes s) \<Longrightarrow> pe_start e = job_start j \<Longrightarrow>
    prune_part (job_part j) e (tk_args (fl_config s)) cfg (prune_state_of s (job_errors j)) = Panics err ps \<Longrightarrow>
    flow_fails L C s (ps_pool ps)"

definition fetch_room_of :: "('c, 'd) flow \<Rightarrow> fetch_room" where
  "fetch_room_of s = \<lparr>fr_shutdown = fl_shutdown s, fr_blocks = has_room (tk_capacity (fl_config s)) (fl_blocks_queue s),
     fr_txs = has_room (tk_capacity (fl_config s)) (fl_txs_queue s)\<rparr>"

inductive flow_step :: "libs \<Rightarrow> 'k p2p_libs \<Rightarrow> ('c, 'd) crates \<Rightarrow> ('c, 'd) flow \<Rightarrow> ('c, 'd) flow \<Rightarrow> bool"
  for L :: libs and P :: "'k p2p_libs" and C :: "('c, 'd) crates" and s :: "('c, 'd) flow" where
  Answer: "fl_round s = None \<Longrightarrow> \<not> fl_shutdown s \<Longrightarrow> fi_blocks i = Some blocks \<Longrightarrow>
    f = update_tips i (length blocks) (fl_fetcher s) \<Longrightarrow>
    flow_step L P C s (s\<lparr>fl_fetcher := f,
      fl_round := (if 1 < length blocks then Some (round_start blocks f) else None),
      fl_returned := fl_returned s @ blocks,
      fl_session := fl_session s @ (if 1 < length blocks then blocks else [])\<rparr>)"
| Fetch: "fl_round s = Some r \<Longrightarrow> fetch_micro (cr_fetch_cache C) (fetch_room_of s) (fl_fetcher s, r) = ((f, r'), bs, ts) \<Longrightarrow>
    flow_step L P C s (s\<lparr>fl_fetcher := f, fl_round := Some r',
      fl_blocks_queue := fl_blocks_queue s @ bs, fl_txs_queue := fl_txs_queue s @ ts,
      fl_pushed_blocks := fl_pushed_blocks s @ bs, fl_pushed_txs := fl_pushed_txs s @ ts\<rparr>)"
| Fetched: "fl_round s = Some r \<Longrightarrow> round_over r \<Longrightarrow>
    fetch_metrics L (word_of_nat (length (fl_blocks_queue s))) (word_of_nat (length (fl_txs_queue s))) (rd_last r)
      (fl_metrics s) = Inr m \<Longrightarrow>
    flow_step L P C s (s\<lparr>fl_fetcher := end_pass now_seconds (fl_fetcher s, rd_acc r), fl_round := None, fl_metrics := m\<rparr>)"
| Blocks: "fl_blocks_out s = [] \<Longrightarrow> pop (fl_blocks_queue s) = (popped, q) \<Longrightarrow>
    process_blocks_step L (tk_blocks (fl_config s)) (popped, t, t') (fl_blocks s) (fl_pool s) = (Inr (b', mb, pushed), p') \<Longrightarrow>
    flow_step L P C s (s\<lparr>fl_pool := p', fl_metrics := report_blocks mb (fl_metrics s), fl_blocks_queue := q, fl_blocks := b',
      fl_blocks_out := pushed\<rparr>)"
| BlocksPush: "fl_blocks_out s = c # cs \<Longrightarrow> has_room checkpoint_capacity (fl_checkpoint_queue s) \<Longrightarrow>
    flow_step L P C s (s\<lparr>fl_blocks_out := cs, fl_checkpoint_queue := fl_checkpoint_queue s @ [c]\<rparr>)"
| Transactions: "tk_txs (fl_config s) = Some cfg \<Longrightarrow> fl_txs_out s = [] \<Longrightarrow> pop (fl_txs_queue s) = (popped, q) \<Longrightarrow>
    process_transactions_step L (cr_tx_cache C) (cr_sched C) (cr_mrg C) cfg (popped, t, t') (fl_txs s) (fl_pool s)
      = (Inr (st', mb, pushed), p') \<Longrightarrow>
    flow_step L P C s (s\<lparr>fl_pool := p', fl_metrics := report_transactions mb (fl_metrics s), fl_txs_queue := q, fl_txs := st',
      fl_txs_out := pushed\<rparr>)"
| TransactionsPush: "fl_txs_out s = c # cs \<Longrightarrow> has_room checkpoint_capacity (fl_checkpoint_queue s) \<Longrightarrow>
    flow_step L P C s (s\<lparr>fl_txs_out := cs, fl_checkpoint_queue := fl_checkpoint_queue s @ [c]\<rparr>)"
| Chain: "tk_chain (fl_config s) = Some cfg \<Longrightarrow> fl_chain_out s = [] \<Longrightarrow>
    process_virtual_chain_step L (cr_sched C) cfg get_block (b_vcp_started (fl_blocks s)) response reads t
      (me_vcp (fl_metrics s)) (fl_chain s) (fl_pool s) = (Inr r, p') \<Longrightarrow>
    flow_step L P C s (s\<lparr>fl_pool := p', fl_metrics := report_chain r (fl_metrics s), fl_chain := chain_state_of (fl_chain s) r,
      fl_chain_out := pushed_by_chain r\<rparr>)"
| ChainPush: "fl_chain_out s = c # cs \<Longrightarrow> has_room checkpoint_capacity (fl_checkpoint_queue s) \<Longrightarrow>
    flow_step L P C s (s\<lparr>fl_chain_out := cs, fl_checkpoint_queue := fl_checkpoint_queue s @ [c]\<rparr>)"
| Checkpoint: "pop (fl_checkpoint_queue s) = (popped, q) \<Longrightarrow>
    process_checkpoints_step L grp perm (tk_checkpoints (fl_config s)) (popped, ts) (fl_checkpoints s) (fl_pool s)
      = (Inr (k', cp), p') \<Longrightarrow>
    flow_step L P C s (s\<lparr>fl_pool := p', fl_metrics := report_checkpoint cp (fl_metrics s), fl_checkpoint_queue := q,
      fl_checkpoints := k'\<rparr>)"
| Pruner: "fl_pruning s = None \<Longrightarrow> pruner show_duration (tk_args (fl_config s)) (fl_metrics s) = (m, Some cfg) \<Longrightarrow>
    flow_step L P C s (s\<lparr>fl_metrics := m, fl_pruning := Some cfg\<rparr>)"
| PruneBegin: "fl_pruning s = Some cfg \<Longrightarrow> prune_begin e (prune_state_of s 0) = ps \<Longrightarrow>
    flow_step L P C s (s\<lparr>fl_metrics := ps_metrics ps,
      fl_prunes := fl_prunes s @ [\<lparr>job_start = pe_start e, job_part = 0, job_errors = ps_errors ps\<rparr>]\<rparr>)"
| PrunePart: "fl_pruning s = Some cfg \<Longrightarrow> fl_prunes s = js @ j # js' \<Longrightarrow> pe_start e = job_start j \<Longrightarrow>
    (\<forall>k. pe_shutdown e k \<longrightarrow> fl_shutdown s) \<Longrightarrow>
    prune_part (job_part j) e (tk_args (fl_config s)) cfg (prune_state_of s (job_errors j)) = r \<Longrightarrow>
    r = Goes ps \<or> r = ShutDown ps \<Longrightarrow>
    flow_step L P C s (s\<lparr>fl_pool := ps_pool ps, fl_metrics := ps_metrics ps, fl_prunes := js @ job_goes_on j r @ js',
      fl_deleted := also_deleted (data (fl_pool s)) (data (ps_pool ps)) (fl_deleted s)\<rparr>)"
| Shutdown: "flow_step L P C s (s\<lparr>fl_shutdown := True\<rparr>)"
| Restart: "flow_fails L C s (sv_pool sv) \<Longrightarrow> complete sv \<Longrightarrow> failed_starts L P sv sv1 \<Longrightarrow>
    program_start L P C (fl_returned s) sv1 s' \<Longrightarrow> flow_step L P C s s'"

inductive_cases program_startE: "program_start L P C returned sv s"

lemma pop_Some: "pop q = (Some x, q') \<longleftrightarrow> q = x # q'" and pop_None: "pop q = (None, q') \<longleftrightarrow> q = [] \<and> q' = []"
  by (auto simp: pop_def split: list.splits)

lemma pop_append: "pop q = (x, q') \<Longrightarrow> q = (case x of None \<Rightarrow> [] | Some a \<Rightarrow> [a]) @ q'"
  by (auto simp: pop_def split: list.splits)

end
