(* ===== verification/Flow_Inv.thy ===== *)
theory Flow_Inv
  imports Flow
begin

text \<open>
  The invariant of the running program (theory \<open>Flow\<close>): what every step of the fetcher, the
  processors, the checkpoint task and the pruner keeps, and what a start establishes. It is about the rows in
  the database together with those that pruner runs have deleted since the start.
\<close>

text \<open>No task but the pruner removes a transaction, a block or a relation between them.\<close>

definition keeps_rows :: "db \<Rightarrow> db \<Rightarrow> bool" where
  "keeps_rows d d' \<longleftrightarrow> grows d d' \<and> keeps_blocks d d'"

interpretation keep_rows: db_relation keeps_rows
  by unfold_locales (auto simp: keeps_rows_def grows_def keeps_blocks_def)

interpretation row_tasks: task_relation keeps_rows
proof unfold_locales
  fix s key v rows c hs
  show "steps keeps_rows (insert_subnetwork s)" "steps keeps_rows (upsert_var key v)" "steps keeps_rows truncate_balances"
    "steps keeps_rows (execute (upsert_balances rows))" "steps keeps_rows (execute (add_deltas c))"
    "steps keeps_rows (delete_transaction_acceptances hs)"
    unfolding upsert_var_def truncate_balances_def add_deltas_def delete_transaction_acceptances_def insert_subnetwork_def
    by (rule keep_rows.steps_execute; auto simp: keeps_rows_def grows_def keeps_blocks_def upsert_balances_def
        split: if_splits)+
next
  fix ids use_tx
  show "steps keeps_rows (insert_address_transactions_from_inputs use_tx ids)"
    "steps keeps_rows (insert_script_transactions_from_inputs use_tx ids)"
    unfolding insert_address_transactions_from_inputs_def insert_script_transactions_from_inputs_def
    by (rule keep_rows.steps_execute; auto simp: insert_selected_def keeps_rows_def grows_def keeps_blocks_def
        split: if_splits prod.splits)+
next
  fix ins look_up
  show "steps keeps_rows (insert_transaction_inputs look_up ins)"
    unfolding insert_transaction_inputs_def
    by (rule keep_rows.steps_execute)
      (auto simp: insert_values_def keeps_rows_def grows_def keeps_blocks_def split: option.splits prod.splits)
next
  fix bs show "steps keeps_rows (insert_blocks bs)"
    by (rule steps_I, frule blocks.ins_only, drule blocks.ins_keeps)
      (auto simp: keeps_rows_def grows_def keeps_blocks_def)
next
  fix bps show "steps keeps_rows (insert_block_parents bps)"
    by (rule steps_I, frule block_parents.ins_only, drule block_parents.ins_keeps)
      (auto simp: keeps_rows_def grows_def keeps_blocks_def)
next
  fix ts show "steps keeps_rows (insert_transactions ts)"
    by (rule steps_I, frule txs.ins_only, drule txs.ins_keeps) (auto simp: keeps_rows_def grows_def keeps_blocks_def)
next
  fix bts show "steps keeps_rows (insert_block_transactions bts)"
    by (rule steps_I, frule block_txs.ins_only, drule block_txs.ins_keeps)
      (auto simp: keeps_rows_def grows_def keeps_blocks_def)
next
  fix outs show "steps keeps_rows (insert_transaction_outputs outs)"
    by (rule steps_I, drule outputs.ins_only) (auto simp: keeps_rows_def grows_def keeps_blocks_def)
next
  fix ats show "steps keeps_rows (insert_address_transactions ats)"
    by (rule steps_I, drule addr_txs.ins_only) (auto simp: keeps_rows_def grows_def keeps_blocks_def)
next
  fix sts show "steps keeps_rows (insert_script_transactions sts)"
    by (rule steps_I, drule script_txs.ins_only) (auto simp: keeps_rows_def grows_def keeps_blocks_def)
next
  fix tas show "steps keeps_rows (insert_transaction_acceptances tas)"
    by (rule steps_I, drule acceptances.ins_only) (auto simp: keeps_rows_def grows_def keeps_blocks_def)
qed

text \<open>The database with the rows that pruner runs have deleted since the start.\<close>

definition with_deleted :: "deleted_rows \<Rightarrow> db \<Rightarrow> db" where
  "with_deleted X d = d\<lparr>t_transactions := t_transactions d @ gone_transactions X,
     t_blocks_transactions := t_blocks_transactions d @ gone_block_txs X,
     t_blocks := t_blocks d @ gone_blocks X, t_block_parent := t_block_parent d @ gone_parents X\<rparr>"

abbreviation all_rows :: "('c, 'd) flow \<Rightarrow> db" where
  "all_rows s \<equiv> with_deleted (fl_deleted s) (data (fl_pool s))"

lemma with_nothing [simp]: "with_deleted nothing_deleted d = d"
  by (simp add: with_deleted_def nothing_deleted_def)

lemma view_with_deleted: "view (with_deleted X)"
  by (auto simp: view_def with_deleted_def grows_def)

lemma keeps_with_deleted: "keeps_rows d d' \<Longrightarrow> keeps_rows (with_deleted X d) (with_deleted X d')"
  by (auto simp: keeps_rows_def with_deleted_def grows_def keeps_blocks_def)

lemma also_deleted_keeps: "keeps_rows (with_deleted X d) (with_deleted (also_deleted d d' X) d')"
  by (auto simp: keeps_rows_def with_deleted_def also_deleted_def grows_def keeps_blocks_def)

text \<open>The block processor and the virtual chain processor never push a transaction checkpoint.\<close>

definition reports :: "checkpoint_block list \<Rightarrow> checkpoint_block list" where
  "reports cs = filter (\<lambda>c. cb_origin c = OriginTransactions) cs"

definition block_origins :: "block_state \<Rightarrow> bool" where
  "block_origins b \<longleftrightarrow> (\<forall>c\<in>set (b_checkpoints b). cb_origin c = OriginBlocks)"

lemma blocks_push_blocks:
  assumes "process_blocks_step L cfg e b p = (Inr (b', mb, pushed), p')" "block_origins b"
  shows "block_origins b' \<and> reports pushed = []"
proof -
  have add: "block_origins b1" if "add_block L cfg bd b = Inr b1" for bd b1
    using that assms(2)
    by (auto simp: add_block_def sbind_Inr_iff Let_def block_origins_def block_checkpoint_def split: if_splits)
  show ?thesis
    using assms(1,2) add
    by (auto simp: process_blocks_step_def bnd_Inr_iff lift_res_def ret_def reports_def block_origins_def
        split: prod.splits option.splits if_splits dest!: commit_blocks_Inr)
qed

lemma chain_pushes_chain:
  assumes "process_virtual_chain_step L sched cfg get_block started response reads t mv v p = (Inr r, p')"
  shows "reports (pushed_by_chain r) = []"
  using assms
  by (auto simp: process_virtual_chain_step_def vcp_commit_def bnd_Inr_iff ret_def throw_def lift_res_def Let_def
      pushed_by_chain_def reports_def split: if_splits option.splits)

text \<open>A block's transactions are in the database.\<close>

definition block_in_db :: "db \<Rightarrow> transaction_data \<Rightarrow> bool" where
  "block_in_db d td \<longleftrightarrow> (\<forall>t\<in>set (td_transactions td). stored d t)"

lemma block_in_db_mono: "block_in_db d td \<Longrightarrow> grows d d' \<Longrightarrow> block_in_db d' td"
  unfolding block_in_db_def by (meson covered_mono subset_refl)

lemma in_batch_grows: "in_batch pend st d \<Longrightarrow> grows d d' \<Longrightarrow> in_batch pend st d'"
  unfolding in_batch_def by (meson covered_mono subset_refl)

lemma steps_keeps: "steps keeps_rows m \<Longrightarrow> m p = (r, p') \<Longrightarrow> keeps_rows (data p) (data p')"
  by (simp add: steps_def)

section \<open>The invariant\<close>

text \<open>What a started program's configuration is.\<close>

definition config_ok :: "task_config \<Rightarrow> bool" where
  "config_ok K \<longleftrightarrow> check_batch_args (tk_args K) = Inr () \<and> tk_capacity K = queue_capacity (tk_args K) \<and> 0 < tk_capacity K
     \<and> configure_tasks (tk_settings K) (tk_capacity K) = Inr K"

definition records_txs :: "task_config \<Rightarrow> bool" where
  "records_txs K \<longleftrightarrow> \<not> is_disabled (tk_args K) TransactionProcessing \<and> \<not> is_disabled (tk_args K) TransactionsTable
     \<and> \<not> is_disabled (tk_args K) BlocksTransactionsTable"

lemma configure_tasks_parts:
  assumes "configure_tasks s capacity = Inr K"
  shows "tk_settings K = s" "tk_capacity K = capacity" "tk_blocks K = block_config_of s (mapper_new (s_cli_args s))"
    "tk_checkpoints K = cp_config_of (s_cli_args s)"
    "tk_txs K = (if is_disabled (s_cli_args s) TransactionProcessing then None
       else Some (tx_config_of (s_cli_args s) (mapper_new (s_cli_args s))))"
  using assms by (auto simp: configure_tasks_def configure_txs_def sbind_Inr_iff Let_def split: if_splits)

lemma config_ok_parts:
  assumes "config_ok K"
  shows "tk_checkpoints K = cp_config_of (tk_args K)" "tk_blocks K = block_config_of (tk_settings K) (mapper_new (tk_args K))"
    and "tk_txs K = None \<longleftrightarrow> is_disabled (tk_args K) TransactionProcessing"
    and "tk_txs K = Some cfg \<Longrightarrow> 1 \<le> tc_batch_concurrency cfg"
    and "tk_txs K = Some cfg \<Longrightarrow> records_txs K \<Longrightarrow> \<not> tc_disable_transactions cfg \<and> \<not> tc_disable_blocks_transactions cfg"
  using assms configure_tasks_parts [of "tk_settings K" "tk_capacity K" K]
  by (auto simp: config_ok_def check_batch_args_Inr tx_config_of_def records_txs_def split: if_splits)

text \<open>The documented behaviour of the other crates.\<close>

definition crates_ok :: "('c \<Rightarrow> hash set) \<Rightarrow> ('d \<Rightarrow> hash set) \<Rightarrow> ('c, 'd) crates \<Rightarrow> bool" where
  "crates_ok keys keys' C \<longleftrightarrow> sched_ok (cr_sched C) \<and> mrg_ok (cr_mrg C)
     \<and> cache_ok (cr_tx_cache C) keys \<and> keys (cr_no_txs C) = {} \<and> cache_ok (cr_fetch_cache C) keys' \<and> keys' (cr_no_blocks C) = {}"

text \<open>
  Four sides of one invariant. What the fetcher has pushed since the start is, in order, what is
  stored (\<open>dn\<close>), what is in the batch, and what is in the queue; a report is of a stored block;
  and before a shutdown the two queues were given the same blocks, every block of the answers
  that is not with the fetcher any more.
\<close>

definition tx_side :: "('c \<Rightarrow> hash set) \<Rightarrow> transaction_data list \<Rightarrow> ('c, 'd) flow \<Rightarrow> bool" where
  "tx_side keys dn s \<longleftrightarrow> cache_sound keys (fl_txs s) (all_rows s)
     \<and> (\<exists>pend. fl_pushed_txs s = dn @ pend @ fl_txs_queue s \<and> in_batch pend (fl_txs s) (all_rows s))
     \<and> (\<forall>td\<in>set dn. block_in_db (all_rows s) td)"

definition cp_side :: "transaction_data list \<Rightarrow> ('c, 'd) flow \<Rightarrow> bool" where
  "cp_side dn s \<longleftrightarrow> set (reports (fl_checkpoint_queue s @ fl_txs_out s)) \<subseteq> checkpoint_of ` set dn
     \<and> reports (fl_blocks_out s) = [] \<and> reports (fl_chain_out s) = []
     \<and> cp_inv (tk_checkpoints (fl_config s)) (td_block_hash ` set dn) (fl_checkpoints s)"

definition block_side :: "('c, 'd) flow \<Rightarrow> bool" where
  "block_side s \<longleftrightarrow> block_origins (fl_blocks s)
     \<and> (\<exists>bdn pend. fl_pushed_blocks s = bdn @ pend @ fl_blocks_queue s
        \<and> block_batch (tk_blocks (fl_config s)) pend (fl_blocks s)
        \<and> (\<forall>bd\<in>set bdn. block_stored (tk_blocks (fl_config s)) (all_rows s) bd))"

definition fetcher_has :: "('c, 'd) flow \<Rightarrow> rpc_block list" where
  "fetcher_has s = (case fl_round s of None \<Rightarrow> [] | Some r \<Rightarrow> with_fetcher r)"

definition fetcher_half :: "('c, 'd) flow \<Rightarrow> hash list" where
  "fetcher_half s = (case fl_round s of None \<Rightarrow> [] | Some r \<Rightarrow> half_pushed r)"

definition fetch_side :: "('d \<Rightarrow> hash set) \<Rightarrow> ('c, 'd) flow \<Rightarrow> bool" where
  "fetch_side keys s \<longleftrightarrow> set (fl_pushed_txs s) \<subseteq> transaction_data_of ` set (fl_returned s)
     \<and> set (fetcher_has s) \<subseteq> set (fl_returned s)
     \<and> (\<not> fl_shutdown s \<longrightarrow> aligned keys (fl_pushed_blocks s) (fl_pushed_txs s) (fl_fetcher s) (fetcher_half s)
        \<and> (\<forall>b\<in>set (fl_session s). b \<in> set (fetcher_has s) \<or> block_hash b \<in> td_block_hash ` set (fl_pushed_txs s)))"

definition flow_inv :: "('c \<Rightarrow> hash set) \<Rightarrow> ('d \<Rightarrow> hash set) \<Rightarrow> ('c, 'd) flow \<Rightarrow> bool" where
  "flow_inv keys keys' s \<longleftrightarrow> config_ok (fl_config s)
     \<and> (records_txs (fl_config s) \<longrightarrow> (\<exists>dn. tx_side keys dn s \<and> cp_side dn s))
     \<and> block_side s \<and> fetch_side keys' s"

section \<open>Each side through the rounds\<close>

lemma tx_side_keeps:
  assumes "tx_side keys dn s" "keeps_rows (all_rows s) (all_rows s')"
    and "fl_txs s' = fl_txs s" "fl_txs_queue s' = fl_txs_queue s @ ts" "fl_pushed_txs s' = fl_pushed_txs s @ ts"
  shows "tx_side keys dn s'"
proof -
  have g: "grows (all_rows s) (all_rows s')" using assms(2) by (simp add: keeps_rows_def)
  from assms(1) obtain pend where i: "cache_sound keys (fl_txs s) (all_rows s)"
    "fl_pushed_txs s = dn @ pend @ fl_txs_queue s" "in_batch pend (fl_txs s) (all_rows s)"
    "\<forall>td\<in>set dn. block_in_db (all_rows s) td" unfolding tx_side_def by blast
  show ?thesis
    using cache_sound_grows [OF i(1) g refl refl] in_batch_grows [OF i(3) g] i(2,4) block_in_db_mono [OF _ g] assms(3-5)
    by (auto simp: tx_side_def)
qed

lemma tx_side_step:
  assumes "crates_ok keys keys' C" "tx_side keys dn s" "pop (fl_txs_queue s) = (popped, q)"
    and cfg: "1 \<le> tc_batch_concurrency cfg" "\<not> tc_disable_transactions cfg" "\<not> tc_disable_blocks_transactions cfg"
    and step: "process_transactions_step L (cr_tx_cache C) (cr_sched C) (cr_mrg C) cfg (popped, t, t') (fl_txs s)
      (fl_pool s) = (Inr (st', mb, pushed), p')"
  shows "\<exists>more. tx_side keys (dn @ more) (s\<lparr>fl_pool := p', fl_metrics := M, fl_txs_queue := q, fl_txs := st',
      fl_txs_out := pushed\<rparr>) \<and> pushed = map checkpoint_of more"
proof -
  from assms(2) obtain pend where i: "cache_sound keys (fl_txs s) (all_rows s)"
    "fl_pushed_txs s = dn @ pend @ fl_txs_queue s" "in_batch pend (fl_txs s) (all_rows s)"
    "\<forall>td\<in>set dn. block_in_db (all_rows s) td" unfolding tx_side_def by blast
  define pend' where "pend' = pend @ (case popped of None \<Rightarrow> [] | Some td \<Rightarrow> [td])"
  have push: "fl_pushed_txs s = dn @ pend' @ q" using i(2) pop_append [OF assms(3)] by (simp add: pend'_def)
  have r: "cache_sound keys st' (with_deleted (fl_deleted s) (data p'))" "grows (data (fl_pool s)) (data p')"
    "pushed = [] \<and> in_batch pend' st' (with_deleted (fl_deleted s) (data p'))
      \<or> pushed = map checkpoint_of pend' \<and> in_batch [] st' (with_deleted (fl_deleted s) (data p')) \<and> (\<forall>td\<in>set pend'. block_in_db (with_deleted (fl_deleted s) (data p')) td)"
    using step_ordered [OF step _ _ _ _ _ _ view_with_deleted i(1,3)] assms(1) cfg unfolding crates_ok_def pend'_def block_in_db_def fst_conv
    by blast+
  have g: "grows (all_rows s) (with_deleted (fl_deleted s) (data p'))"
    using view_with_deleted r(2) by (simp add: view_def)
  have "\<forall>td\<in>set dn. block_in_db (with_deleted (fl_deleted s) (data p')) td" using i(4) block_in_db_mono [OF _ g] by blast
  with r push show ?thesis
    by (elim disjE) (rule exI [of _ "[]"], simp add: tx_side_def, rule exI [of _ pend'], simp add: tx_side_def ball_Un)
qed

lemma block_side_keeps:
  assumes "block_side s" "keeps_rows (all_rows s) (all_rows s')" "fl_blocks s' = fl_blocks s"
    and "fl_config s' = fl_config s" "fl_blocks_queue s' = fl_blocks_queue s @ bs" "fl_pushed_blocks s' = fl_pushed_blocks s @ bs"
  shows "block_side s'"
proof -
  have "block_stored cfg (all_rows s) bd \<Longrightarrow> block_stored cfg (all_rows s') bd" for cfg bd
    using assms(2) block_stored_mono by (auto simp: keeps_rows_def)
  moreover from assms(1) obtain bdn pend where "block_origins (fl_blocks s)"
    "fl_pushed_blocks s = bdn @ pend @ fl_blocks_queue s" "block_batch (tk_blocks (fl_config s)) pend (fl_blocks s)"
    "\<forall>bd\<in>set bdn. block_stored (tk_blocks (fl_config s)) (all_rows s) bd" unfolding block_side_def by blast
  ultimately show ?thesis
    using assms(3-6) unfolding block_side_def by (intro conjI exI [of _ bdn] exI [of _ pend]) simp_all
qed

lemma block_side_step:
  assumes "block_side s" "pop (fl_blocks_queue s) = (popped, q)"
    and step: "process_blocks_step L (tk_blocks (fl_config s)) (popped, t, t') (fl_blocks s) (fl_pool s)
      = (Inr (b', mb, pushed), p')"
  shows "block_side (s\<lparr>fl_pool := p', fl_metrics := M, fl_blocks_queue := q, fl_blocks := b', fl_blocks_out := pushed\<rparr>)
    \<and> reports pushed = []"
proof -
  let ?cfg = "tk_blocks (fl_config s)"
  from assms(1) obtain bdn pend where i: "block_origins (fl_blocks s)"
    "fl_pushed_blocks s = bdn @ pend @ fl_blocks_queue s" "block_batch ?cfg pend (fl_blocks s)"
    "\<forall>bd\<in>set bdn. block_stored ?cfg (all_rows s) bd" unfolding block_side_def by blast
  define pend' where "pend' = pend @ (case popped of None \<Rightarrow> [] | Some bd \<Rightarrow> [bd])"
  have push: "fl_pushed_blocks s = bdn @ pend' @ q" using i(2) pop_append [OF assms(2)] by (simp add: pend'_def)
  have r: "keeps_blocks (data (fl_pool s)) (data p')"
    "pushed = [] \<and> block_batch ?cfg pend' b'
      \<or> pushed = map block_checkpoint pend' \<and> block_batch ?cfg [] b' \<and> (\<forall>bd\<in>set pend'. block_stored ?cfg (data p') bd)"
    using blocks_step_ordered [OF step i(3)] unfolding pend'_def fst_conv by blast+
  let ?d = "with_deleted (fl_deleted s) (data p')"
  have k: "keeps_blocks (all_rows s) ?d" "keeps_blocks (data p') ?d"
    using r(1) by (auto simp: keeps_blocks_def with_deleted_def)
  have d: "\<forall>bd\<in>set bdn. block_stored ?cfg ?d bd" using i(4) block_stored_mono [OF _ k(1)] by blast
  note o = blocks_push_blocks [OF step i(1)]
  from r(2) have "\<exists>bdn pend. fl_pushed_blocks s = bdn @ pend @ q \<and> block_batch ?cfg pend b'
      \<and> (\<forall>bd\<in>set bdn. block_stored ?cfg ?d bd)"
  proof
    assume "pushed = [] \<and> block_batch ?cfg pend' b'"
    with push d show ?thesis by blast
  next
    assume "pushed = map block_checkpoint pend' \<and> block_batch ?cfg [] b' \<and> (\<forall>bd\<in>set pend'. block_stored ?cfg (data p') bd)"
    with push d block_stored_mono [OF _ k(2)] show ?thesis by (intro exI [of _ "bdn @ pend'"] exI [of _ "[]"]) auto
  qed
  then show ?thesis using o by (simp add: block_side_def)
qed

lemma reports_append: "reports (xs @ ys) = reports xs @ reports ys" and reports_Nil [simp]: "reports [] = []"
  by (simp_all add: reports_def)

lemma reports_Cons: "reports (x # xs) = reports [x] @ reports xs"
  by (simp add: reports_def)

lemma reports_of: "reports (map checkpoint_of tds) = map checkpoint_of tds"
  by (auto simp: reports_def checkpoint_of_def intro!: filter_True)

lemma cp_side_more:
  assumes "cp_side dn s" "fl_checkpoints s' = fl_checkpoints s" "fl_config s' = fl_config s"
    and "set (reports (fl_checkpoint_queue s' @ fl_txs_out s'))
      \<subseteq> set (reports (fl_checkpoint_queue s @ fl_txs_out s)) \<union> checkpoint_of ` set extra"
    and "reports (fl_blocks_out s') = []" "reports (fl_chain_out s') = []"
  shows "cp_side (dn @ extra) s'"
  using assms by (auto simp: cp_side_def cp_inv_def)

text \<open>The reports received so far, with the one popped, are of stored blocks.\<close>

lemma cp_side_received:
  assumes "cp_side dn s" "pop (fl_checkpoint_queue s) = (popped, q)"
  shows "received [(popped, ts)] \<subseteq> td_block_hash ` set dn"
proof
  fix h assume "h \<in> received [(popped, ts)]"
  then obtain c where c: "popped = Some c" "cb_origin c = OriginTransactions" "h = cb_hash c"
    by (auto simp: received_def)
  then have "c \<in> set (reports (fl_checkpoint_queue s @ fl_txs_out s))" using assms(2) by (simp add: pop_Some reports_def)
  then obtain td where "td \<in> set dn" "c = checkpoint_of td" using assms(1) unfolding cp_side_def by blast
  with c(3) show "h \<in> td_block_hash ` set dn" by (auto simp: checkpoint_of_def)
qed

lemma cp_side_step:
  assumes "cp_side dn s" "pop (fl_checkpoint_queue s) = (popped, q)"
    and step: "process_checkpoints_step L grp perm (tk_checkpoints (fl_config s)) (popped, ts) (fl_checkpoints s) (fl_pool s)
      = (Inr (k', cp), p')"
  shows "cp_side dn (s\<lparr>fl_pool := p', fl_metrics := M, fl_checkpoint_queue := q, fl_checkpoints := k'\<rparr>)"
proof -
  let ?H = "td_block_hash ` set dn"
  have i: "cp_inv (tk_checkpoints (fl_config s)) ?H (fl_checkpoints s)" using assms(1) by (simp add: cp_side_def)
  from cp_step_inv(1) [OF step i] have "cp_inv (tk_checkpoints (fl_config s)) ?H k'"
    using cp_side_received [OF assms(1,2), of ts] by (simp add: Un_absorb2)
  moreover have "set (reports q) \<subseteq> set (reports (fl_checkpoint_queue s))"
    using pop_append [OF assms(2)] by (auto simp: reports_def)
  ultimately show ?thesis using assms(1) unfolding cp_side_def by (auto simp: reports_append)
qed

lemma fetch_side_same:
  assumes "fetch_side keys s" "fl_fetcher s' = fl_fetcher s" "fl_round s' = fl_round s" "fl_returned s' = fl_returned s"
    and "fl_session s' = fl_session s" "fl_pushed_blocks s' = fl_pushed_blocks s" "fl_pushed_txs s' = fl_pushed_txs s"
    and "fl_shutdown s \<longrightarrow> fl_shutdown s'"
  shows "fetch_side keys s'"
proof -
  have "fetcher_has s' = fetcher_has s" "fetcher_half s' = fetcher_half s"
    by (simp_all add: fetcher_has_def fetcher_half_def assms(3))
  then show ?thesis using assms by (simp add: fetch_side_def) blast
qed

lemma update_tips_cache [simp]: "f_cache (update_tips i n f) = f_cache f"
  by (simp add: update_tips_def split: option.splits)

lemma fetch_side_answer:
  assumes "fetch_side keys s" "fl_round s = None"
  shows "fetch_side keys (s\<lparr>fl_fetcher := update_tips i (length blocks) (fl_fetcher s),
      fl_round := (if 1 < length blocks then Some (round_start blocks f) else None), fl_returned := fl_returned s @ blocks,
      fl_session := fl_session s @ (if 1 < length blocks then blocks else [])\<rparr>)"
  using assms
  by (auto simp: fetch_side_def fetcher_has_def fetcher_half_def with_fetcher_def half_pushed_def round_start_def aligned_def)

lemma fetch_side_over:
  assumes "fetch_side keys s" "fl_round s = Some r" "round_over r"
  shows "fetch_side keys (s\<lparr>fl_fetcher := end_pass t (fl_fetcher s, rd_acc r), fl_round := None, fl_metrics := m\<rparr>)"
  using assms
  by (auto simp: fetch_side_def fetcher_has_def fetcher_half_def with_fetcher_def half_pushed_def round_over_def aligned_def
      end_pass_def)

lemma fetch_side_micro:
  assumes "fetch_side keys s" "cache_ok ops keys" "fl_round s = Some r"
    and step: "fetch_micro ops (fetch_room_of s) (fl_fetcher s, r) = ((f, r'), bs, ts)"
  shows "fetch_side keys (s\<lparr>fl_fetcher := f, fl_round := Some r', fl_blocks_queue := fl_blocks_queue s @ bs,
      fl_txs_queue := fl_txs_queue s @ ts, fl_pushed_blocks := fl_pushed_blocks s @ bs, fl_pushed_txs := fl_pushed_txs s @ ts\<rparr>)"
    (is "fetch_side keys ?s'")
proof -
  have h: "fetcher_has s = with_fetcher r" "fetcher_half s = half_pushed r" "fetcher_has ?s' = with_fetcher r'"
    "fetcher_half ?s' = half_pushed r'" by (simp_all add: fetcher_has_def fetcher_half_def assms(3))
  note b = micro_blocks [OF step]
  have "aligned keys (fl_pushed_blocks s @ bs) (fl_pushed_txs s @ ts) f (half_pushed r')
      \<and> (\<forall>b\<in>set (fl_session s). b \<in> set (with_fetcher r') \<or> block_hash b \<in> td_block_hash ` set (fl_pushed_txs s @ ts))"
    if "\<not> fl_shutdown s"
  proof -
    have sd: "\<not> fr_shutdown (fetch_room_of s)" using that by (simp add: fetch_room_of_def)
    have a: "aligned keys (fl_pushed_blocks s) (fl_pushed_txs s) (fl_fetcher s) (half_pushed r)"
      using assms(1) that unfolding fetch_side_def h by blast
    have "\<forall>b\<in>set (fl_session s). b \<in> set (with_fetcher r) \<or> block_hash b \<in> td_block_hash ` set (fl_pushed_txs s)"
      using assms(1) that unfolding fetch_side_def h by blast
    then show ?thesis using micro_aligned [OF step sd assms(2) a] by auto
  qed
  moreover have "set (fl_pushed_txs s) \<subseteq> transaction_data_of ` set (fl_returned s)" "set (with_fetcher r) \<subseteq> set (fl_returned s)"
    using assms(1) unfolding fetch_side_def h by blast+
  then have "set (fl_pushed_txs s @ ts) \<subseteq> transaction_data_of ` set (fl_returned s)" "set (with_fetcher r') \<subseteq> set (fl_returned s)"
    using b image_mono [of "set (with_fetcher r)" "set (fl_returned s)" transaction_data_of] by auto
  ultimately show ?thesis unfolding fetch_side_def h by simp
qed

section \<open>The invariant through the steps\<close>

lemma flow_inv_start:
  assumes "crates_ok keys keys' C" "program_start L P C returned sv s"
  shows "flow_inv keys keys' s"
  using assms(2)
proof cases
  case (1 perm drain M args as bs st sv' K instant t0 p wall)
  note r = run_main_Inr [OF 1(2)] and k = configure_tasks_parts [OF 1(4)]
  have ok: "config_ok K" using r 1(4) k(1,2) by (simp add: config_ok_def)
  have t: "ts_checkpoints t0 = []" "cache_sound keys t0 (data p)"
    using 1(5) assms(1)
    by (auto simp: start_txs_def idle_txs_def ret_def crates_ok_def tx_start_def bnd_Inr_iff cache_sound_def split: option.splits)
  have "tx_side keys [] s" "cp_side [] s" "block_side s" "fetch_side keys' s"
    using t assms(1) cp_inv_start
    by (simp_all add: 1(1) fresh_flow_def crates_ok_def tx_side_def cp_side_def block_side_def fetch_side_def in_batch_def
        block_batch_def block_origins_def block_start_def fetcher_new_def fetcher_has_def fetcher_half_def aligned_def)
  with ok show ?thesis unfolding flow_inv_def by (auto simp: 1(1) fresh_flow_def)
qed

text \<open>A step that is not one of the transaction processor's.\<close>

lemma flow_inv_quiet:
  assumes "flow_inv keys keys' s" "fl_config s' = fl_config s" "keeps_rows (all_rows s) (all_rows s')"
    and "fl_txs s' = fl_txs s" "fl_txs_queue s' = fl_txs_queue s @ ts" "fl_pushed_txs s' = fl_pushed_txs s @ ts"
    and "block_side s'" "fetch_side keys' s'" "\<And>dn. cp_side dn s \<Longrightarrow> cp_side dn s'"
  shows "flow_inv keys keys' s'"
  using assms tx_side_keeps [OF _ assms(3-6)] unfolding flow_inv_def by metis

lemma flow_inv_txs:
  assumes ck: "crates_ok keys keys' C" and ok: "config_ok (fl_config s)" and cfg: "tk_txs (fl_config s) = Some cfg"
    and pop: "pop (fl_txs_queue s) = (popped, q)" and out: "fl_txs_out s = []"
    and step: "process_transactions_step L (cr_tx_cache C) (cr_sched C) (cr_mrg C) cfg (popped, t, t') (fl_txs s) (fl_pool s)
      = (Inr (st', mb, pushed), p')"
    and i: "records_txs (fl_config s) \<longrightarrow> (\<exists>dn. tx_side keys dn s \<and> cp_side dn s)"
  defines "s' \<equiv> s\<lparr>fl_pool := p', fl_metrics := report_transactions mb (fl_metrics s), fl_txs_queue := q, fl_txs := st',
      fl_txs_out := pushed\<rparr>"
  shows "records_txs (fl_config s') \<longrightarrow> (\<exists>dn. tx_side keys dn s' \<and> cp_side dn s')"
proof
  assume "records_txs (fl_config s')"
  then have r: "records_txs (fl_config s)" by (simp add: s'_def)
  with i obtain dn where d: "tx_side keys dn s" "cp_side dn s" by blast
  have c: "1 \<le> tc_batch_concurrency cfg" "\<not> tc_disable_transactions cfg" "\<not> tc_disable_blocks_transactions cfg"
    using config_ok_parts(4,5) [OF ok cfg] r by auto
  from tx_side_step [OF ck d(1) pop c step] obtain extra where
    e: "tx_side keys (dn @ extra) s'" "pushed = map checkpoint_of extra" unfolding s'_def by blast
  have "cp_side (dn @ extra) s'"
    by (rule cp_side_more [OF d(2)]) (use d(2) in \<open>auto simp: s'_def reports_append reports_of e(2) cp_side_def\<close>)
  with e(1) show "\<exists>dn. tx_side keys dn s' \<and> cp_side dn s'" by blast
qed

lemma flow_inv_step:
  assumes "flow_step L P C s s'" "crates_ok keys keys' C" "flow_inv keys keys' s"
  shows "flow_inv keys keys' s'"
proof -
  have mrg: "mrg_ok (cr_mrg C)" and fc: "cache_ok (cr_fetch_cache C) keys'" using assms(2) by (simp_all add: crates_ok_def)
  have ok: "config_ok (fl_config s)" and b: "block_side s" and f: "fetch_side keys' s"
    and i: "records_txs (fl_config s) \<longrightarrow> (\<exists>dn. tx_side keys dn s \<and> cp_side dn s)"
    using assms(3) unfolding flow_inv_def by blast+
  note refl = keep_rows.R_refl and quiet = flow_inv_quiet [OF assms(3)]
    and same = block_side_keeps [OF b, where bs = "[]"] fetch_side_same [OF f]
  show ?thesis
    using assms(1)
  proof cases
    case (Answer j blocks g)
    show ?thesis
    proof (rule quiet [where ts = "[]"])
      show "block_side s'" by (rule same(1)) (simp_all add: Answer(1) refl)
      show "fetch_side keys' s'" unfolding Answer(1,5) by (rule fetch_side_answer [OF f Answer(2)])
    qed (simp_all add: Answer(1) refl cp_side_def)
  next
    case (Fetch r g r' bs ts)
    show ?thesis
    proof (rule quiet [where ts = ts])
      show "block_side s'" by (rule block_side_keeps [OF b, where bs = bs]) (simp_all add: Fetch(1) refl)
      show "fetch_side keys' s'" unfolding Fetch(1) by (rule fetch_side_micro [OF f fc Fetch(2,3)])
    qed (simp_all add: Fetch(1) refl cp_side_def)
  next
    case (Fetched r m t)
    show ?thesis
    proof (rule quiet [where ts = "[]"])
      show "block_side s'" by (rule same(1)) (simp_all add: Fetched(1) refl)
      show "fetch_side keys' s'" unfolding Fetched(1) by (rule fetch_side_over [OF f Fetched(2,3)])
    qed (simp_all add: Fetched(1) refl cp_side_def)
  next
    case (Blocks popped q t t' b' mb pushed p')
    have k: "keeps_rows (all_rows s) (with_deleted (fl_deleted s) (data p'))"
      by (rule keeps_with_deleted [OF steps_keeps [OF row_tasks.task_blocks Blocks(4)]])
    note r = block_side_step [OF b Blocks(3,4)]
    show ?thesis
    proof (rule quiet [where ts = "[]"])
      show "fetch_side keys' s'" by (rule same(2)) (simp_all add: Blocks(1))
    qed (use r in \<open>simp_all add: Blocks(1) k cp_side_def\<close>)
  next
    case (BlocksPush c cs)
    show ?thesis
    proof (rule quiet [where ts = "[]"])
      show "block_side s'" by (rule same(1)) (simp_all add: BlocksPush(1) refl)
      show "fetch_side keys' s'" by (rule same(2)) (simp_all add: BlocksPush(1))
    qed (use reports_Cons [of c cs] reports_Cons [of c "fl_txs_out s"] in \<open>auto simp: BlocksPush(1,2) refl cp_side_def reports_append\<close>)
  next
    case (Transactions cfg popped q t t' st' mb pushed p')
    have k: "keeps_rows (all_rows s) (with_deleted (fl_deleted s) (data p'))"
      by (rule keeps_with_deleted [OF steps_keeps [OF row_tasks.task_transactions [OF mrg] Transactions(5)]])
    have "block_side s'" by (rule same(1)) (simp_all add: Transactions(1) k)
    moreover have "fetch_side keys' s'" by (rule same(2)) (simp_all add: Transactions(1))
    moreover note flow_inv_txs [OF assms(2) ok Transactions(2,4,3,5) i]
    ultimately show ?thesis using ok unfolding flow_inv_def by (simp add: Transactions(1))
  next
    case (TransactionsPush c cs)
    show ?thesis
    proof (rule quiet [where ts = "[]"])
      show "block_side s'" by (rule same(1)) (simp_all add: TransactionsPush(1) refl)
      show "fetch_side keys' s'" by (rule same(2)) (simp_all add: TransactionsPush(1))
    qed (simp_all add: TransactionsPush(1,2) refl cp_side_def)
  next
    case (Chain cfg get_block response reads t r p')
    have k: "keeps_rows (all_rows s) (with_deleted (fl_deleted s) (data p'))"
      by (rule keeps_with_deleted [OF steps_keeps [OF row_tasks.task_chain Chain(4)]])
    show ?thesis
    proof (rule quiet [where ts = "[]"])
      show "block_side s'" by (rule same(1)) (simp_all add: Chain(1) k)
      show "fetch_side keys' s'" by (rule same(2)) (simp_all add: Chain(1))
    qed (use chain_pushes_chain [OF Chain(4)] in \<open>simp_all add: Chain(1) k cp_side_def\<close>)
  next
    case (ChainPush c cs)
    show ?thesis
    proof (rule quiet [where ts = "[]"])
      show "block_side s'" by (rule same(1)) (simp_all add: ChainPush(1) refl)
      show "fetch_side keys' s'" by (rule same(2)) (simp_all add: ChainPush(1))
    qed (use reports_Cons [of c cs] reports_Cons [of c "fl_txs_out s"] in \<open>auto simp: ChainPush(1,2) refl cp_side_def reports_append\<close>)
  next
    case (Checkpoint popped q grp perm ts k' cp p')
    have k: "keeps_rows (all_rows s) (with_deleted (fl_deleted s) (data p'))"
      by (rule keeps_with_deleted [OF steps_keeps [OF row_tasks.task_checkpoints Checkpoint(3)]])
    show ?thesis
    proof (rule quiet [where ts = "[]"])
      show "block_side s'" by (rule same(1)) (simp_all add: Checkpoint(1) k)
      show "fetch_side keys' s'" by (rule same(2)) (simp_all add: Checkpoint(1))
      show "cp_side dn s'" if "cp_side dn s" for dn unfolding Checkpoint(1) by (rule cp_side_step [OF that Checkpoint(2,3)])
    qed (simp_all add: Checkpoint(1) k)
  next
    case (Pruner show_duration m cfg)
    show ?thesis
    proof (rule quiet [where ts = "[]"])
      show "block_side s'" by (rule same(1)) (simp_all add: Pruner(1) refl)
      show "fetch_side keys' s'" by (rule same(2)) (simp_all add: Pruner(1))
    qed (simp_all add: Pruner(1) refl cp_side_def)
  next
    case (PruneBegin cfg e ps)
    show ?thesis
    proof (rule quiet [where ts = "[]"])
      show "block_side s'" by (rule same(1)) (simp_all add: PruneBegin(1) refl)
      show "fetch_side keys' s'" by (rule same(2)) (simp_all add: PruneBegin(1))
    qed (simp_all add: PruneBegin(1) refl cp_side_def)
  next
    case (PrunePart cfg js j js' e r ps)
    show ?thesis
    proof (rule quiet [where ts = "[]"])
      show "block_side s'" by (rule same(1)) (simp_all add: PrunePart(1) also_deleted_keeps)
      show "fetch_side keys' s'" by (rule same(2)) (simp_all add: PrunePart(1))
    qed (simp_all add: PrunePart(1) also_deleted_keeps cp_side_def)
  next
    case Shutdown
    show ?thesis
    proof (rule quiet [where ts = "[]"])
      show "block_side s'" by (rule same(1)) (simp_all add: Shutdown refl)
      show "fetch_side keys' s'" by (rule same(2)) (simp_all add: Shutdown)
    qed (simp_all add: Shutdown refl cp_side_def)
  next
    case (Restart sv sv1)
    then show ?thesis using flow_inv_start [OF assms(2)] by blast
  qed
qed

lemma flow_inv_reached:
  assumes "(flow_step L P C)\<^sup>*\<^sup>* s0 s" "flow_start L P C s0" "crates_ok keys keys' C"
  shows "flow_inv keys keys' s"
  using assms(1)
proof (induction rule: rtranclp_induct)
  case base
  from assms(2) show ?case using flow_inv_start [OF assms(3)] unfolding flow_start_def by blast
next
  case (step s s')
  then show ?case using flow_inv_step assms(3) by blast
qed

text \<open>Without \<open>--prune-db\<close> no row is ever deleted by a pruner run.\<close>

definition unpruned :: "('c, 'd) flow \<Rightarrow> bool" where
  "unpruned s \<longleftrightarrow> (prune_db (pruning (tk_args (fl_config s))) = None \<longrightarrow> fl_pruning s = None \<and> fl_deleted s = nothing_deleted)"

lemma unpruned_start: "program_start L P C returned sv s \<Longrightarrow> unpruned s"
  by (auto simp: unpruned_def fresh_flow_def elim!: program_startE)

lemma pruner_on: "pruner show_duration args m = (m', Some cfg) \<Longrightarrow> prune_db (pruning args) \<noteq> None"
  by (simp add: pruner_def split: option.splits)

lemma unpruned_step: "flow_step L P C s s' \<Longrightarrow> unpruned s \<Longrightarrow> unpruned s'"
  by (erule flow_step.cases) (auto simp: unpruned_def dest: unpruned_start pruner_on)

lemma unpruned_reached:
  assumes "(flow_step L P C)\<^sup>*\<^sup>* s0 s" "flow_start L P C s0"
  shows "unpruned s"
  using assms(1)
proof (induction rule: rtranclp_induct)
  case base
  from assms(2) show ?case by (auto simp: flow_start_def intro: unpruned_start)
qed (rule unpruned_step)

end
