(* ===== verification/Checkpoint_Live.thy ===== *)
theory Checkpoint_Live
  imports Checkpoint Success
begin

text \<open>
  The checkpoint task makes progress: on a healthy connection, and with no negative amount
  among the outputs, no round of it panics. Its balance update may fail in the database, which
  the task survives; so the calculus of \<open>Success\<close> is extended by what an operation may end with
  when it fails.
\<close>

section \<open>Operations that may fail\<close>

definition behaves :: "(db \<Rightarrow> bool) \<Rightarrow> (pool, 'e, 'a) sem \<Rightarrow> ('a \<Rightarrow> bool) \<Rightarrow> ('e \<Rightarrow> bool) \<Rightarrow> bool" where
  "behaves I m Q E \<longleftrightarrow> (\<forall>p. healthy p \<and> I (data p) \<longrightarrow>
     (\<exists>r p'. m p = (r, p') \<and> healthy p' \<and> I (data p') \<and> (case r of Inl e \<Rightarrow> E e | Inr a \<Rightarrow> Q a)))"

lemma behaves_ret: "Q a \<Longrightarrow> behaves I (ret a) Q E"
  by (simp add: behaves_def ret_def)

lemma behaves_lift: "(case r of Inl e \<Rightarrow> E e | Inr a \<Rightarrow> Q a) \<Longrightarrow> behaves I (lift_res r) Q E"
  by (simp add: behaves_def lift_res_def)

lemma behaves_bnd:
  assumes "behaves I m Q E" "\<And>a. Q a \<Longrightarrow> behaves I (f a) R E"
  shows "behaves I (bnd m f) R E"
  unfolding behaves_def
proof (intro allI impI)
  fix p assume "healthy p \<and> I (data p)"
  with assms(1) obtain r p' where r: "m p = (r, p')" "healthy p'" "I (data p')" "case r of Inl e \<Rightarrow> E e | Inr a \<Rightarrow> Q a"
    unfolding behaves_def by blast
  show "\<exists>r p'. bnd m f p = (r, p') \<and> healthy p' \<and> I (data p') \<and> (case r of Inl e \<Rightarrow> E e | Inr a \<Rightarrow> R a)"
  proof (cases r)
    case (Inl e)
    with r show ?thesis by (simp add: bnd_def)
  next
    case (Inr a)
    with r(4) assms(2) [of a] r(2,3) have "\<exists>r p''. f a p' = (r, p'') \<and> healthy p'' \<and> I (data p'')
        \<and> (case r of Inl e \<Rightarrow> E e | Inr a \<Rightarrow> R a)" unfolding behaves_def by simp
    with r(1) Inr show ?thesis by (simp add: bnd_def)
  qed
qed

definition by_database :: "failure \<Rightarrow> bool" where
  "by_database e \<longleftrightarrow> (\<exists>x. e = DbFailed x)"

lemma behaves_execute:
  assumes "\<And>d a d'. I d \<Longrightarrow> stmt d = Inr (a, d') \<Longrightarrow> I d' \<and> Q a"
  shows "behaves I (db_call (execute stmt)) Q by_database"
  using assms
  by (auto simp: behaves_def db_call_def execute_healthy by_database_def split: sum.splits prod.splits)

lemma behaves_query:
  assumes "\<And>d a. I d \<Longrightarrow> q d = Inr a \<Longrightarrow> Q a"
  shows "behaves I (db_call (query q)) Q by_database"
  using assms by (auto simp: behaves_def db_call_def query_healthy by_database_def split: sum.splits)

lemma behaves_sum_loop:
  "(\<And>x. behaves I (op x) (\<lambda>_. True) E) \<Longrightarrow> behaves I (sum_loop op xs acc) (\<lambda>_. True) E"
  by (induction xs arbitrary: acc) (auto intro!: behaves_ret behaves_bnd)

section \<open>The balance update does not overflow\<close>

definition amounts_ok :: "db \<Rightarrow> bool" where
  "amounts_ok d \<longleftrightarrow> (\<forall>r\<in>set (t_outputs d). \<forall>x. out_amount r = Some x \<longrightarrow> 0 \<le> x)"

definition sums_ok :: "(string \<times> int) list \<Rightarrow> bool" where
  "sums_ok xs \<longleftrightarrow> distinct (map fst xs) \<and> (\<forall>(a, x)\<in>set xs. 0 \<le> x \<and> x < 2 ^ 63)"

lemma total_nonneg: "\<forall>r\<in>set rows. \<forall>x. snd r = Some x \<longrightarrow> 0 \<le> x \<Longrightarrow> 0 \<le> total_of a rows"
  by (induction rows) (auto split: option.splits)

lemma group_sums_ok:
  assumes "group_sums (\<lambda>xs. xs) rows = Inr totals" "\<forall>r\<in>set rows. \<forall>x. snd r = Some x \<longrightarrow> 0 \<le> x"
  shows "sums_ok totals"
  using assms(1) total_nonneg [OF assms(2)]
  by (auto simp: group_sums_def Let_def sums_ok_def in_signed_def o_def split: if_splits)

lemma rows_amounts:
  assumes "amounts_ok d"
  shows "\<forall>r\<in>set (created_rows win d). \<forall>x. snd r = Some x \<longrightarrow> 0 \<le> x"
    and "\<forall>r\<in>set (spent_rows win d). \<forall>x. snd r = Some x \<longrightarrow> 0 \<le> x"
  using assms by (auto simp: created_rows_def spent_rows_def amounts_ok_def split: option.splits if_splits)

lemma update_fresh: "a \<notin> fst ` set agg \<Longrightarrow> AList.update a x agg = agg @ [(a, x)]"
  by (induction agg) auto

lemma aggregate_created:
  assumes "distinct (map fst xs)" "\<forall>(a, x)\<in>set xs. in_signed 64 x" "fst ` set xs \<inter> fst ` set agg = {}"
  shows "aggregate agg (map (\<lambda>(a, x). balance_new a x) xs @ bs) = aggregate (agg @ xs) bs"
  using assms
proof (induction xs arbitrary: agg)
  case (Cons r xs)
  obtain a x where r: "r = (a, x)" by (cases r)
  have "map_of agg a = None" "AList.update a x agg = agg @ [(a, x)]"
    using Cons.prems(3) by (auto simp: r map_of_eq_None_iff intro!: update_fresh)
  moreover have "aggregate (agg @ [(a, x)]) (map (\<lambda>(a, x). balance_new a x) xs @ bs) = aggregate ((agg @ [(a, x)]) @ xs) bs"
    by (rule Cons.IH) (use Cons.prems in \<open>auto simp: r\<close>)
  ultimately show ?case using Cons.prems(2) by (simp add: r balance_new_def)
qed simp

lemma aggregate_spent:
  assumes "sums_ok ys" "\<And>a v. a \<in> fst ` set ys \<Longrightarrow> map_of agg a = Some v \<Longrightarrow> 0 \<le> v \<and> v < 2 ^ 63"
  shows "\<exists>agg'. aggregate agg (map (\<lambda>(a, y). balance_new a (- y)) ys) = Inr agg'"
  using assms
proof (induction ys arbitrary: agg)
  case (Cons r ys)
  obtain a y where r: "r = (a, y)" by (cases r)
  have y: "0 \<le> y" "y < 2 ^ 63" "sums_ok ys" "a \<notin> fst ` set ys" using Cons.prems(1) by (auto simp: r sums_ok_def)
  define s where "s = (case map_of agg a of None \<Rightarrow> 0 | Some v \<Rightarrow> v) + - y"
  have s: "in_signed 64 s"
    using Cons.prems(2) [of a] y(1,2) by (auto simp: s_def r in_signed_def split: option.splits)
  have "\<exists>agg'. aggregate (AList.update a s agg) (map (\<lambda>(a, y). balance_new a (- y)) ys) = Inr agg'"
    by (rule Cons.IH [OF y(3)]) (use Cons.prems(2) y(4) in \<open>auto simp: r update_conv' split: if_splits\<close>)
  with s show ?case by (simp add: r balance_new_def s_def)
qed simp

lemma changes_aggregate:
  assumes "sums_ok created" "sums_ok spent" "changes_of created spent = r"
  shows "\<exists>ds. r = Inr ds \<and> (\<forall>b\<in>set ds. bal_balance b \<noteq> - (2 ^ 63)) \<and> (\<exists>agg. aggregate [] ds = Inr agg)"
proof -
  let ?c = "filter (\<lambda>(_, x). x \<noteq> 0) created" and ?s = "filter (\<lambda>(_, x). x \<noteq> 0) spent"
  have ok: "sums_ok ?c" "sums_ok ?s" using assms(1,2) by (auto simp: sums_ok_def distinct_map_filter)
  let ?ds = "map (\<lambda>(a, x). balance_new a x) ?c @ map (\<lambda>(a, x). balance_new a (- x)) ?s"
  have "\<forall>r\<in>set spent. snd r \<noteq> - (2 ^ 63)" using assms(2) by (auto simp: sums_ok_def)
  then have "r = Inr ?ds" using assms(3) by (auto simp: changes_of_def)
  moreover have "0 \<le> x \<and> x < 2 ^ 63" if "(a, x) \<in> set ?c \<or> (a, x) \<in> set ?s" for a x
    using ok that by (fastforce simp: sums_ok_def)
  then have "\<forall>b\<in>set ?ds. bal_balance b \<noteq> - (2 ^ 63)" by (force simp: balance_new_def)
  moreover have "aggregate [] ?ds = aggregate ?c (map (\<lambda>(a, x). balance_new a (- x)) ?s)"
    using aggregate_created [of ?c "[]" "map (\<lambda>(a, x). balance_new a (- x)) ?s"] ok(1) by (simp add: sums_ok_def in_signed_def) fastforce
  moreover have "\<exists>agg. aggregate ?c (map (\<lambda>(a, x). balance_new a (- x)) ?s) = Inr agg"
    by (rule aggregate_spent [OF ok(2)]) (use ok(1) in \<open>auto simp: sums_ok_def dest!: map_of_SomeD\<close>)
  ultimately show ?thesis by metis
qed

section \<open>A round of the checkpoint task\<close>

text \<open>An invariant that looks at none of the tables the task writes.\<close>

definition ignores_saved :: "(db \<Rightarrow> bool) \<Rightarrow> bool" where
  "ignores_saved I \<longleftrightarrow> (\<forall>d x. I (d\<lparr>t_vars := x\<rparr>) = I d) \<and> (\<forall>d x. I (d\<lparr>t_balances := x\<rparr>) = I d)"

lemma changes_behave:
  assumes "\<And>d. I d \<Longrightarrow> amounts_ok d"
  shows "behaves I (db_call (select_changes L (\<lambda>xs. xs) created_rows from to)) sums_ok by_database"
    and "behaves I (db_call (select_changes L (\<lambda>xs. xs) spent_rows from to)) sums_ok by_database"
proof -
  have c: "sums_ok xs" if "I d" "group_sums (\<lambda>xs. xs) (created_rows w d) = Inr xs" for xs w d
    by (rule group_sums_ok [OF that(2) rows_amounts(1) [OF assms [OF that(1)]]])
  have s: "sums_ok xs" if "I d" "group_sums (\<lambda>xs. xs) (spent_rows w d) = Inr xs" for xs w d
    by (rule group_sums_ok [OF that(2) rows_amounts(2) [OF assms [OF that(1)]]])
  show "behaves I (db_call (select_changes L (\<lambda>xs. xs) created_rows from to)) sums_ok by_database"
    "behaves I (db_call (select_changes L (\<lambda>xs. xs) spent_rows from to)) sums_ok by_database"
    unfolding select_changes_def by (auto intro!: behaves_query dest: c s split: option.splits)
qed

lemma incremental_behaves:
  assumes "ignores_saved I" "aggregate [] ds = Inr agg"
  shows "behaves I (update_balances_incremental perm ds) (\<lambda>_. True) by_database"
proof -
  have "behaves I (db_call (execute (add_deltas c))) (\<lambda>_. True) by_database" for c
    using assms(1)
    by (intro behaves_execute) (auto simp: add_deltas_def upsert_balances_def ignores_saved_def split: if_splits)
  then show ?thesis
    using assms(2)
    by (auto simp: update_balances_incremental_def Let_def
        intro!: behaves_ret behaves_sum_loop behaves_bnd [where Q = "\<lambda>_. True"] behaves_lift)
qed

lemma update_behaves:
  assumes "ignores_saved I" "\<And>d. I d \<Longrightarrow> amounts_ok d"
  shows "behaves I (update_balances_from_utxo_changes L (\<lambda>xs. xs) perm from to) (\<lambda>_. True) by_database"
  unfolding update_balances_from_utxo_changes_def
proof (rule behaves_bnd [OF changes_behave(1)], use assms(2) in blast, rule behaves_bnd [OF changes_behave(2)], use assms(2) in blast)
  fix created spent assume ok: "sums_ok created" "sums_ok spent"
  from changes_aggregate [OF ok refl] obtain ds agg where ds: "changes_of created spent = Inr ds"
    "\<forall>b\<in>set ds. bal_balance b \<noteq> - (2 ^ 63)" "aggregate [] ds = Inr agg" by blast
  show "behaves I (bnd (lift_res (changes_of created spent)) (\<lambda>deltas.
     if deltas = [] then ret ()
     else if 1 < length deltas \<and> (\<exists>b\<in>set deltas. bal_balance b = - (2 ^ 63))
     then throw (Crash (Panic ''attempt to negate with overflow''))
     else bnd (update_balances_incremental perm deltas) (\<lambda>_. ret ()))) (\<lambda>_. True) by_database"
    by (rule behaves_bnd [where Q = "\<lambda>x. x = ds"], rule behaves_lift, simp add: ds(1))
      (use ds(2) in \<open>auto intro!: behaves_ret behaves_bnd [OF incremental_behaves [OF assms(1) ds(3)]]\<close>)
qed

lemma try_update_works:
  assumes "ignores_saved I" "\<And>d. I d \<Longrightarrow> amounts_ok d"
  shows "works I (try_update_balances L (\<lambda>xs. xs) perm previous h) (\<lambda>_. True)"
  unfolding works_def
proof (intro allI impI)
  fix p assume p: "healthy p \<and> I (data p)"
  show "\<exists>a p'. try_update_balances L (\<lambda>xs. xs) perm previous h p = (Inr a, p') \<and> healthy p' \<and> I (data p') \<and> True"
  proof (cases previous)
    case (Some prev)
    from update_behaves [OF assms, of L perm prev h] p obtain r p' where
      "update_balances_from_utxo_changes L (\<lambda>xs. xs) perm prev h p = (r, p')" "healthy p'" "I (data p')"
      "case r of Inl e \<Rightarrow> by_database e | Inr a \<Rightarrow> True" unfolding behaves_def by blast
    with Some show ?thesis by (auto simp: try_update_balances_def by_database_def split: sum.splits)
  qed (use p in \<open>simp add: try_update_balances_def\<close>)
qed

lemma try_save_works: "ignores_saved I \<Longrightarrow> works I (try_save h) (\<lambda>_. True)"
  by (auto simp: works_def try_save_def save_checkpoint_def upsert_var_def execute_healthy ignores_saved_def
      split: sum.splits prod.splits)

definition cp_time_ok :: "libs \<Rightarrow> checkpoint_block \<Rightarrow> bool" where
  "cp_time_ok L c \<longleftrightarrow> millis_ok L (as_i64 (cb_timestamp c))"

definition candidate_ok :: "libs \<Rightarrow> cp_state \<Rightarrow> bool" where
  "candidate_ok L k \<longleftrightarrow> (\<forall>c\<in>set_option (k_candidate k). cp_time_ok L c)"

lemma candidate_step:
  assumes "process_checkpoints_step L grp perm cfg (popped, ts) k p = (Inr (k', m), p')"
    and "candidate_ok L k" "\<forall>c\<in>set_option popped. cp_time_ok L c"
  shows "candidate_ok L k'"
  using assms
  by (auto simp: process_checkpoints_step_def candidate_ok_def Let_def bnd_Inr_iff ret_def test_candidate_def receive_def
      propose_def dest!: save_candidate_Inr split: option.splits if_splits checkpoint_origin.splits)

lemma checkpoint_step_works:
  assumes "ignores_saved I" "\<And>d. I d \<Longrightarrow> amounts_ok d" "candidate_ok L k" "\<forall>c\<in>set_option popped. cp_time_ok L c"
  shows "works I (process_checkpoints_step L (\<lambda>xs. xs) perm cfg (popped, ts) k) (\<lambda>_. True)"
proof -
  define k1 where "k1 = (case popped of None \<Rightarrow> k | Some c \<Rightarrow> receive cfg (at_pop ts) c k)"
  have k1: "candidate_ok L k1"
    using assms(3,4) by (auto simp: k1_def candidate_ok_def receive_def propose_def split: option.splits checkpoint_origin.splits)
  have save: "works I (save_candidate L (\<lambda>xs. xs) perm force now c k2) (\<lambda>_. True)" if "cp_time_ok L c" for force now c k2
    unfolding save_candidate_def Let_def
    by (rule works_bnd [OF try_update_works [OF assms(1,2)]], assumption, rule works_bnd [OF try_save_works [OF assms(1)]])
      (use that in \<open>auto simp: metrics_block_of_def cp_time_ok_def intro!: works_lift_bnd works_ret\<close>)
  show ?thesis
    unfolding process_checkpoints_step_def k1_def [symmetric] prod.case Let_def
    using k1 by (auto simp: candidate_ok_def intro!: works_ret works_bnd [OF save] split: option.splits)
qed

end
