(* ===== verification/Flow_Live.thy ===== *)
theory Flow_Live
  imports Flow_Inv Process_Tx_Live Process_Blocks_Live Checkpoint_Live
begin

text \<open>
  The running program never locks up, whatever the pruner does: from every state it reaches, as long as no shutdown is
  signalled, the connection is healthy and the node's data fit the columns, its tasks can go on
  until the fetcher has finished its answer and the queues are empty. What the processors, the
  queues and the checkpoint task hold is good (\<open>live_side\<close>) in every state; so in each there is
  a step that brings the end nearer.
\<close>

section \<open>Good data everywhere\<close>

definition block_good :: "libs \<Rightarrow> rpc_block \<Rightarrow> bool" where
  "block_good L b \<longleftrightarrow> rb_verbose b \<noteq> None \<and> block_ok L (transaction_data_of b)"

lemma block_good_data:
  "block_good L b \<Longrightarrow> block_data_ok L (block_data_of f b)" "block_good L b \<Longrightarrow> block_ok L (transaction_data_of b)"
  "block_good L b \<Longrightarrow> millis_ok L (as_i64 (h_timestamp (rb_header b)))"
  by (simp_all add: block_good_def block_data_ok_def block_data_of_def block_ok_def times_ok_def transaction_data_of_def)

definition fetcher_good :: "libs \<Rightarrow> ('c, 'd) flow \<Rightarrow> bool" where
  "fetcher_good L s \<longleftrightarrow> (\<forall>r\<in>set_option (fl_round s). block_good L (rd_last r) \<and> (\<forall>b\<in>set (with_fetcher r). block_good L b))"

definition queues_good :: "libs \<Rightarrow> ('c, 'd) flow \<Rightarrow> bool" where
  "queues_good L s \<longleftrightarrow> (\<forall>bd\<in>set (fl_blocks_queue s). block_data_ok L bd) \<and> (\<forall>td\<in>set (fl_txs_queue s). block_ok L td)
     \<and> (\<forall>c\<in>set (fl_checkpoint_queue s @ fl_blocks_out s @ fl_txs_out s @ fl_chain_out s). cp_time_ok L c)"

definition tasks_good :: "libs \<Rightarrow> ('c, 'd) flow \<Rightarrow> bool" where
  "tasks_good L s \<longleftrightarrow> blocks_live L (fl_blocks s) \<and> candidate_ok L (fl_checkpoints s)
     \<and> (\<forall>cfg. tk_txs (fl_config s) = Some cfg \<longrightarrow> batch_live True L cfg (fl_txs s))"

definition live_side :: "libs \<Rightarrow> ('c, 'd) flow \<Rightarrow> bool" where
  "live_side L s \<longleftrightarrow> fetcher_good L s \<and> queues_good L s \<and> tasks_good L s"

definition session_good :: "libs \<Rightarrow> ('c, 'd) flow \<Rightarrow> bool" where
  "session_good L s \<longleftrightarrow> (\<forall>b\<in>set (fl_session s). block_good L b)"

text \<open>Resolving the inputs needs their outpoints.\<close>

definition resolvable :: "task_config \<Rightarrow> bool" where
  "resolvable K \<longleftrightarrow> \<not> (is_enabled (tk_args K) TransactionsInputsResolve \<and> is_excluded (tk_args K) TxInPreviousOutpoint)"

lemma queue_capacity_NaN: "batch_scale args = NaN \<Longrightarrow> queue_capacity args = 0"
  by (simp add: queue_capacity_def)

lemma config_ok_live:
  assumes "config_ok K" "resolvable K" "tk_txs K = Some cfg"
  shows "config_live cfg" "scale_ok (bc_batch_scale (tk_blocks K))"
proof -
  have n: "batch_scale (tk_args K) \<noteq> NaN" and c: "check_batch_args (tk_args K) = Inr ()"
    using assms(1) queue_capacity_NaN [of "tk_args K"] by (auto simp: config_ok_def)
  have "cfg = tx_config_of (tk_args K) (mapper_new (tk_args K))"
    using assms(1,3) configure_tasks_parts(5) [of "tk_settings K" "tk_capacity K" K] by (auto simp: config_ok_def split: if_splits)
  then show "config_live cfg" using config_of_live [OF c n] assms(2) by (simp add: resolvable_def)
  show "scale_ok (bc_batch_scale (tk_blocks K))"
    using config_ok_parts(2) [OF assms(1)] c n by (simp add: block_config_of_def check_batch_args_Inr)
qed

section \<open>Every step keeps the data good\<close>

lemma micro_good:
  assumes "fetch_micro ops room (f, r) = ((f', r'), bs, ts)" "\<forall>b\<in>set (with_fetcher r). block_good L b"
  shows "\<forall>b\<in>set (with_fetcher r'). block_good L b" "\<forall>bd\<in>set bs. block_data_ok L bd" "\<forall>td\<in>set ts. block_ok L td"
    and "rd_last r' = rd_last r"
  using assms
  by (auto simp: fetch_micro_def with_fetcher_def block_good_data split: fetch_stage.splits list.splits if_splits prod.splits)

lemma blocks_step_live:
  assumes "process_blocks_step L cfg (popped, t, t') b p = (Inr (b', mb, pushed), p')"
    and "blocks_live L b" "\<forall>bd\<in>set_option popped. block_data_ok L bd"
  shows "blocks_live L b' \<and> (\<forall>c\<in>set pushed. cp_time_ok L c)"
proof (cases popped)
  case None
  then show ?thesis using assms(1,2) by (simp add: process_blocks_step_def ret_def)
next
  case (Some bd)
  with assms(3) add_block_live [OF _ assms(2), of bd cfg] obtain b1 where
    b1: "add_block L cfg bd b = Inr b1" "blocks_live L b1" by auto
  show ?thesis
    using assms(1) b1 Some
    by (auto simp: process_blocks_step_def bnd_Inr_iff lift_res_def ret_def blocks_live_def cp_time_ok_def split: if_splits
        dest!: commit_blocks_Inr)
qed

lemma chain_push_times:
  assumes "process_virtual_chain_step L sched cfg get_block started response reads t mv v p = (Inr r, p')"
  shows "\<forall>c\<in>set (pushed_by_chain r). cp_time_ok L c"
  using assms
  by (auto simp: process_virtual_chain_step_def vcp_commit_def bnd_Inr_iff ret_def throw_def lift_res_def Let_def
      pushed_by_chain_def cp_time_ok_def metrics_block_of_def split: if_splits option.splits)

lemma live_side_start: "program_start L P C returned sv s \<Longrightarrow> live_side L s"
  by (auto simp: live_side_def fetcher_good_def queues_good_def tasks_good_def fresh_flow_def blocks_live_def block_start_def
      candidate_ok_def cp_start_def batch_live_def start_txs_def idle_txs_def tx_start_def bnd_Inr_iff ret_def
      split: option.splits elim!: program_startE)

text \<open>A step other than a restart: what it popped or fetched was good, so is what it hands on.\<close>

lemma live_side_step:
  assumes "flow_step L P C s s'" "live_side L s" "session_good L s'"
    and cfg: "\<And>cfg. tk_txs (fl_config s) = Some cfg \<Longrightarrow> config_live cfg"
  shows "live_side L s'"
proof -
  have f: "fetcher_good L s" and q: "queues_good L s" and t: "tasks_good L s" using assms(2) by (simp_all add: live_side_def)
  show ?thesis
    using assms(1)
  proof cases
    case (Answer i blocks g)
    have "\<forall>b\<in>set blocks. block_good L b" if "1 < length blocks" using assms(3) that by (auto simp: Answer(1) session_good_def)
    moreover have "last blocks \<in> set blocks" if "1 < length blocks" using that by (intro last_in_set) auto
    ultimately have "fetcher_good L s'"
      by (auto simp: Answer(1) fetcher_good_def round_start_def with_fetcher_def)
    with q t show ?thesis by (simp add: live_side_def Answer(1) queues_good_def tasks_good_def)
  next
    case (Fetch r g r' bs ts)
    from f Fetch(2) have r: "\<forall>b\<in>set (with_fetcher r). block_good L b" "block_good L (rd_last r)" by (simp_all add: fetcher_good_def)
    from micro_good [OF Fetch(3) r(1)] r(2) q t show ?thesis
      by (auto simp: Fetch(1) live_side_def fetcher_good_def queues_good_def tasks_good_def)
  next
    case (Fetched r m now)
    with f q t show ?thesis by (simp add: live_side_def fetcher_good_def queues_good_def tasks_good_def)
  next
    case (Blocks popped qs t0 t1 b' mb pushed p')
    have "\<forall>bd\<in>set_option popped. block_data_ok L bd" using q pop_append [OF Blocks(3)] by (auto simp: queues_good_def split: option.splits)
    from blocks_step_live [OF Blocks(4) _ this] f q t pop_append [OF Blocks(3)] show ?thesis
      by (auto simp: Blocks(1,2) live_side_def fetcher_good_def queues_good_def tasks_good_def)
  next
    case (BlocksPush c cs)
    with f q t show ?thesis by (simp add: live_side_def fetcher_good_def queues_good_def tasks_good_def)
  next
    case (Transactions cf popped qs t0 t1 st' mb pushed p')
    have "\<forall>td\<in>set_option popped. block_ok L td" using q pop_append [OF Transactions(4)] by (auto simp: queues_good_def split: option.splits)
    from step_live [OF Transactions(5) cfg [OF Transactions(2)] _ this, of True] f q t pop_append [OF Transactions(4)] Transactions(2)
    show ?thesis
      by (auto simp: Transactions(1,3) live_side_def fetcher_good_def queues_good_def tasks_good_def times_ok_def cp_time_ok_def)
  next
    case (TransactionsPush c cs)
    with f q t show ?thesis by (simp add: live_side_def fetcher_good_def queues_good_def tasks_good_def)
  next
    case (Chain cf get_block response reads now r p')
    from chain_push_times [OF Chain(4)] f q t show ?thesis
      by (simp add: ball_Un Chain(1,3) live_side_def fetcher_good_def queues_good_def tasks_good_def)
  next
    case (ChainPush c cs)
    with f q t show ?thesis by (simp add: live_side_def fetcher_good_def queues_good_def tasks_good_def)
  next
    case (Checkpoint popped qs grp perm ts k' cp p')
    have p: "\<forall>c\<in>set_option popped. cp_time_ok L c" using q pop_append [OF Checkpoint(2)] by (auto simp: queues_good_def split: option.splits)
    from candidate_step [OF Checkpoint(3) _ p] f q t pop_append [OF Checkpoint(2)] show ?thesis
      by (auto simp: Checkpoint(1) live_side_def fetcher_good_def queues_good_def tasks_good_def)
  next
    case (Pruner show_duration m cf)
    with f q t show ?thesis by (simp add: live_side_def fetcher_good_def queues_good_def tasks_good_def)
  next
    case (PruneBegin cf e ps)
    with f q t show ?thesis by (simp add: live_side_def fetcher_good_def queues_good_def tasks_good_def)
  next
    case (PrunePart cf js j js' e r ps)
    with f q t show ?thesis by (simp add: live_side_def fetcher_good_def queues_good_def tasks_good_def)
  next
    case Shutdown
    with f q t show ?thesis by (simp add: live_side_def fetcher_good_def queues_good_def tasks_good_def)
  next
    case (Restart sv sv1)
    from live_side_start [OF this(4)] show ?thesis .
  qed
qed

lemma session_grows:
  assumes "flow_step L P C s s'"
  shows "(fl_config s' = fl_config s \<and> set (fl_session s) \<subseteq> set (fl_session s')) \<or> live_side L s'"
  using assms by cases (auto intro: live_side_start)

lemma live_side_reached:
  assumes "(flow_step L P C)\<^sup>*\<^sup>* s0 s" "flow_start L P C s0" "crates_ok keys keys' C"
    and "session_good L s" "resolvable (fl_config s)"
  shows "live_side L s"
  using assms(1,4,5)
proof (induction rule: rtranclp_induct)
  case base
  from assms(2) show ?case by (auto simp: flow_start_def intro: live_side_start)
next
  case (step s s')
  have ok: "config_ok (fl_config s)" using flow_inv_reached [OF step.hyps(1) assms(2,3)] by (simp add: flow_inv_def)
  show ?case
    using session_grows [OF step.hyps(2)]
  proof (elim disjE)
    assume same: "fl_config s' = fl_config s \<and> set (fl_session s) \<subseteq> set (fl_session s')"
    with step.prems have "session_good L s" "resolvable (fl_config s)" by (auto simp: session_good_def)
    with live_side_step [OF step.hyps(2) _ step.prems(1)] step.IH config_ok_live(1) [OF ok] show ?thesis by blast
  qed
qed

section \<open>A step that brings the end nearer\<close>

lemma works_triple:
  assumes "works I m Q" "healthy p \<and> I (data p)"
  shows "\<exists>a b c p'. m p = (Inr (a, b, c), p') \<and> healthy p' \<and> I (data p')"
  using assms unfolding works_def by (metis prod_cases3)

lemma works_pair:
  assumes "works I m Q" "healthy p \<and> I (data p)"
  shows "\<exists>a b p'. m p = (Inr (a, b), p') \<and> healthy p' \<and> I (data p')"
  using assms unfolding works_def by (metis surj_pair)

definition ready :: "libs \<Rightarrow> tx_config \<Rightarrow> ('c, 'd) flow \<Rightarrow> bool" where
  "ready L cfg s \<longleftrightarrow> config_ok (fl_config s) \<and> resolvable (fl_config s) \<and> tk_txs (fl_config s) = Some cfg
     \<and> session_good L s \<and> live_side L s \<and> healthy (fl_pool s) \<and> outputs_ready True cfg (data (fl_pool s)) \<and> \<not> fl_shutdown s"

definition idle :: "('c, 'd) flow \<Rightarrow> bool" where
  "idle s \<longleftrightarrow> fl_round s = None \<and> fl_blocks_queue s = [] \<and> fl_txs_queue s = [] \<and> fl_checkpoint_queue s = []
     \<and> fl_blocks_out s = [] \<and> fl_txs_out s = []"

text \<open>Iterations left in the pass, elements in the two queues, elements to push, elements to receive.\<close>

definition pass_left :: "fetch_round \<Rightarrow> nat" where
  "pass_left r = 3 * length (rd_todo r) + (case rd_stage r of AtNext \<Rightarrow> 0 | AtBlocksPush _ \<Rightarrow> 2 | AtTxsPush _ \<Rightarrow> 1)"

definition iterations_left :: "('c, 'd) flow \<Rightarrow> nat" where
  "iterations_left s = (case fl_round s of None \<Rightarrow> 0 | Some r \<Rightarrow> 1 + pass_left r)"

definition work_left :: "(('c, 'd) flow \<times> ('c, 'd) flow) set" where
  "work_left = measures [iterations_left, \<lambda>s. length (fl_blocks_queue s) + length (fl_txs_queue s),
     \<lambda>s. length (fl_blocks_out s) + length (fl_txs_out s), \<lambda>s. length (fl_checkpoint_queue s)]"

definition advances :: "libs \<Rightarrow> 'k p2p_libs \<Rightarrow> ('c, 'd) crates \<Rightarrow> tx_config \<Rightarrow> ('c, 'd) flow \<Rightarrow> ('c, 'd) flow \<Rightarrow> bool" where
  "advances L P C cfg s s' \<longleftrightarrow> flow_step L P C s s' \<and> ready L cfg s' \<and> fl_session s' = fl_session s
     \<and> fl_config s' = fl_config s \<and> fl_deleted s' = fl_deleted s \<and> (s', s) \<in> work_left"

lemma advances_I:
  assumes "ready L cfg s" "flow_step L P C s s'" "fl_config s' = fl_config s" "fl_session s' = fl_session s"
    "fl_deleted s' = fl_deleted s" and "\<not> fl_shutdown s'" "healthy (fl_pool s')" "outputs_ready True cfg (data (fl_pool s'))" "(s', s) \<in> work_left"
  shows "advances L P C cfg s s'"
proof -
  have s: "live_side L s" "session_good L s'" using assms(1,4) by (simp_all add: ready_def session_good_def)
  have "config_live cf" if "tk_txs (fl_config s) = Some cf" for cf
    using config_ok_live(1) that assms(1) by (auto simp: ready_def)
  from live_side_step [OF assms(2) s this] assms s show ?thesis by (simp add: advances_def ready_def)
qed

lemma receive_advances:
  assumes "ready L cfg s" "fl_checkpoint_queue s = c # q"
  shows "\<exists>s'. advances L P C cfg s s'"
proof -
  have pop: "pop (fl_checkpoint_queue s) = (Some c, q)" by (simp add: assms(2) pop_Some)
  have I: "ignores_saved (outputs_ready True cfg)" "\<And>d. outputs_ready True cfg d \<Longrightarrow> amounts_ok d"
    by (auto simp: ignores_saved_def outputs_ready_def amounts_ok_def relation_ready_def)
  have c: "candidate_ok L (fl_checkpoints s)" "\<forall>x\<in>set_option (Some c). cp_time_ok L x"
    using assms by (simp_all add: ready_def live_side_def tasks_good_def queues_good_def)
  have h: "healthy (fl_pool s) \<and> outputs_ready True cfg (data (fl_pool s))" using assms(1) by (simp add: ready_def)
  from works_pair [OF checkpoint_step_works [OF I c, where perm = "\<lambda>xs. xs" and cfg = "tk_checkpoints (fl_config s)"
      and ts = sample_times] h] obtain k' m p' where r: "process_checkpoints_step L (\<lambda>xs. xs) (\<lambda>xs. xs) (tk_checkpoints (fl_config s)) (Some c, sample_times)
      (fl_checkpoints s) (fl_pool s) = (Inr (k', m), p')" "healthy p'" "outputs_ready True cfg (data p')"
    by blast
  let ?s = "s\<lparr>fl_pool := p', fl_metrics := report_checkpoint m (fl_metrics s), fl_checkpoint_queue := q, fl_checkpoints := k'\<rparr>"
  have "advances L P C cfg s ?s"
    by (rule advances_I [OF assms(1) flow_step.Checkpoint [OF pop r(1)]])
      (use r(2,3) assms in \<open>simp_all add: ready_def work_left_def iterations_left_def\<close>)
  then show ?thesis by blast
qed

lemma push_advances:
  assumes "ready L cfg s" "fl_checkpoint_queue s = []" "fl_blocks_out s \<noteq> [] \<or> fl_txs_out s \<noteq> []"
  shows "\<exists>s'. advances L P C cfg s s'"
proof -
  have room: "has_room checkpoint_capacity (fl_checkpoint_queue s)"
    by (simp add: assms(2) has_room_def checkpoint_capacity_def)
  have "\<exists>s'. advances L P C cfg s s'" if o: "fl_blocks_out s = c # cs" for c cs
    by (rule exI, rule advances_I [OF assms(1) flow_step.BlocksPush [OF o room]])
      (use assms(1) o in \<open>simp_all add: ready_def work_left_def iterations_left_def\<close>)
  moreover have "\<exists>s'. advances L P C cfg s s'" if o: "fl_txs_out s = c # cs" for c cs
    by (rule exI, rule advances_I [OF assms(1) flow_step.TransactionsPush [OF o room]])
      (use assms(1) o in \<open>simp_all add: ready_def work_left_def iterations_left_def\<close>)
  ultimately show ?thesis using assms(3) by (meson neq_Nil_conv)
qed

lemma blocks_advance:
  assumes "ready L cfg s" "fl_blocks_out s = []" "fl_blocks_queue s = bd # q"
  shows "\<exists>s'. advances L P C cfg s s'"
proof -
  have pop: "pop (fl_blocks_queue s) = (Some bd, q)" by (simp add: assms(3) pop_Some)
  have a: "scale_ok (bc_batch_scale (tk_blocks (fl_config s)))" "blocks_live L (fl_blocks s)"
    "\<forall>x\<in>set_option (fst (Some bd, 0 :: nat, 0 :: nat)). block_data_ok L x" "ignores_block_tables (outputs_ready True cfg)"
    using assms config_ok_live(2) [of "fl_config s" cfg]
    by (auto simp: ready_def live_side_def tasks_good_def queues_good_def ignores_block_tables_def outputs_ready_def)
  have h: "healthy (fl_pool s) \<and> outputs_ready True cfg (data (fl_pool s))" using assms(1) by (simp add: ready_def)
  from works_triple [OF blocks_step_works [OF a] h] obtain b' mb pushed p' where r: "process_blocks_step L (tk_blocks (fl_config s)) (Some bd, 0, 0) (fl_blocks s) (fl_pool s)
      = (Inr (b', mb, pushed), p')" "healthy p'" "outputs_ready True cfg (data p')"
    by blast
  let ?s = "s\<lparr>fl_pool := p', fl_metrics := report_blocks mb (fl_metrics s), fl_blocks_queue := q, fl_blocks := b',
      fl_blocks_out := pushed\<rparr>"
  have "advances L P C cfg s ?s"
    by (rule advances_I [OF assms(1) flow_step.Blocks [OF assms(2) pop r(1)]])
      (use r(2,3) assms in \<open>simp_all add: ready_def work_left_def iterations_left_def\<close>)
  then show ?thesis by blast
qed

lemma transactions_advance:
  assumes "ready L cfg s" "fl_txs_out s = []" "fl_txs_queue s = td # q" "sched_ok (cr_sched C)" "mrg_ok (cr_mrg C)"
  shows "\<exists>s'. advances L P C cfg s s'"
proof -
  have pop: "pop (fl_txs_queue s) = (Some td, q)" by (simp add: assms(3) pop_Some)
  have k: "tk_txs (fl_config s) = Some cfg" using assms(1) by (simp add: ready_def)
  have a: "config_live cfg" "batch_live True L cfg (fl_txs s)" "\<forall>x\<in>set_option (fst (Some td, 0 :: nat, 0 :: nat)). block_ok L x"
    using assms config_ok_live(1) [of "fl_config s" cfg] by (auto simp: ready_def live_side_def tasks_good_def queues_good_def)
  have h: "healthy (fl_pool s) \<and> outputs_ready True cfg (data (fl_pool s))" using assms(1) by (simp add: ready_def)
  from works_triple [OF step_works [OF a(1,2) assms(4,5) a(3), where ops = "cr_tx_cache C"] h] obtain st' mb pushed p' where r: "process_transactions_step L (cr_tx_cache C) (cr_sched C) (cr_mrg C) cfg (Some td, 0, 0)
      (fl_txs s) (fl_pool s) = (Inr (st', mb, pushed), p')" "healthy p'" "outputs_ready True cfg (data p')"
    by blast
  let ?s = "s\<lparr>fl_pool := p', fl_metrics := report_transactions mb (fl_metrics s), fl_txs_queue := q, fl_txs := st',
      fl_txs_out := pushed\<rparr>"
  have "advances L P C cfg s ?s"
    by (rule advances_I [OF assms(1) flow_step.Transactions [OF k assms(2) pop r(1)]])
      (use r(2,3) assms in \<open>simp_all add: ready_def work_left_def iterations_left_def\<close>)
  then show ?thesis by blast
qed

lemma micro_left:
  assumes "fetch_micro ops ample (f, r) = ((f', r'), bs, ts)" "\<not> round_over r"
  shows "pass_left r' < pass_left r"
  using assms
  by (auto simp: fetch_micro_def ample_def round_over_def pass_left_def split: fetch_stage.splits list.splits if_splits prod.splits)

lemma fetcher_advances:
  assumes "ready L cfg s" "fl_blocks_queue s = []" "fl_txs_queue s = []" "fl_round s = Some r"
  shows "\<exists>s'. advances L P C cfg s s'"
proof (cases "round_over r")
  case True
  have g: "block_good L (rd_last r)" using assms(1,4) by (simp add: ready_def live_side_def fetcher_good_def)
  then obtain m where m: "fetch_metrics L (word_of_nat (length (fl_blocks_queue s))) (word_of_nat (length (fl_txs_queue s)))
      (rd_last r) (fl_metrics s) = Inr m"
    using block_good_data(3) [OF g] by (auto simp: fetch_metrics_def block_good_def sbind_Inr_iff Let_def)
  show ?thesis
    by (rule exI, rule advances_I [OF assms(1) flow_step.Fetched [OF assms(4) True m]])
      (use assms(1,4) in \<open>simp_all add: ready_def work_left_def iterations_left_def\<close>)
next
  case False
  have "0 < tk_capacity (fl_config s)" "\<not> fl_shutdown s" using assms(1) by (simp_all add: ready_def config_ok_def)
  then have room: "fetch_room_of s = ample" by (simp add: fetch_room_of_def ample_def has_room_def assms(2,3))
  obtain f r' bs ts where m: "fetch_micro (cr_fetch_cache C) ample (fl_fetcher s, r) = ((f, r'), bs, ts)" by (metis surj_pair)
  show ?thesis
    by (rule exI, rule advances_I [OF assms(1) flow_step.Fetch [OF assms(4) m [folded room]]])
      (use assms(1,4) micro_left [OF m False] in \<open>simp_all add: ready_def work_left_def iterations_left_def\<close>)
qed

lemma ready_advances:
  assumes "ready L cfg s" "sched_ok (cr_sched C)" "mrg_ok (cr_mrg C)"
  shows "idle s \<or> (\<exists>s'. advances L P C cfg s s')"
  using receive_advances [OF assms(1)] push_advances [OF assms(1)] blocks_advance [OF assms(1)]
    transactions_advance [OF assms(1) _ _ assms(2,3)] fetcher_advances [OF assms(1)]
  unfolding idle_def by (metis neq_Nil_conv option.exhaust)

lemma ready_finishes:
  assumes "ready L cfg s" "sched_ok (cr_sched C)" "mrg_ok (cr_mrg C)"
  shows "\<exists>s'. (flow_step L P C)\<^sup>*\<^sup>* s s' \<and> ready L cfg s' \<and> fl_session s' = fl_session s \<and> fl_config s' = fl_config s
    \<and> fl_deleted s' = fl_deleted s \<and> idle s'"
proof -
  have "wf (work_left :: (('a, 'b) flow \<times> ('a, 'b) flow) set)" by (simp add: work_left_def)
  then show ?thesis
    using assms(1)
  proof (induction s rule: wf_induct_rule)
    case (less s)
    from ready_advances [OF less.prems assms(2,3)] show ?case
    proof
      assume "\<exists>s'. advances L P C cfg s s'"
      then obtain s1 where s1: "flow_step L P C s s1" "ready L cfg s1" "fl_session s1 = fl_session s" "fl_config s1 = fl_config s"
          "fl_deleted s1 = fl_deleted s" "(s1, s) \<in> work_left"
        unfolding advances_def by blast
      from less.IH [OF s1(6,2)] obtain s' where "(flow_step L P C)\<^sup>*\<^sup>* s1 s'" "ready L cfg s'" "fl_session s' = fl_session s1"
          "fl_config s' = fl_config s1" "fl_deleted s' = fl_deleted s1" "idle s'"
        by blast
      with s1 show ?thesis by (metis converse_rtranclp_into_rtranclp)
    qed (use less.prems in blast)
  qed
qed

end
