(* ===== verification/Web_View.thy ===== *)
theory Web_View
  imports Flow_Inv Health
begin

text \<open>
  What the endpoints show of the running program: the metrics record the tasks share (theory
  \<open>Flow\<close>) through \<open>update_metrics\<close> and \<open>get_health\<close>.
\<close>

lemma fetch_metrics_settings: "fetch_metrics L n k b m = Inr m' \<Longrightarrow> me_settings m' = me_settings m"
  by (auto simp: fetch_metrics_def sbind_Inr_iff Let_def split: if_splits)

lemma report_settings [simp]:
  "me_settings (report_blocks mb m) = me_settings m" "me_settings (report_transactions mb m) = me_settings m"
  "me_settings (report_chain r m) = me_settings m" "me_settings (report_checkpoint cp m) = me_settings m"
  by (auto simp: report_blocks_def report_transactions_def report_chain_def report_checkpoint_def
      split: option.splits vcp_outcome.splits)

text \<open>A pruner run writes its own part of the record.\<close>

lemma map_pruner_settings [simp]: "me_settings (ps_metrics (map_pruner f s)) = me_settings (ps_metrics s)"
  by (simp add: map_pruner_def)

lemma put_result_settings: "put_result n r s = Some s' \<Longrightarrow> me_settings (ps_metrics s') = me_settings (ps_metrics s)"
  by (auto simp: put_result_def split: option.splits)

definition keeps_settings :: "prune_state \<Rightarrow> prune_end \<Rightarrow> bool" where
  "keeps_settings s r \<longleftrightarrow> (\<forall>s'. final r = Some s' \<longrightarrow> me_settings (ps_metrics s') = me_settings (ps_metrics s))"

lemma keeps_settings_rules:
  "keeps_settings s (Goes s)"
  "keeps_settings s (prune_step e name call cutoff s)"
  "(\<And>c. keeps_settings s (f c)) \<Longrightarrow> keeps_settings s (subtract e d s f)"
  "keeps_settings s r \<Longrightarrow> keeps_settings s (return_on_shutdown b s r)"
  "keeps_settings s r \<Longrightarrow> keeps_settings s r' \<Longrightarrow> keeps_settings s (if P then r else r')"
  "keeps_settings s r \<Longrightarrow> (\<And>x. keeps_settings s (g x)) \<Longrightarrow> keeps_settings s (case opt of None \<Rightarrow> r | Some x \<Rightarrow> g x)"
  unfolding keeps_settings_def prune_step_def subtract_def return_on_shutdown_def Let_def
  by (auto split: option.splits if_splits dest!: put_result_settings)

lemma keeps_settings_then:
  "keeps_settings s r \<Longrightarrow> (\<And>t. keeps_settings t (f t)) \<Longrightarrow> keeps_settings s (and_then r f)"
  unfolding keeps_settings_def by (cases r) auto

lemma prune_part_settings: "keeps_settings s (prune_part n e args cfg s)"
proof -
  have "keeps_settings s (Goes (prune_finish e s))" by (simp add: keeps_settings_def prune_finish_def)
  then show ?thesis
    unfolding prune_part_def prune_block_parent_part_def prune_blocks_transactions_part_def prune_blocks_part_def
      prune_transactions_part_def prune_addresses_part_def
    by (intro keeps_settings_rules keeps_settings_then)
qed

lemma pruner_settings: "pruner show_duration args m = (m', cfg) \<Longrightarrow> me_settings m' = me_settings m"
  by (auto simp: pruner_def Let_def split: option.splits)

lemma start_processing_metrics:
  assumes "start_processing L P perm drain e args as bs p = (Inr st, p')"
  shows "me_settings (sd_metrics st) = Some (hidden (sd_settings st))"
  using assms
  by (auto simp: start_processing_def startup_metrics_def bnd_Inr_iff sbind_Inr_iff lift_res_def ret_def Let_def
      split: if_splits)

text \<open>The record holds the settings of the running program with the urls hidden, of a network of one block per second.\<close>

definition shows_settings :: "('c, 'd) flow \<Rightarrow> bool" where
  "shows_settings s \<longleftrightarrow> me_settings (fl_metrics s) = Some (hidden (tk_settings (fl_config s)))
     \<and> s_net_bps (tk_settings (fl_config s)) = 1"

lemma shows_settings_start:
  assumes "program_start L P C returned sv s"
  shows "shows_settings s"
  using assms
proof cases
  case (1 perm drain M args as bs st sv' K instant t0 p wall)
  from run_main_Inr [OF 1(2)] obtain e q where
    "start_processing L P perm drain e args as bs q = (Inr st, sv_pool sv')" by blast
  from start_processing_metrics [OF this] start_processing_settings [OF this] configure_tasks_parts(1) [OF 1(4)]
  show ?thesis by (simp add: 1(1) shows_settings_def fresh_flow_def)
qed

lemma shows_settings_step: "flow_step L P C s s' \<Longrightarrow> shows_settings s \<Longrightarrow> shows_settings s'"
proof (erule flow_step.cases)
  fix sv sv1 s'' assume "program_start L P C (fl_returned s) sv1 s''" "s' = s''"
  then show "shows_settings s'" using shows_settings_start by blast
next
  fix cfg js j js' e r ps
  assume s: "shows_settings s" and r: "prune_part (job_part j) e (tk_args (fl_config s)) cfg (prune_state_of s (job_errors j)) = r"
    "r = Goes ps \<or> r = ShutDown ps"
    and s': "s' = s\<lparr>fl_pool := ps_pool ps, fl_metrics := ps_metrics ps, fl_prunes := js @ job_goes_on j r @ js',
      fl_deleted := also_deleted (data (fl_pool s)) (data (ps_pool ps)) (fl_deleted s)\<rparr>"
  have "final r = Some ps" using r(2) by auto
  then have "me_settings (ps_metrics ps) = me_settings (fl_metrics s)"
    using prune_part_settings [where s = "prune_state_of s (job_errors j)"] r(1)
    unfolding keeps_settings_def by (auto simp: prune_state_of_def)
  then show "shows_settings s'" using s by (simp add: s' shows_settings_def)
qed (auto simp: shows_settings_def fetch_metrics_settings prune_begin_def prune_state_of_def dest: pruner_settings)

lemma shows_settings_reached:
  assumes "(flow_step L P C)\<^sup>*\<^sup>* s0 s" "flow_start L P C s0"
  shows "shows_settings s"
  using assms(1)
proof (induction rule: rtranclp_induct)
  case base
  from assms(2) show ?case by (auto simp: flow_start_def intro: shows_settings_start)
qed (rule shows_settings_step)

text \<open>In no state of the running program does the health endpoint divide by zero: it answers
  whenever the process is found and its control group keeps to its limit.\<close>

lemma health_of_running_program:
  assumes "flow_start L P C s0" "(flow_step L P C)\<^sup>*\<^sup>* s0 s" "rf_process r \<noteq> None"
    and "\<And>mx cur. rf_cgroup_max r = Some mx \<Longrightarrow> rf_cgroup_current r = Some cur \<Longrightarrow> cur \<le> mx"
  shows "\<exists>m' code h. get_health F answer r now_ms (web_metrics_of name version commit_id (fl_metrics s)) = Inr (m', code, h)"
proof (rule health_answers [OF assms(3) _ assms(4)])
  show "net_bps_of (web_metrics_of name version commit_id (fl_metrics s)) \<noteq> 0"
    using shows_settings_reached [OF assms(2,1)]
    by (simp add: shows_settings_def net_bps_of_def web_metrics_of_def metrics.extend_def hidden_def)
qed

end
