(* ===== verification/Dataflow.thy ===== *)
theory Dataflow
  imports Flow_Live Web_View
begin

text \<open>
  What the running program keeps, end to end: nothing is lost between the queues, and a
  checkpoint that is saved, unless forced, is one whose block the node returned and whose
  transactions have all been stored, with those of every block pushed before it; and what
  happens when nothing takes the transactions out of their queue. The pruner is one of the
  tasks: what is stored is in the database, or a pruner run has deleted it since the start.
\<close>

section \<open>Nothing is lost, and a saved checkpoint is complete\<close>

lemma block_is_placed:
  assumes "flow_inv keys keys' s" "records_txs (fl_config s)" "\<not> fl_shutdown s" "b \<in> set (fl_session s)" "b \<notin> set (fetcher_has s)"
  shows "\<exists>td\<in>set (fl_pushed_txs s). td_block_hash td = block_hash b
      \<and> (td \<in> set (fl_txs_queue s) \<or> checkpoint_of td \<in> set (ts_checkpoints (fl_txs s)) \<or> block_in_db (all_rows s) td)"
    and "\<exists>bd\<in>set (fl_pushed_blocks s). pushed_hash bd = block_hash b
      \<and> (bd \<in> set (fl_blocks_queue s) \<or> block_checkpoint bd \<in> set (b_checkpoints (fl_blocks s))
         \<or> block_stored (tk_blocks (fl_config s)) (all_rows s) bd)"
proof -
  let ?K = "tk_blocks (fl_config s)"
  from assms obtain dn pend bdn bpend where
    t: "fl_pushed_txs s = dn @ pend @ fl_txs_queue s" "in_batch pend (fl_txs s) (all_rows s)"
      "\<forall>td\<in>set dn. block_in_db (all_rows s) td" and
    b: "fl_pushed_blocks s = bdn @ bpend @ fl_blocks_queue s" "block_batch ?K bpend (fl_blocks s)"
      "\<forall>bd\<in>set bdn. block_stored ?K (all_rows s) bd" and
    f: "map pushed_hash (fl_pushed_blocks s) = map td_block_hash (fl_pushed_txs s) @ fetcher_half s"
      "block_hash b \<in> td_block_hash ` set (fl_pushed_txs s)"
    unfolding flow_inv_def tx_side_def block_side_def fetch_side_def aligned_def by blast
  from f(2) obtain td where td: "td \<in> set (fl_pushed_txs s)" "td_block_hash td = block_hash b" by auto
  then show "\<exists>td\<in>set (fl_pushed_txs s). td_block_hash td = block_hash b
      \<and> (td \<in> set (fl_txs_queue s) \<or> checkpoint_of td \<in> set (ts_checkpoints (fl_txs s)) \<or> block_in_db (all_rows s) td)"
    using t by (intro bexI [of _ td]) (auto simp: in_batch_def)
  have "block_hash b \<in> set (map pushed_hash (fl_pushed_blocks s))" unfolding f(1) using td by force
  then obtain bd where bd: "bd \<in> set (fl_pushed_blocks s)" "pushed_hash bd = block_hash b" by auto
  then show "\<exists>bd\<in>set (fl_pushed_blocks s). pushed_hash bd = block_hash b
      \<and> (bd \<in> set (fl_blocks_queue s) \<or> block_checkpoint bd \<in> set (b_checkpoints (fl_blocks s))
         \<or> block_stored ?K (all_rows s) bd)"
    using b by (intro bexI [of _ bd]) (auto simp: block_batch_def)
qed

lemma all_rows_sets:
  "set (t_transactions (with_deleted X d)) = set (t_transactions d) \<union> set (gone_transactions X)"
  "set (t_blocks_transactions (with_deleted X d)) = set (t_blocks_transactions d) \<union> set (gone_block_txs X)"
  "set (t_blocks (with_deleted X d)) = set (t_blocks d) \<union> set (gone_blocks X)"
  "set (t_block_parent (with_deleted X d)) = set (t_block_parent d) \<union> set (gone_parents X)"
  by (simp_all add: with_deleted_def)

lemma block_in_rows:
  "block_in_db (with_deleted X d) td \<longleftrightarrow> (\<forall>t\<in>set (td_transactions td). \<exists>v. rt_verbose t = Some v
     \<and> tv_transaction_id v \<in> tx_id ` (set (t_transactions d) \<union> set (gone_transactions X))
     \<and> \<lparr>bt_block_hash = tv_block_hash v, bt_transaction_id = tv_transaction_id v\<rparr>
         \<in> set (t_blocks_transactions d) \<union> set (gone_block_txs X))"
  by (simp add: block_in_db_def covered_def all_rows_sets)

text \<open>C4: no block is lost on the way: with transaction processing and the transactions and
  blocks_transactions tables enabled, in every state that the program reaches from a start, in any
  interleaving of its tasks, the pruner among them, with any answers of the node, any failing
  statements and any restarts, and until a
  shutdown is signalled, every block of an answer the fetcher took up since the last start is still
  with the fetcher, or it is, on each of its two ways, in the queue, in the batch of its processor,
  or stored: the transactions with their block relations on the one, the row and the
  parent relations (of the tables that are enabled) on the other; each row of it is in the database, or
  a pruner run has deleted it since the start, which without --prune-db never happens.\<close>

theorem no_block_is_lost:
  assumes "flow_start L P C s0" "(flow_step L P C)\<^sup>*\<^sup>* s0 s" "crates_ok keys keys' C" "records_txs (fl_config s)"
    and "\<not> fl_shutdown s" "b \<in> set (fl_session s)"
  shows "(prune_db (pruning (tk_args (fl_config s))) = None \<longrightarrow> fl_deleted s = nothing_deleted)
    \<and> (b \<in> set (fetcher_has s)
    \<or> (\<exists>td\<in>set (fl_pushed_txs s). td_block_hash td = block_hash b
        \<and> (td \<in> set (fl_txs_queue s) \<or> checkpoint_of td \<in> set (ts_checkpoints (fl_txs s))
           \<or> (\<forall>t\<in>set (td_transactions td). \<exists>v. rt_verbose t = Some v
                \<and> tv_transaction_id v
                    \<in> tx_id ` (set (t_transactions (data (fl_pool s))) \<union> set (gone_transactions (fl_deleted s)))
                \<and> \<lparr>bt_block_hash = tv_block_hash v, bt_transaction_id = tv_transaction_id v\<rparr>
                    \<in> set (t_blocks_transactions (data (fl_pool s))) \<union> set (gone_block_txs (fl_deleted s)))))
      \<and> (\<exists>bd\<in>set (fl_pushed_blocks s). pushed_hash bd = block_hash b
        \<and> (bd \<in> set (fl_blocks_queue s) \<or> block_checkpoint bd \<in> set (b_checkpoints (fl_blocks s))
           \<or> (is_disabled (tk_args (fl_config s)) BlocksTable
               \<or> block_hash b \<in> blk_hash ` (set (t_blocks (data (fl_pool s))) \<union> set (gone_blocks (fl_deleted s))))
             \<and> (is_disabled (tk_args (fl_config s)) BlockParentTable
                 \<or> set (map_block_parents (bd_block bd))
                     \<subseteq> set (t_block_parent (data (fl_pool s))) \<union> set (gone_parents (fl_deleted s))))))"
proof -
  let ?K = "tk_blocks (fl_config s)"
  have inv: "flow_inv keys keys' s" by (rule flow_inv_reached [OF assms(2,1,3)])
  have conf: "bc_disable_blocks ?K = is_disabled (tk_args (fl_config s)) BlocksTable"
    "bc_disable_relations ?K = is_disabled (tk_args (fl_config s)) BlockParentTable"
    using config_ok_parts(2) [of "fl_config s"] inv by (simp_all add: block_config_of_def flow_inv_def)
  have st: "block_stored ?K (all_rows s) bd \<longleftrightarrow>
      (is_disabled (tk_args (fl_config s)) BlocksTable
        \<or> pushed_hash bd \<in> blk_hash ` (set (t_blocks (data (fl_pool s))) \<union> set (gone_blocks (fl_deleted s))))
      \<and> (is_disabled (tk_args (fl_config s)) BlockParentTable
        \<or> set (map_block_parents (bd_block bd))
            \<subseteq> set (t_block_parent (data (fl_pool s))) \<union> set (gone_parents (fl_deleted s)))" for bd
    by (auto simp: block_stored_def all_rows_sets conf pushed_hash_def block_hash_def)
  have "b \<in> set (fetcher_has s) \<or>
      (\<exists>td\<in>set (fl_pushed_txs s). td_block_hash td = block_hash b
        \<and> (td \<in> set (fl_txs_queue s) \<or> checkpoint_of td \<in> set (ts_checkpoints (fl_txs s)) \<or> block_in_db (all_rows s) td))
      \<and> (\<exists>bd\<in>set (fl_pushed_blocks s). pushed_hash bd = block_hash b
        \<and> (bd \<in> set (fl_blocks_queue s) \<or> block_checkpoint bd \<in> set (b_checkpoints (fl_blocks s))
           \<or> block_stored ?K (all_rows s) bd))"
    using block_is_placed [OF inv assms(4,5,6)] by blast
  moreover have "unpruned s" by (rule unpruned_reached [OF assms(2,1)])
  ultimately show ?thesis
    unfolding block_in_rows st unpruned_def by (metis (no_types, lifting))
qed

text \<open>C3: a saved checkpoint is safe to resume from, end to end: with transaction processing and the
  transactions and blocks_transactions tables enabled, in every state that the program reaches from a
  start, in any interleaving of its tasks, the pruner among them, with any answers of the node, any failing
  statements and any restarts, a checkpoint that a round of the checkpoint task saves within 120
  seconds of the last save is a block the fetcher has pushed since the start, and that block and
  every block pushed before it were returned by the node and have all their transactions, with
  their block relations, stored: each row is in the database, or a pruner run has deleted it
  since the start, which without --prune-db never happens.\<close>

theorem saved_checkpoint_is_complete:
  assumes "flow_start L P C s0" "(flow_step L P C)\<^sup>*\<^sup>* s0 s" "crates_ok keys keys' C" "records_txs (fl_config s)"
    and "pop (fl_checkpoint_queue s) = (popped, q)"
    and "process_checkpoints_step L grp perm (tk_checkpoints (fl_config s)) (popped, ts) (fl_checkpoints s) (fl_pool s)
      = (Inr (k', Some m), p')"
    and "secs_since (at_test ts) (k_last_saved (fl_checkpoints s)) \<le> max_time_without_save"
  shows "(prune_db (pruning (tk_args (fl_config s))) = None \<longrightarrow> fl_deleted s = nothing_deleted)
    \<and> (\<exists>c b before td rest. mc_block m = Some b \<and> metrics_block_of L c = Inr b
    \<and> fl_pushed_txs s = before @ td # rest \<and> td_block_hash td = cb_hash c
    \<and> (\<forall>x\<in>set (before @ [td]). x \<in> transaction_data_of ` set (fl_returned s)
        \<and> (\<forall>t\<in>set (td_transactions x). \<exists>v. rt_verbose t = Some v
            \<and> tv_transaction_id v \<in> tx_id ` (set (t_transactions (data p')) \<union> set (gone_transactions (fl_deleted s)))
            \<and> \<lparr>bt_block_hash = tv_block_hash v, bt_transaction_id = tv_transaction_id v\<rparr>
                \<in> set (t_blocks_transactions (data p')) \<union> set (gone_block_txs (fl_deleted s)))))"
proof -
  let ?K = "tk_checkpoints (fl_config s)" and ?d = "with_deleted (fl_deleted s) (data p')"
  from flow_inv_reached [OF assms(2,1,3)] assms(4) obtain dn pend where
    t: "fl_pushed_txs s = dn @ pend @ fl_txs_queue s" "\<forall>td\<in>set dn. block_in_db (all_rows s) td" and
    k: "cp_side dn s" and f: "set (fl_pushed_txs s) \<subseteq> transaction_data_of ` set (fl_returned s)" and
    ok: "config_ok (fl_config s)"
    unfolding flow_inv_def tx_side_def fetch_side_def by blast
  have on: "\<not> cc_disable_tx ?K" using config_ok_parts(1) [OF ok] assms(4) by (simp add: cp_config_of_def records_txs_def)
  have "cp_inv ?K (td_block_hash ` set dn) (fl_checkpoints s)" using k by (simp add: cp_side_def)
  from cp_step_inv(2) [OF assms(6) this refl assms(7)] on cp_side_received [OF k assms(5), of ts] obtain c b where
    c: "mc_block m = Some b" "metrics_block_of L c = Inr b" "cb_hash c \<in> td_block_hash ` set dn"
    by (auto simp: Un_absorb2)
  then obtain td where "td \<in> set dn" "td_block_hash td = cb_hash c" by auto
  then obtain before rest where td: "dn = before @ td # rest" "td_block_hash td = cb_hash c" by (meson split_list)
  have "grows (all_rows s) ?d"
    using keeps_with_deleted [OF steps_keeps [OF row_tasks.task_checkpoints assms(6)]] by (simp add: keeps_rows_def)
  then have "\<forall>x\<in>set (before @ [td]). block_in_db ?d x"
    using t(2) block_in_db_mono unfolding td(1) by auto
  moreover have "set (before @ [td]) \<subseteq> transaction_data_of ` set (fl_returned s)" using f unfolding t(1) td(1) by auto
  moreover have "unpruned s" by (rule unpruned_reached [OF assms(2,1)])
  ultimately show ?thesis
    using c(1,2) td(2) t(1) unfolding block_in_rows unpruned_def
    by (intro conjI exI [of _ c] exI [of _ b] exI [of _ before] exI [of _ td] exI [of _ "rest @ pend @ fl_txs_queue s"])
      (simp_all add: td(1) subset_iff)
qed

section \<open>The program can always finish\<close>

text \<open>C6: the running program never locks up: with transaction processing and the transactions and
  blocks_transactions tables enabled, in every state that it reaches from a start, by any interleaving
  of its tasks, the pruner among them, and after any failures and restarts, as long as no shutdown is signalled, the
  connection is healthy, the inputs need not be resolved without their outpoints, the blocks of
  the answers fit the columns, and no stored output lacks what the relations copy or has a
  negative amount, its tasks can go on, in spite of their bounded queues, to a state where the
  fetcher has finished its answer and the queues are empty, without a further pruner run; every block of the answers since the
  start is then, on each of its two ways, in the batch of its processor or stored: in the database,
  or deleted by an earlier pruner run.\<close>

theorem program_never_stuck:
  assumes "flow_start L P C s0" "(flow_step L P C)\<^sup>*\<^sup>* s0 s" "crates_ok keys keys' C"
    and "records_txs (fl_config s)" "resolvable (fl_config s)" "tk_txs (fl_config s) = Some cfg"
    and "\<not> fl_shutdown s" "healthy (fl_pool s)" "outputs_ready True cfg (data (fl_pool s))"
    and "\<forall>b\<in>set (fl_session s). block_good L b"
  shows "\<exists>s'. (flow_step L P C)\<^sup>*\<^sup>* s s' \<and> fl_session s' = fl_session s \<and> fl_round s' = None \<and> fl_blocks_queue s' = []
    \<and> fl_txs_queue s' = [] \<and> fl_checkpoint_queue s' = [] \<and> fl_deleted s' = fl_deleted s
    \<and> (\<forall>b\<in>set (fl_session s).
        (\<exists>td\<in>set (fl_pushed_txs s'). td_block_hash td = block_hash b
          \<and> (checkpoint_of td \<in> set (ts_checkpoints (fl_txs s')) \<or> block_in_db (all_rows s') td))
        \<and> (\<exists>bd\<in>set (fl_pushed_blocks s'). pushed_hash bd = block_hash b
          \<and> (block_checkpoint bd \<in> set (b_checkpoints (fl_blocks s'))
             \<or> block_stored (tk_blocks (fl_config s')) (all_rows s') bd)))"
proof -
  have inv: "flow_inv keys keys' s" by (rule flow_inv_reached [OF assms(2,1,3)])
  have good: "session_good L s" using assms(10) by (simp add: session_good_def)
  have "live_side L s" by (rule live_side_reached [OF assms(2,1,3) good assms(5)])
  with inv good assms(5-9) have "ready L cfg s" by (simp add: ready_def flow_inv_def)
  from ready_finishes [OF this, of C P] assms(3) obtain s' where
    s': "(flow_step L P C)\<^sup>*\<^sup>* s s'" "fl_config s' = fl_config s" "fl_session s' = fl_session s" "idle s'" "\<not> fl_shutdown s'"
      "fl_deleted s' = fl_deleted s"
    by (auto simp: crates_ok_def ready_def)
  have inv': "flow_inv keys keys' s'" by (rule flow_inv_reached [OF rtranclp_trans [OF assms(2) s'(1)] assms(1,3)])
  have e: "fl_round s' = None" "fl_blocks_queue s' = []" "fl_txs_queue s' = []" "fl_checkpoint_queue s' = []" "fetcher_has s' = []"
    using s'(4) by (simp_all add: idle_def fetcher_has_def)
  note p = block_is_placed [OF inv' assms(4) [folded s'(2)] s'(5)]
  have "(\<exists>td\<in>set (fl_pushed_txs s'). td_block_hash td = block_hash b
        \<and> (checkpoint_of td \<in> set (ts_checkpoints (fl_txs s')) \<or> block_in_db (all_rows s') td))
      \<and> (\<exists>bd\<in>set (fl_pushed_blocks s'). pushed_hash bd = block_hash b
        \<and> (block_checkpoint bd \<in> set (b_checkpoints (fl_blocks s'))
           \<or> block_stored (tk_blocks (fl_config s')) (all_rows s') bd))" if "b \<in> set (fl_session s)" for b
    using p [of b] that s'(3) e(2,3,5) by simp
  with s'(1,3,6) e(1-4) show ?thesis by (intro exI [of _ s'] conjI ballI) blast+
qed

section \<open>Nothing takes the transactions\<close>

text \<open>Without the transaction processor what is pushed to its queue stays there.\<close>

definition stalled :: "('c, 'd) flow \<Rightarrow> bool" where
  "stalled s \<longleftrightarrow> (tk_txs (fl_config s) = None \<longrightarrow> fl_txs_queue s = fl_pushed_txs s
     \<and> length (fl_pushed_txs s) \<le> tk_capacity (fl_config s)
     \<and> length (fl_pushed_blocks s) \<le> length (fl_pushed_txs s) + 1
     \<and> (\<not> fl_shutdown s \<longrightarrow> length (fl_pushed_blocks s) = length (fl_pushed_txs s) + length (fetcher_half s)))"

lemma micro_counts:
  assumes "fetch_micro ops room (f, r) = ((f', r'), bs, ts)"
  shows "fr_shutdown room \<Longrightarrow> bs = [] \<and> ts = []"
    and "\<not> fr_shutdown room \<Longrightarrow> length bs + length (half_pushed r) = length ts + length (half_pushed r')"
    and "ts = [] \<or> fr_txs room \<and> length ts = 1" and "length (half_pushed r) \<le> 1"
  using assms
  by (auto simp: fetch_micro_def half_pushed_def split: fetch_stage.splits list.splits if_splits prod.splits)

lemma stalled_step: "flow_step L P C s s' \<Longrightarrow> stalled s \<Longrightarrow> stalled s'"
proof (erule flow_step.cases)
  fix r f r' bs ts
  assume s: "stalled s" "fl_round s = Some r" "s' = s\<lparr>fl_fetcher := f, fl_round := Some r',
      fl_blocks_queue := fl_blocks_queue s @ bs, fl_txs_queue := fl_txs_queue s @ ts,
      fl_pushed_blocks := fl_pushed_blocks s @ bs, fl_pushed_txs := fl_pushed_txs s @ ts\<rparr>"
    and m: "fetch_micro (cr_fetch_cache C) (fetch_room_of s) (fl_fetcher s, r) = ((f, r'), bs, ts)"
  have h: "half_pushed r = fetcher_half s" "fetcher_half s' = half_pushed r'"
    by (simp_all add: fetcher_half_def s(2,3))
  have "length (half_pushed r') \<le> 1" by (simp add: half_pushed_def split: fetch_stage.splits)
  with micro_counts [OF m] s(1) h show "stalled s'"
    by (cases "fl_shutdown s") (auto simp: stalled_def s(3) fetch_room_of_def has_room_def)
qed (auto simp: stalled_def fetcher_half_def half_pushed_def round_start_def round_over_def fresh_flow_def elim!: program_startE)

lemma stalled_reached:
  assumes "(flow_step L P C)\<^sup>*\<^sup>* s0 s" "flow_start L P C s0"
  shows "stalled s"
  using assms(1)
proof (induction rule: rtranclp_induct)
  case base
  from assms(2) show ?case
    by (auto simp: flow_start_def stalled_def fetcher_half_def fresh_flow_def elim!: program_startE)
qed (rule stalled_step)

text \<open>C5: with transaction processing disabled the indexer stops after the first blocks: no task takes the
  transactions out of their queue, while the fetcher waits for room in it before it goes on, so a
  start never hands more than one block beyond the capacity of the queue (1001 with the default
  batch scale) to the block processor.\<close>

theorem disabled_transactions_stop_fetcher:
  assumes "flow_start L P C s0" "(flow_step L P C)\<^sup>*\<^sup>* s0 s" "crates_ok keys keys' C"
    and "is_disabled (tk_args (fl_config s)) TransactionProcessing"
  shows "length (fl_pushed_blocks s) \<le> queue_capacity (tk_args (fl_config s)) + 1"
proof -
  have "config_ok (fl_config s)" using flow_inv_reached [OF assms(2,1,3)] by (simp add: flow_inv_def)
  with config_ok_parts(3) assms(4) have "tk_txs (fl_config s) = None" "tk_capacity (fl_config s) = queue_capacity (tk_args (fl_config s))"
    by (auto simp: config_ok_def)
  with stalled_reached [OF assms(2,1)] show ?thesis by (simp add: stalled_def)
qed

section \<open>What a client sees\<close>

text \<open>C22: the metrics endpoint never shows a credential: in every state that the program reaches from a start,
  whatever its tasks have reported and whatever the system and the server answer, the settings in
  a response are those of the running program with the text of each url that is set replaced: of
  the node, of its peer, and of the database.\<close>

theorem credentials_stay_hidden:
  assumes "flow_start L P C s0" "(flow_step L P C)\<^sup>*\<^sup>* s0 s"
    and "update_metrics F r (web_metrics_of name version commit_id (fl_metrics s)) = Inr m'"
  shows "me_settings m' = Some ((tk_settings (fl_config s))\<lparr>s_cli_args := (tk_args (fl_config s))\<lparr>
      rpc_url := (case rpc_url (tk_args (fl_config s)) of None \<Rightarrow> None | Some _ \<Rightarrow> Some ''**hidden**''),
      p2p_url := (case p2p_url (tk_args (fl_config s)) of None \<Rightarrow> None | Some _ \<Rightarrow> Some ''**hidden**''),
      database_url := ''**hidden**''\<rparr>\<rparr>)"
proof -
  have "me_settings m' = me_settings (fl_metrics s)"
    using assms(3) by (auto simp: update_metrics_def sbind_Inr_iff web_metrics_of_def metrics.extend_def)
  moreover have "map_option (\<lambda>_. t) x = (case x of None \<Rightarrow> None | Some _ \<Rightarrow> Some t)" for t :: string and x :: "string option"
    by (cases x) simp_all
  ultimately show ?thesis
    using shows_settings_reached [OF assms(2,1)] by (simp add: shows_settings_def hidden_def)
qed

section \<open>Concrete runs\<close>

text \<open>
  A start on a saved checkpoint with the virtual chain and the block tables disabled, so that the
  checkpoint candidate comes from the block processor; the node returns two blocks, the first
  with a transaction. A second start has the transaction processing disabled as well.
\<close>

definition flow_args :: "cli_disable list \<Rightarrow> cli_args" where
  "flow_args ds = sample_args\<lparr>batch_concurrency := 1,
     disable := Some ([VirtualChainProcessing, BlocksTable, BlockParentTable] @ ds)\<rparr>"

definition flow_main :: main_env where
  "flow_main = \<lparr>mn_network_known = True, mn_database = True, mn_answers = [None, Some sample_env]\<rparr>"

definition flow_crates :: "(hash list, hash list) crates" where
  "flow_crates = \<lparr>cr_tx_cache = list_cache, cr_no_txs = [], cr_fetch_cache = list_cache, cr_no_blocks = [],
     cr_sched = (\<lambda>k n. [0..<n]), cr_mrg = concat\<rparr>"

definition flow_config :: "cli_disable list \<Rightarrow> task_config" where
  "flow_config ds = \<lparr>tk_settings = settings_of (flow_args ds) (Hash [2]) False, tk_capacity = 1000,
     tk_blocks = sample_block_cfg\<lparr>bc_disable_vcp := True, bc_disable_blocks := True, bc_disable_relations := True\<rparr>,
     tk_txs = (if TransactionProcessing \<in> set ds then None else Some sample_cfg), tk_chain = None,
     tk_checkpoints = \<lparr>cc_disable_vcp = True, cc_disable_tx = (TransactionProcessing \<in> set ds)\<rparr>\<rparr>"

definition flow_txs :: "cli_disable list \<Rightarrow> hash list tx_state" where
  "flow_txs ds = (if TransactionProcessing \<in> set ds then idle_txs [] 0 else sample_start)"

abbreviation few :: "cli_disable list \<Rightarrow> bool" where
  "few ds \<equiv> set ds \<subseteq> {TransactionProcessing}"

lemma flow_crates_ok: "crates_ok set set flow_crates"
  by (simp add: crates_ok_def flow_crates_def sched_ok_upt mrg_ok_concat list_cache_ok)

lemma flow_args_facts:
  "\<not> force_balance_rebuild (flow_args ds)" "ignore_checkpoint (flow_args ds) = None" "\<not> initialize_db (flow_args ds)"
  "check_batch_args (flow_args ds) = Inr ()" "queue_capacity (flow_args ds) = 1000"
  "is_disabled (flow_args ds) d \<longleftrightarrow> d \<in> set ([VirtualChainProcessing, BlocksTable, BlockParentTable] @ ds)"
  "\<not> is_enabled (flow_args ds) e" "\<not> is_excluded (flow_args ds) x"
  by (simp_all add: flow_args_def sample_args_def check_batch_args_def lit_0_1_def queue_capacity_def
      fl_of_nat [of 1000, simplified] is_disabled_def is_enabled_def is_excluded_def)

lemma flow_mapper: "mapper_new (flow_args ds) = sample_mapper"
  by (simp add: mapper_new_def sample_mapper_def flow_args_facts)

lemma flow_config_ok:
  assumes "few ds"
  shows "configure_tasks (settings_of (flow_args ds) (Hash [2]) False) 1000 = Inr (flow_config ds)"
proof -
  have t: "batch_scale (flow_args ds) = Fin 1" "batch_concurrency (flow_args ds) = 1" "cache_ttl (flow_args ds) = 60"
    by (simp_all add: flow_args_def sample_args_def)
  show ?thesis
    using assms
    by (auto simp: configure_tasks_def configure_txs_def configure_chain_def new_cache_def cache_size_def checked_mul_def
        max_cache_seconds_def settings_of_def
        flow_config_def flow_args_facts t flow_mapper block_config_of_def sample_block_cfg_def tx_config_of_def sample_cfg_def
        cp_config_of_def Let_def)
qed

lemma saved_vars: "saved_db = vars_db (t_vars saved_db)"
  by (simp add: saved_db_def vars_db_def)

definition flow_state :: "cli_disable list \<Rightarrow> metrics \<Rightarrow> (hash list, hash list) flow" where
  "flow_state ds m = fresh_flow flow_crates (flow_config ds) [CHR 0x02] m 0 0 (flow_txs ds) (pool_of saved_db) []"

lemma flow_started:
  assumes "few ds"
  shows "\<exists>m. flow_start sample_libs sample_p2p flow_crates (flow_state ds m)"
proof -
  let ?s = "settings_of (flow_args ds) (Hash [2]) False" and ?sv = "schema_server saved_db"
  obtain m where m: "startup_metrics sample_libs ?s 1000 None = Inr m" by (simp add: startup_metrics_def)
  note c = sample_resume [OF flow_args_facts(1,2), of ds "[]", unfolded sample_start_checkpoint_def]
  have b: "initial_checkpoint_block sample_env h = Inr None" for h by (simp add: initial_checkpoint_block_def sample_env_def)
  have p: "\<exists>st. start_processing sample_libs sample_p2p (\<lambda>xs. xs) (\<lambda>xs. xs) sample_env (flow_args ds) [] [] (pool_of saved_db)
      = (Inr st, pool_of saved_db) \<and> sd_settings st = ?s \<and> sd_capacity st = 1000 \<and> sd_previous st = [CHR 0x02]
        \<and> sd_metrics st = m\<lparr>me_utxo_importer := me_utxo_importer m\<rparr>"
    by (simp add: start_processing_def c b m flow_args_facts new_queue_def bnd_def lift_res_def ret_def Let_def)
  then obtain st where st: "start_processing sample_libs sample_p2p (\<lambda>xs. xs) (\<lambda>xs. xs) sample_env (flow_args ds) [] []
      (pool_of saved_db) = (Inr st, pool_of saved_db)" "sd_settings st = ?s" "sd_capacity st = 1000"
    "sd_previous st = [CHR 0x02]" "sd_metrics st = m" by auto
  have v: "on_table ''vars'' (select_var ''schema_version'') ?sv = (Inr ''10'', ?sv)"
    by (simp add: on_table_def schema_server_def tables_of_def up_sql_def select_var_def query_healthy saved_db_def
        schema_db_def var_key_block_checkpoint_def)
  have "prepare_main flow_main (flow_args ds) ?sv = (Inr (), ?sv)"
    by (simp add: prepare_main_def flow_main_def flow_args_facts prepare_database_def create_schema_def v schema_version_parses
        bnd_def lift_res_def ret_def del: parse_u8.simps)
  then have r: "run_main sample_libs sample_p2p (\<lambda>xs. xs) (\<lambda>xs. xs) flow_main (flow_args ds) [] [] ?sv = (Inr (Some st), ?sv)"
    using st(1) by (simp add: run_main_def bnd_def ret_def flow_main_def on_pool_def schema_server_def)
  have "complete ?sv" by (simp add: complete_def schema_server_def)
  moreover have "start_txs (flow_config ds) (cr_no_txs flow_crates) 0 (sv_pool ?sv) = (Inr (flow_txs ds), pool_of saved_db)"
    using sample_tx_start [of "t_vars saved_db"] saved_vars
    by (simp add: start_txs_def flow_config_def flow_crates_def flow_txs_def schema_server_def ret_def)
  ultimately show ?thesis
    using program_start.intros [OF r _ _, of "flow_config ds" flow_crates 0 "flow_txs ds" "pool_of saved_db" "[]" 0]
      flow_config_ok [OF assms] st(2-5)
    unfolding flow_start_def flow_state_def by (intro exI [of _ m] exI [of _ ?sv]) simp
qed

text \<open>One answer of two blocks, the first with a transaction.\<close>

definition flow_block :: rpc_block where
  "flow_block = \<lparr>rb_header = (rb_header (sample_rpc_block 2))\<lparr>h_timestamp := 3, h_daa_score := 4, h_blue_score := 4\<rparr>,
     rb_transactions = td_transactions sample_td, rb_verbose = rb_verbose (sample_rpc_block 2)\<rparr>"

definition flow_blocks :: "rpc_block list" where
  "flow_blocks = [flow_block, sample_rpc_block 3]"

abbreviation flow_next :: "(hash list, hash list) flow \<Rightarrow> (hash list, hash list) flow \<Rightarrow> bool" where
  "flow_next \<equiv> flow_step sample_libs sample_p2p flow_crates"

lemma flow_block_data:
  "transaction_data_of flow_block = sample_td" "block_checkpoint (block_data_of f flow_block) = (checkpoint_of sample_td)\<lparr>cb_origin := OriginBlocks\<rparr>"
  by (simp_all add: flow_block_def transaction_data_of_def sample_td_def sample_rpc_block_def block_checkpoint_def
      block_data_of_def checkpoint_of_def)

definition fetched :: "hash list fetcher \<Rightarrow> fetch_round \<Rightarrow> block_data list \<Rightarrow> transaction_data list \<Rightarrow>
    (hash list, hash list) flow \<Rightarrow> (hash list, hash list) flow" where
  "fetched f r bs ts s = s\<lparr>fl_fetcher := f, fl_round := Some r,
      fl_blocks_queue := fl_blocks_queue s @ bs, fl_txs_queue := fl_txs_queue s @ ts,
      fl_pushed_blocks := fl_pushed_blocks s @ bs, fl_pushed_txs := fl_pushed_txs s @ ts\<rparr>"

lemma fetched_next:
  "fl_round s = Some r \<Longrightarrow> fetch_micro list_cache (fetch_room_of s) (fl_fetcher s, r) = ((f, r'), bs, ts) \<Longrightarrow>
     flow_next s (fetched f r' bs ts s)"
  unfolding fetched_def by (rule flow_step.Fetch) (simp_all add: flow_crates_def)

lemma flow_takes_block:
  assumes "fl_round s = None" "\<not> fl_shutdown s" "f_cache (fl_fetcher s) = []" "tk_capacity (fl_config s) = 1000"
    and "fl_blocks_queue s = []" "fl_txs_queue s = []"
  shows "\<exists>f r bd. flow_next\<^sup>*\<^sup>* s (s\<lparr>fl_fetcher := f, fl_round := Some r, fl_blocks_queue := [bd], fl_txs_queue := [sample_td],
      fl_returned := fl_returned s @ flow_blocks, fl_session := fl_session s @ flow_blocks,
      fl_pushed_blocks := fl_pushed_blocks s @ [bd], fl_pushed_txs := fl_pushed_txs s @ [sample_td]\<rparr>)
    \<and> with_fetcher r = [sample_rpc_block 3] \<and> block_checkpoint bd = (checkpoint_of sample_td)\<lparr>cb_origin := OriginBlocks\<rparr>"
proof -
  define i where "i = \<lparr>fi_blocks = Some flow_blocks, fi_tips = None, fi_now = 0, fi_checked = 0, fi_now_seconds = 0,
    fi_blocks_len = 0, fi_txs_len = 0\<rparr>"
  let ?f = "fl_fetcher s" and ?r = "round_start flow_blocks (fl_fetcher s)"
  define s1 where "s1 = s\<lparr>fl_fetcher := ?f, fl_round := (if 1 < length flow_blocks then Some ?r else None),
    fl_returned := fl_returned s @ flow_blocks,
    fl_session := fl_session s @ (if 1 < length flow_blocks then flow_blocks else [])\<rparr>"
  have 1: "flow_next s s1"
    unfolding s1_def by (rule flow_step.Answer [where i = i]) (use assms in \<open>simp_all add: i_def update_tips_def\<close>)
  have l: "1 < length flow_blocks" by (simp add: flow_blocks_def)
  obtain known f1 acc where e: "enter_block list_cache flow_block (?f, no_acc ?f) = (known, f1, acc)"
    by (cases "enter_block list_cache flow_block (?f, no_acc ?f)") auto
  then have "\<not> known" using assms(3) by (auto simp: enter_block_def list_cache_def Let_def)
  define r2 where "r2 = ?r\<lparr>rd_todo := [sample_rpc_block 3], rd_stage := AtBlocksPush flow_block, rd_acc := acc\<rparr>"
  define s2 where "s2 = fetched f1 r2 [] [] s1"
  have 2: "flow_next s1 s2"
    unfolding s2_def
    by (rule fetched_next [where r = ?r])
      (use e \<open>\<not> known\<close> l in \<open>simp_all add: s1_def fetch_micro_def round_start_def flow_blocks_def r2_def\<close>)
  let ?bd = "block_data_of f1 flow_block"
  define r3 where "r3 = r2\<lparr>rd_stage := AtTxsPush flow_block, rd_acc := push_block ?bd acc\<rparr>"
  define s3 where "s3 = fetched f1 r3 [?bd] [] s2"
  have 3: "flow_next s2 s3"
    unfolding s3_def
    by (rule fetched_next [where r = r2])
      (use assms(2,4-6) in \<open>simp_all add: fetch_micro_def fetch_room_of_def has_room_def s2_def fetched_def s1_def r2_def r3_def\<close>)
  let ?f4 = "remember list_cache flow_block f1"
  define r4 where "r4 = r3\<lparr>rd_stage := AtNext, rd_acc := push_txs sample_td (push_block ?bd acc)\<rparr>"
  define s4 where "s4 = fetched ?f4 r4 [] [sample_td] s3"
  have 4: "flow_next s3 s4"
    unfolding s4_def
    by (rule fetched_next [where r = r3])
      (use assms(2,4-6) in \<open>simp_all add: fetch_micro_def fetch_room_of_def has_room_def s3_def s2_def fetched_def s1_def r2_def
        r3_def r4_def flow_block_data\<close>)
  have "flow_next\<^sup>*\<^sup>* s s4" using 1 2 3 4 by (meson converse_rtranclp_into_rtranclp rtranclp.rtrancl_refl)
  moreover have "s4 = s\<lparr>fl_fetcher := ?f4, fl_round := Some r4, fl_blocks_queue := [?bd], fl_txs_queue := [sample_td],
      fl_returned := fl_returned s @ flow_blocks, fl_session := fl_session s @ flow_blocks,
      fl_pushed_blocks := fl_pushed_blocks s @ [?bd], fl_pushed_txs := fl_pushed_txs s @ [sample_td]\<rparr>"
    using l assms(5,6) by (simp add: s4_def s3_def s2_def s1_def fetched_def)
  moreover have "with_fetcher r4 = [sample_rpc_block 3]" by (simp add: with_fetcher_def r4_def r3_def r2_def)
  ultimately show ?thesis using flow_block_data(2) [of f1] by metis
qed

lemma flow_state_simps:
  "fl_round (flow_state ds m) = None" "\<not> fl_shutdown (flow_state ds m)" "f_cache (fl_fetcher (flow_state ds m)) = []"
  "fl_config (flow_state ds m) = flow_config ds" "fl_blocks_queue (flow_state ds m) = []" "fl_txs_queue (flow_state ds m) = []"
  "fl_checkpoint_queue (flow_state ds m) = []" "fl_blocks_out (flow_state ds m) = []" "fl_txs_out (flow_state ds m) = []"
  "fl_pool (flow_state ds m) = pool_of saved_db" "fl_txs (flow_state ds m) = flow_txs ds" "fl_blocks (flow_state ds m) = block_start 0"
  "fl_checkpoints (flow_state ds m) = cp_start 0 (Some [CHR 0x02])" "fl_session (flow_state ds m) = []"
  "fl_deleted (flow_state ds m) = nothing_deleted" "fl_pushed_blocks (flow_state ds m) = []" "fl_pushed_txs (flow_state ds m) = []" "fl_returned (flow_state ds m) = []"
  by (simp_all add: flow_state_def fresh_flow_def fetcher_new_def flow_crates_def)

lemma flow_config_simps:
  "tk_capacity (flow_config ds) = 1000" "tk_args (flow_config ds) = flow_args ds"
  "records_txs (flow_config []) " "tk_txs (flow_config []) = Some sample_cfg" "flow_txs [] = sample_start"
  "tk_blocks (flow_config ds) = sample_block_cfg\<lparr>bc_disable_vcp := True, bc_disable_blocks := True, bc_disable_relations := True\<rparr>"
  "tk_checkpoints (flow_config []) = \<lparr>cc_disable_vcp = True, cc_disable_tx = False\<rparr>"
  by (simp_all add: flow_config_def records_txs_def settings_of_def flow_args_facts flow_txs_def)

theorem disabled_transactions_stop_fetcher_witness:
  "\<exists>s m. flow_next\<^sup>*\<^sup>* (flow_state [TransactionProcessing] m) s \<and> length (fl_pushed_blocks s) = 1
    \<and> length (fl_pushed_blocks s) \<le> 1001"
proof -
  let ?ds = "[TransactionProcessing]"
  from flow_started [of ?ds] obtain m where m: "flow_start sample_libs sample_p2p flow_crates (flow_state ?ds m)" by auto
  from flow_takes_block [of "flow_state ?ds m"] obtain s where s: "flow_next\<^sup>*\<^sup>* (flow_state ?ds m) s"
    "fl_config s = flow_config ?ds" "length (fl_pushed_blocks s) = 1"
    by (auto simp: flow_state_simps flow_config_simps)
  have "is_disabled (tk_args (fl_config s)) TransactionProcessing" by (simp add: s(2) flow_config_simps flow_args_facts)
  from disabled_transactions_stop_fetcher [OF m s(1) flow_crates_ok this] s show ?thesis
    by (auto simp: flow_config_simps flow_args_facts)
qed

lemma flow_block_good: "block_good sample_libs flow_block" "block_good sample_libs (sample_rpc_block 3)"
  by (simp_all add: block_good_def block_ok_def times_ok_def sample_libs_def transaction_data_of_def sample_rpc_block_def
      flow_block_def sample_td_def fits_columns_def)

theorem program_never_stuck_witness:
  "\<exists>s m s'. flow_next\<^sup>*\<^sup>* (flow_state [] m) s \<and> length (fl_txs_queue s) = 1
    \<and> flow_next\<^sup>*\<^sup>* s s' \<and> fl_session s' = flow_blocks \<and> fl_txs_queue s' = []"
proof -
  from flow_started [of "[]"] obtain m where m: "flow_start sample_libs sample_p2p flow_crates (flow_state [] m)" by auto
  from flow_takes_block [of "flow_state [] m"] obtain s where s: "flow_next\<^sup>*\<^sup>* (flow_state [] m) s"
    "fl_config s = flow_config []" "length (fl_txs_queue s) = 1" "fl_session s = flow_blocks" "fl_pool s = pool_of saved_db"
    "\<not> fl_shutdown s"
    by (auto simp: flow_state_simps flow_config_simps)
  have "records_txs (fl_config s)" "resolvable (fl_config s)" "tk_txs (fl_config s) = Some sample_cfg"
    by (simp_all add: s(2) flow_config_simps resolvable_def flow_args_facts)
  moreover have "healthy (fl_pool s)" "outputs_ready True sample_cfg (data (fl_pool s))"
    by (simp_all add: s(5) outputs_ready_def saved_db_def schema_db_def)
  moreover have "\<forall>b\<in>set (fl_session s). block_good sample_libs b" by (simp add: s(4) flow_blocks_def flow_block_good)
  ultimately show ?thesis
    using program_never_stuck [OF m s(1) flow_crates_ok] s by metis
qed

theorem credentials_stay_hidden_witness:
  "\<exists>m m'. update_metrics \<lparr>format_secs = digits, format_bytes = digits, format_time = (\<lambda>_. [])\<rparr> sample_refresh
      (web_metrics_of [] [] [] (fl_metrics (flow_state [] m))) = Inr m'
    \<and> (\<exists>shown. me_settings m' = Some shown \<and> database_url (s_cli_args shown) = ''**hidden**'')"
proof -
  from flow_started [of "[]"] obtain m where m: "flow_start sample_libs sample_p2p flow_crates (flow_state [] m)" by auto
  let ?F = "\<lparr>format_secs = digits, format_bytes = digits, format_time = (\<lambda>_. [])\<rparr>"
  obtain m' where m': "update_metrics ?F sample_refresh (web_metrics_of [] [] [] (fl_metrics (flow_state [] m))) = Inr m'"
    by (simp add: update_metrics_def update_process_def get_free_memory_def sample_refresh_def sbind_def)
  have "\<exists>shown. me_settings m' = Some shown \<and> database_url (s_cli_args shown) = ''**hidden**''"
    unfolding credentials_stay_hidden [OF m rtranclp.rtrancl_refl m'] by simp
  with m' show ?thesis by blast
qed

lemma flow_blocks_round:
  assumes "block_checkpoint bd = c" "cb_timestamp c = 3"
  shows "\<exists>b mb. process_blocks_step sample_libs (tk_blocks (flow_config [])) (Some bd, 3000000000, 3000000000) (block_start 0) p
     = (Inr (b, mb, [c]), p)"
  using assms
  by (simp add: process_blocks_step_def flow_config_simps sample_block_cfg_def add_block_def block_start_def lift_res_def bnd_def
      ret_def blocks_ready_def secs_since_def commit_blocks_def clear_acceptances_def sample_libs_def metrics_block_of_def)

lemma flow_txs_round:
  "\<exists>st mb p. process_transactions_step sample_libs list_cache (\<lambda>k n. [0..<n]) concat sample_cfg
     (Some sample_td, 3000000000, 3000000000) sample_start (pool_of saved_db) = (Inr (st, mb, [checkpoint_of sample_td]), p)
   \<and> t_blocks (data p) = []"
  using sample_run [of "t_vars saved_db"] unfolding saved_vars [symmetric] by (fastforce simp: bnd_Inr_iff ret_def)

lemma flow_report_round:
  "process_checkpoints_step sample_libs (\<lambda>xs. xs) (\<lambda>xs. xs) (tk_checkpoints (flow_config []))
     (Some (checkpoint_of sample_td), sample_times) (cp_start 0 (Some [CHR 0x02])) p
     = (Inr ((cp_start 0 (Some [CHR 0x02]))\<lparr>k_txs := {Hash [2]}\<rparr>, None), p)"
  by (simp add: process_checkpoints_step_def receive_def cp_start_def ret_def checkpoint_of_def sample_td_def flow_config_simps)

lemma try_save_total: "\<exists>ok q. try_save h p = (Inr ok, q)"
  by (cases "save_checkpoint h p"; cases "fst (save_checkpoint h p)") (auto simp: try_save_def)

text \<open>Without blocks a balance update finds no change.\<close>

lemma no_blocks_no_change:
  assumes "t_blocks (data p) = []"
  shows "\<exists>q. try_update_balances sample_libs (\<lambda>xs. xs) (\<lambda>xs. xs) (Some h) h' p = (Inr (), q)"
proof -
  have w: "created_rows (window (checkpoint_scores f d) (checkpoint_scores t d)) d = []"
    "spent_rows (window (checkpoint_scores f d) (checkpoint_scores t d)) d = []" if "t_blocks d = []" for f t d
    using that by (auto simp: created_rows_def spent_rows_def window_def checkpoint_scores_def split: option.splits)
  obtain f t where hex: "hex_decode sample_libs h = Some f" "hex_decode sample_libs h' = Some t"
    by (simp add: sample_libs_def)
  have g: "group_sums (\<lambda>xs. xs) [] = Inr []" by (simp add: group_sums_def)
  have q: "r = Inr [] \<or> (\<exists>e. r = Inl e)" if r: "select_changes sample_libs (\<lambda>xs. xs) rows h h' p1 = (r, p2)"
      and rows: "rows = created_rows \<or> rows = spent_rows" and none: "t_blocks (data p1) = []" for rows r p1 p2
  proof (cases r)
    case (Inr a)
    have "rows (window (checkpoint_scores f (data p1)) (checkpoint_scores t (data p1))) (data p1) = []"
      using rows w [OF none] by blast
    with query_Inr [OF r [unfolded Inr select_changes_def]] g Inr show ?thesis by (simp add: hex)
  qed simp
  obtain r p1 where 1: "select_changes sample_libs (\<lambda>xs. xs) created_rows h h' p = (r, p1)"
    by (cases "select_changes sample_libs (\<lambda>xs. xs) created_rows h h' p") auto
  obtain r' p2 where 2: "select_changes sample_libs (\<lambda>xs. xs) spent_rows h h' p1 = (r', p2)"
    by (cases "select_changes sample_libs (\<lambda>xs. xs) spent_rows h h' p1") auto
  have none: "t_blocks (data p1) = []" using arg_cong [OF 1, of "data \<circ> snd"] assms by (simp add: select_changes_def query_data)
  have run: "\<exists>x q. update_balances_from_utxo_changes sample_libs (\<lambda>xs. xs) (\<lambda>xs. xs) h h' p = (x, q)
      \<and> (x = Inr () \<or> (\<exists>e. x = Inl (DbFailed e)))"
  proof (cases "r = Inr [] \<and> r' = Inr []")
    case True
    with 1 2 show ?thesis
      by (simp add: update_balances_from_utxo_changes_def bnd_def db_call_def changes_of_def lift_res_def ret_def)
  next
    case False
    with q [OF 1 _ assms] q [OF 2 _ none] have "(\<exists>e. r = Inl e) \<or> r = Inr [] \<and> (\<exists>e. r' = Inl e)" by blast
    with 1 2 show ?thesis
      by (elim disjE exE conjE) (simp_all add: update_balances_from_utxo_changes_def bnd_def db_call_def)
  qed
  then show ?thesis by (auto simp: try_update_balances_def)
qed

lemma flow_save_round:
  assumes "t_blocks (data p) = []"
  shows "\<exists>k' m p'. process_checkpoints_step sample_libs (\<lambda>xs. xs) (\<lambda>xs. xs) (tk_checkpoints (flow_config []))
     (Some ((checkpoint_of sample_td)\<lparr>cb_origin := OriginBlocks\<rparr>), sample_times)
     ((cp_start 0 (Some [CHR 0x02]))\<lparr>k_txs := {Hash [2]}\<rparr>) p = (Inr (k', Some m), p')"
proof -
  let ?h = "hex_encode sample_libs [2]"
  from no_blocks_no_change [OF assms] obtain q where u: "try_update_balances sample_libs (\<lambda>xs. xs) (\<lambda>xs. xs)
      (Some [CHR 0x02]) ?h p = (Inr (), q)" by blast
  obtain ok q' where s: "try_save ?h q = (Inr ok :: panic + bool, q')" using try_save_total by blast
  show ?thesis
    by (simp add: process_checkpoints_step_def receive_def propose_def cp_start_def ret_def bnd_def secs_since_def
        sample_times_def checkpoint_save_interval_def test_candidate_def save_candidate_def u s
        checkpoint_of_def sample_td_def flow_config_simps lift_res_def metrics_block_of_def Let_def)
      (simp add: sample_libs_def)
qed

text \<open>A run up to the round that saves the checkpoint.\<close>

lemma flow_reached:
  "\<exists>s k' m p'. flow_next\<^sup>*\<^sup>* (flow_state [] m0) s \<and> fl_config s = flow_config [] \<and> \<not> fl_shutdown s
    \<and> pop (fl_checkpoint_queue s) = (Some ((checkpoint_of sample_td)\<lparr>cb_origin := OriginBlocks\<rparr>), [])
    \<and> process_checkpoints_step sample_libs (\<lambda>xs. xs) (\<lambda>xs. xs) (tk_checkpoints (flow_config []))
        (Some ((checkpoint_of sample_td)\<lparr>cb_origin := OriginBlocks\<rparr>), sample_times) (fl_checkpoints s) (fl_pool s)
        = (Inr (k', Some m), p')
    \<and> k_last_saved (fl_checkpoints s) = 0 \<and> fl_session s = flow_blocks \<and> fetcher_has s = [sample_rpc_block 3]
    \<and> fl_pushed_txs s = [sample_td] \<and> fl_deleted s = nothing_deleted"
proof -
  let ?c = "checkpoint_of sample_td" and ?cb = "(checkpoint_of sample_td)\<lparr>cb_origin := OriginBlocks\<rparr>"
  let ?s0 = "flow_state [] m0" and ?k = "cp_start 0 (Some [CHR 0x02])"
  obtain f r bd s1 where 1: "flow_next\<^sup>*\<^sup>* ?s0 s1" and bd: "block_checkpoint bd = ?cb" and r: "with_fetcher r = [sample_rpc_block 3]"
    and s1: "s1 = ?s0\<lparr>fl_fetcher := f, fl_round := Some r, fl_blocks_queue := [bd], fl_txs_queue := [sample_td],
      fl_returned := flow_blocks, fl_session := flow_blocks, fl_pushed_blocks := [bd], fl_pushed_txs := [sample_td]\<rparr>"
    using flow_takes_block [of ?s0] by (auto simp: flow_state_simps flow_config_simps)
  from flow_txs_round obtain st mb p where t: "process_transactions_step sample_libs list_cache (\<lambda>k n. [0..<n]) concat
      sample_cfg (Some sample_td, 3000000000, 3000000000) sample_start (pool_of saved_db) = (Inr (st, mb, [?c]), p)"
    "t_blocks (data p) = []" by blast
  define s2 where "s2 = s1\<lparr>fl_pool := p, fl_metrics := report_transactions mb (fl_metrics s1), fl_txs_queue := [], fl_txs := st,
      fl_txs_out := [?c]\<rparr>"
  have 2: "flow_next s1 s2"
    unfolding s2_def
    by (rule flow_step.Transactions [where popped = "Some sample_td" and t = 3000000000 and t' = 3000000000 and cfg = sample_cfg])
      (simp_all add: s1 flow_state_simps flow_config_simps pop_Some t(1) flow_crates_def)
  define s3 where "s3 = s2\<lparr>fl_txs_out := [], fl_checkpoint_queue := fl_checkpoint_queue s2 @ [?c]\<rparr>"
  have 3: "flow_next s2 s3"
    unfolding s3_def by (rule flow_step.TransactionsPush)
      (simp_all add: s2_def s1 flow_state_simps has_room_def checkpoint_capacity_def)
  have "cb_timestamp ?cb = 3" by (simp add: checkpoint_of_def sample_td_def)
  from flow_blocks_round [OF bd this] obtain b mb' where b: "process_blocks_step sample_libs (tk_blocks (flow_config []))
      (Some bd, 3000000000, 3000000000) (block_start 0) p = (Inr (b, mb', [?cb]), p)" by blast
  define s4 where "s4 = s3\<lparr>fl_pool := p, fl_metrics := report_blocks mb' (fl_metrics s3), fl_blocks_queue := [], fl_blocks := b,
      fl_blocks_out := [?cb]\<rparr>"
  have 4: "flow_next s3 s4"
    unfolding s4_def
    by (rule flow_step.Blocks [where popped = "Some bd" and t = 3000000000 and t' = 3000000000])
      (simp_all add: s3_def s2_def s1 flow_state_simps pop_Some b)
  define s5 where "s5 = s4\<lparr>fl_blocks_out := [], fl_checkpoint_queue := fl_checkpoint_queue s4 @ [?cb]\<rparr>"
  have 5: "flow_next s4 s5"
    unfolding s5_def by (rule flow_step.BlocksPush)
      (simp_all add: s4_def s3_def s2_def s1 flow_state_simps has_room_def checkpoint_capacity_def)
  define s where "s = s5\<lparr>fl_pool := p, fl_metrics := report_checkpoint None (fl_metrics s5), fl_checkpoint_queue := [?cb],
      fl_checkpoints := ?k\<lparr>k_txs := {Hash [2]}\<rparr>\<rparr>"
  have 6: "flow_next s5 s"
    unfolding s_def
    by (rule flow_step.Checkpoint [where popped = "Some ?c" and ts = sample_times and grp = "\<lambda>xs. xs" and perm = "\<lambda>xs. xs"])
      (simp_all add: s5_def s4_def s3_def s2_def s1 flow_state_simps pop_Some flow_report_round)
  have "flow_next\<^sup>*\<^sup>* ?s0 s" using 1 2 3 4 5 6 by (meson rtranclp.rtrancl_into_rtrancl)
  moreover have "fl_config s = flow_config []" "\<not> fl_shutdown s" "pop (fl_checkpoint_queue s) = (Some ?cb, [])"
    "k_last_saved (fl_checkpoints s) = 0" "fl_session s = flow_blocks" "fetcher_has s = [sample_rpc_block 3]"
    "fl_pushed_txs s = [sample_td]" "fl_deleted s = nothing_deleted"
    by (simp_all add: s_def s5_def s4_def s3_def s2_def s1 flow_state_simps pop_Some cp_start_def fetcher_has_def r)
  moreover have "\<exists>k' m p'. process_checkpoints_step sample_libs (\<lambda>xs. xs) (\<lambda>xs. xs) (tk_checkpoints (flow_config []))
      (Some ?cb, sample_times) (fl_checkpoints s) (fl_pool s) = (Inr (k', Some m), p')"
    using flow_save_round [OF t(2)] by (simp add: s_def)
  ultimately show ?thesis by blast
qed

theorem no_block_is_lost_witness:
  "\<exists>m s. flow_next\<^sup>*\<^sup>* (flow_state [] m) s \<and> \<not> fl_shutdown s \<and> flow_block \<in> set (fl_session s)
    \<and> (\<exists>bd\<in>set (fl_pushed_blocks s). pushed_hash bd = block_hash flow_block)"
proof -
  from flow_started [of "[]"] obtain m where m: "flow_start sample_libs sample_p2p flow_crates (flow_state [] m)" by auto
  from flow_reached [of m] obtain s where s: "flow_next\<^sup>*\<^sup>* (flow_state [] m) s" "fl_config s = flow_config []"
    "\<not> fl_shutdown s" "fl_session s = flow_blocks" "fetcher_has s = [sample_rpc_block 3]" by blast
  have "records_txs (fl_config s)" "flow_block \<in> set (fl_session s)" "flow_block \<notin> set (fetcher_has s)"
    by (simp_all add: s flow_config_simps flow_blocks_def) (simp add: flow_block_def sample_rpc_block_def)
  with no_block_is_lost [OF m s(1) flow_crates_ok _ s(3)] s(1,3) show ?thesis by blast
qed

theorem saved_checkpoint_is_complete_witness:
  "\<exists>m0 s k' m p'. flow_next\<^sup>*\<^sup>* (flow_state [] m0) s
    \<and> process_checkpoints_step sample_libs (\<lambda>xs. xs) (\<lambda>xs. xs) (tk_checkpoints (fl_config s))
        (fst (pop (fl_checkpoint_queue s)), sample_times) (fl_checkpoints s) (fl_pool s) = (Inr (k', Some m), p')
    \<and> Hash [7] \<in> tx_id ` set (t_transactions (data p'))"
proof -
  from flow_started [of "[]"] obtain m0 where m0: "flow_start sample_libs sample_p2p flow_crates (flow_state [] m0)" by auto
  let ?cb = "(checkpoint_of sample_td)\<lparr>cb_origin := OriginBlocks\<rparr>"
  from flow_reached [of m0] obtain s k' m p' where reach: "flow_next\<^sup>*\<^sup>* (flow_state [] m0) s"
    and cfg: "fl_config s = flow_config []" and pop: "pop (fl_checkpoint_queue s) = (Some ?cb, [])"
    and k: "process_checkpoints_step sample_libs (\<lambda>xs. xs) (\<lambda>xs. xs) (tk_checkpoints (fl_config s))
        (Some ?cb, sample_times) (fl_checkpoints s) (fl_pool s) = (Inr (k', Some m), p')"
    and s: "k_last_saved (fl_checkpoints s) = 0" "fl_pushed_txs s = [sample_td]" "fl_deleted s = nothing_deleted" by metis
  have "records_txs (fl_config s)" by (simp add: cfg flow_config_simps)
  moreover have "secs_since (at_test sample_times) (k_last_saved (fl_checkpoints s)) \<le> max_time_without_save"
    by (simp add: s sample_times_def secs_since_def max_time_without_save_def)
  ultimately obtain before td rest where "fl_pushed_txs s = before @ td # rest"
    and st: "\<forall>t\<in>set (td_transactions td). \<exists>v. rt_verbose t = Some v \<and> tv_transaction_id v \<in> tx_id ` set (t_transactions (data p'))"
    using saved_checkpoint_is_complete [OF m0 reach flow_crates_ok _ pop k] s(3) by (fastforce simp: nothing_deleted_def)
  then have "td = sample_td" by (simp add: s Cons_eq_append_conv)
  with st have "Hash [7] \<in> tx_id ` set (t_transactions (data p'))" by (simp add: sample_td_def)
  with reach k pop show ?thesis by (metis fst_conv)
qed

end
