(* ===== verification/Spec2Isabelle.thy ===== *)
theory Spec2Isabelle
  imports Process_Tx_Inputs Process_Tx_Live Process_Blocks_Live Virtual_Chain_Run Checkpoint Process_Blocks Fetch_Blocks
    Db_Prune_Txs Prune_Props Utxo_Import_Props Import_Ledger Mapping_Props Startup_Props Health Connections System
    Dataflow
begin

text \<open>
  A verification development for the Vecno indexer: a pipeline of concurrent tasks that copies
  blocks, transactions and the acceptance of transactions from a node of a block DAG into
  PostgreSQL, keeps the balance of every address live, saves a checkpoint to resume from, and
  prunes old rows.

  The parts and how they interact. The block fetcher (\<open>indexer/src/blocks/fetch_blocks.rs\<close>)
  polls the node and pushes every new block into two queues. The block processor
  (\<open>process_blocks.rs\<close>) and the transaction processor (\<open>transactions/process_transactions.rs\<close>)
  pop them, write rows in batches, and push a checkpoint block per committed block. The virtual
  chain processor (\<open>virtual_chain/\<close>) follows the selected chain of the node: it removes the
  acceptances of blocks that left the chain and adds those of the blocks that joined, and pushes
  a checkpoint candidate. The checkpoint task (\<open>checkpoint.rs\<close>) waits until the candidate's
  data are committed, moves the live balances (\<open>utxo_import/balance_updater.rs\<close>) and saves the
  hash. The pruner (\<open>prune.rs\<close>) runs on a schedule. All of them write the metrics record the
  web endpoints show (\<open>web/\<close>). The start (\<open>main.rs\<close>) checks or creates the schema, decides whether
  to rebuild the balances from the node's UTXO set (\<open>utxo_import/\<close>), picks the checkpoint and
  starts the tasks.

  The theories, in the order of their imports:
    \<^item> \<open>Prelude\<close>: machine integers and conversions, panics and errors as values, operations on a
      state that may fail, \<open>chunks\<close>. \<open>Float_Model\<close>: the floating-point products of the batch
      sizes (binary64, round to nearest even) and their casts. \<open>Cli\<close>: \<open>cli/src/cli_args.rs\<close>.
    \<^item> \<open>Models\<close>: the row types of \<open>database/src/models/\<close>. \<open>Db\<close>: the database as a record of
      tables, statements that succeed or fail atomically, transactions; \<open>Db_Insert\<close>,
      \<open>Db_Delete\<close>, \<open>Db_Prune_Txs\<close>: the statements of \<open>database/src/query/\<close>. The interface of
      the inserts is the locale \<open>skip_conflicts_table\<close>, interpreted for eight tables; the
      interface of the prunes by age is \<open>aged_table\<close>, interpreted for seven statements.
      \<open>Schema\<close>: the migrations and \<open>client.rs\<close>, on a server whose tables may not exist.
    \<^item> \<open>Mapping\<close>: \<open>mapping/src/\<close>, from RPC data to rows (properties in \<open>Mapping_Props\<close>).
    \<^item> \<open>Writers\<close>: batches written by concurrent tasks; its locale \<open>db_relation\<close> is the interface
      between an operation and a reflexive, transitive relation on the database that every
      statement keeps, interpreted for growth, for the keys and for the outputs. \<open>Pipeline\<close>: queue elements, settings,
      metrics, the cache of known hashes, and the functions of other crates as parameters.
    \<^item> One theory per task: \<open>Fetch_Blocks\<close>, \<open>Process_Blocks\<close>, \<open>Process_Transactions\<close> (with the
      properties in \<open>Process_Tx_Props\<close> and \<open>Process_Tx_Inputs\<close>), \<open>Virtual_Chain\<close>
      (its loop and properties in \<open>Virtual_Chain_Run\<close>), \<open>Balances\<close> (properties in \<open>Balances_Props\<close>;
      the ledger of unspent outputs its updates refine in \<open>Ledger\<close>), \<open>Checkpoint\<close>, \<open>Prune\<close> (properties in
      \<open>Prune_Props\<close>), and the import of the node's UTXO set at startup, \<open>Utxo_Import\<close>
      (\<open>utxo_import/utxo_set_importer.rs\<close>, properties in \<open>Utxo_Import_Props\<close>; \<open>Import_Ledger\<close>: the import
      starts the ledger).
    \<^item> \<open>Startup\<close>: \<open>main.rs\<close>, from the node's first answer to the tasks started (properties in
      \<open>Startup_Props\<close>). \<open>Program\<close>: \<open>main\<close> from its arguments through the checks, the schema
      and the start to the configuration every task computes from its settings. \<open>Web_Metrics\<close>,
      \<open>Health\<close>: the metrics and health endpoints, the signal handler. \<open>Connections\<close>: the RPC
      connections, the handshake and the subscriptions with a peer, the web server's paths and layers.
    \<^item> The components together. \<open>Tasks\<close>: the locale \<open>task_relation\<close>, which extends \<open>db_relation\<close> by
      the statements of the program and gives every round of every task; interpreted for growth
      and for the keys. \<open>System\<close>: the step relation \<open>system_step\<close> on the database. \<open>Flow\<close>: the
      step relation \<open>flow_step\<close> of the running program, from the start through \<open>main\<close>: the
      fetcher one iteration of its loops at a time, the processors and the checkpoint task one
      round at a time, the pruner one part of a scheduled run at a time, the bounded queues between them with every push a step of its own, a
      shutdown, and any failure followed by any restart; the rows that pruner runs delete are
      recorded, so that what was stored can be told from what never was. \<open>Flow_Inv\<close>: its invariant;
      \<open>Flow_Live\<close>: from every state some step brings the end of the work nearer;
      \<open>Web_View\<close>: what the endpoints show of it; \<open>Dataflow\<close>: what follows.

  Conventions. Code outside the repository is a parameter: the fields of the record \<open>libs\<close>, the
  cache operations, what the server returns for a \<open>LIMIT\<close> without an order (\<open>limit_ok\<close> states
  what is documented), the order in which a buffered stream runs its futures (\<open>sched_ok\<close>), the
  interleaving of the tasks of a batch (\<open>mrg_ok\<close>), the iteration order of a hash map
  (\<open>permuting\<close>). What a task reads from outside, the answers of the node, the clock, a popped
  queue element, is an input of its step; what it pushes is an output. A panic is a value, as
  the release profile aborts on it; integers overflow into a panic, as its overflow checks are
  on. A statement of the database may fail at any point: the list \<open>faults\<close> of the pool says
  which do. Logging has no effect but the evaluation of its arguments, and the default level
  evaluates those of \<open>info!\<close>.

  What the lemmas show, by theory. \<open>Process_Tx_Props\<close>: checkpoints never run ahead of the data.
  \<open>Process_Tx_Inputs\<close>: the concurrent inserts of inputs and outputs commute. \<open>Virtual_Chain_Run\<close>:
  the acceptance table is that of the selected chain of one block, through every reorganisation,
  and with a healthy connection that block is the tip, up to the tip distance. \<open>Balances_Props\<close>: what
  the live updates count, and when they lose changes. \<open>Ledger\<close>: the balance of the outputs unspent at a blue
  score, imported ones included, and the live update as its refinement, on tables that are a ledger
  (\<open>ledger_ok\<close>). \<open>Checkpoint\<close>: a report of a
  commit counts for one save, balances and checkpoint move together through the life of the task, and when they do not.
  \<open>Db_Prune_Txs\<close>: pruning ends, keeps unspent outputs, deletes only what expired.
  \<open>Prune_Props\<close>: a run of the pruner ends, leaves no relation of a pruned block, waits for the
  checkpoint of the metrics and reports the truth. \<open>Utxo_Import_Props\<close>: a completed import stores the set and
  rebuilds the balances from it, as long as its statements succeed, and completes with a peer that behaves.
  \<open>Import_Ledger\<close>: what it leaves is a ledger with its balances.
  \<open>Process_Blocks\<close>: published blocks are stored. \<open>Fetch_Blocks\<close>: a full queue delays a pass over
  an answer and changes nothing in it.
  \<open>Success\<close>: a total-correctness calculus, \<open>works I m Q\<close>: on every connection whose statements
  do not fail, \<open>m\<close> returns, without a panic, and \<open>Q\<close> holds. \<open>Process_Tx_Live\<close>,
  \<open>Process_Blocks_Live\<close>: with a healthy connection a processor writes all it popped and reports it.
  \<open>Checkpoint_Live\<close>: \<open>behaves\<close>, the calculus for operations that may fail; no round of the
  checkpoint task panics on it, as the balance update cannot overflow.
  \<open>Mapping_Props\<close>: rows in order and without loss. \<open>Schema\<close>: what a start does to the schema.
  \<open>Startup_Props\<close>: checkpoint and balances agree after a rebuild, and when they do not; a resume changes nothing.
  \<open>Program\<close>: which times to live of the caches a start survives, which passwords it logs.
  \<open>Connections\<close>: the importer misses no message it acts on; tracing leaves short bodies alone.
  \<open>Dataflow\<close>: a checkpoint saved without the timeout is a block the node returned, with all its
  transactions stored, in every interleaving and across restarts, and so are the blocks pushed
  before it, where stored is in the database or deleted by a pruner run; until a shutdown no block of an answer is lost between the queues; with transaction
  processing disabled the fetcher stops for good at a full queue, and otherwise the tasks never
  lock up: from every state they can finish what the fetcher has taken up; the urls of the
  settings are never shown.
  \<open>Health\<close>: an answer of 200 means the indexer keeps up. \<open>System\<close>: primary keys stay unique in
  every reachable database, and an imported output without an address stops the transaction
  processor.

  Loops. The prune loops are \<open>partial_function (option)\<close> and shown to end; the task loops are
  folds over the list of their rounds' inputs, so that a property of every finite run is a
  property of the task; a push that waits is an iteration that changes nothing, and three
  iterations per block are enough where there is room. There is no fuel.

  Not modelled: the HTTP stack, routing and the serialisation of the answers, the framing of the
  P2P crate, the connection pools, logging beyond the evaluation of its arguments and the line
  with the database url, the command-line parser but for its ranges and durations, the SQL of the
  PostgreSQL statistics, the client methods that only pass a query on, and the build script; they
  are input and output around the state modelled here. What is left of the source beside them
  are imports, derived traits and the log lines of the tasks.
\<close>

end
